(* ===== verification/Ntp_Prelude.thy ===== *)
theory Ntp_Prelude
  imports Main "HOL-Library.Word"
begin

text \<open>
  Shared vocabulary of the development: bytes and big-endian integers as the Rust standard
  library encodes them, slices, the result type of fallible code, a write cursor over a fixed
  buffer (\<^verbatim>\<open>std::io::Cursor<&mut [u8]>\<close>), and the two generic interfaces the components are
  stated against: codecs with a prefix round trip, and transition systems with an invariant.
\<close>

unbundle bit_operations_syntax

named_theorems wire_simps \<open>unfolding rules for wire layouts\<close>
named_theorems result_simps \<open>elimination of the result monad\<close>

type_synonym byte = "8 word"
type_synonym bytes = "8 word list"
type_synonym u16 = "16 word"
type_synonym u32 = "32 word"
type_synonym u64 = "64 word"
type_synonym u128 = "128 word"

section \<open>Fallible computations\<close>

text \<open>\<^verbatim>\<open>Result<T, E>\<close> is the sum \<open>'e + 'a\<close>, with \<open>Inl\<close> for \<^verbatim>\<open>Err\<close>; the question mark operator is \<open>bindR\<close>.\<close>

definition bindR :: "'e + 'a \<Rightarrow> ('a \<Rightarrow> 'e + 'b) \<Rightarrow> 'e + 'b" where
  "bindR m f = (case m of Inl e \<Rightarrow> Inl e | Inr x \<Rightarrow> f x)"

definition map_err :: "('e \<Rightarrow> 'f) \<Rightarrow> 'e + 'a \<Rightarrow> 'f + 'a" where
  "map_err g m = (case m of Inl e \<Rightarrow> Inl (g e) | Inr x \<Rightarrow> Inr x)"

definition ok_or :: "'e \<Rightarrow> 'a option \<Rightarrow> 'e + 'a" where
  "ok_or e x = (case x of None \<Rightarrow> Inl e | Some y \<Rightarrow> Inr y)"

lemma bindR_Inr [simp]: "bindR (Inr x) f = f x"
  by (simp add: bindR_def)

lemma bindR_Inl [simp]: "bindR (Inl e) f = Inl e"
  by (simp add: bindR_def)

lemma bindR_eq_Inr_iff [result_simps]:
  "bindR m f = Inr y \<longleftrightarrow> (\<exists>x. m = Inr x \<and> f x = Inr y)"
  by (cases m) auto

lemma bindR_eq_Inl_iff [result_simps]:
  "bindR m f = Inl e \<longleftrightarrow> m = Inl e \<or> (\<exists>x. m = Inr x \<and> f x = Inl e)"
  by (cases m) auto

lemma map_err_simps [simp]:
  "map_err g (Inl e) = Inl (g e)" "map_err g (Inr x) = Inr x"
  by (simp_all add: map_err_def)

lemma map_err_eq_Inr_iff [result_simps]: "map_err g m = Inr y \<longleftrightarrow> m = Inr y"
  by (cases m) auto

lemma map_err_eq_Inl_iff [result_simps]: "map_err g m = Inl f \<longleftrightarrow> (\<exists>e. m = Inl e \<and> f = g e)"
  by (cases m) auto

lemma ok_or_simps [simp]: "ok_or e None = Inl e" "ok_or e (Some x) = Inr x"
  by (simp_all add: ok_or_def)

lemma ok_or_eq_Inr_iff [result_simps]: "ok_or e m = Inr y \<longleftrightarrow> m = Some y"
  by (cases m) auto

section \<open>Slices\<close>

text \<open>\<^verbatim>\<open>&xs[a..b]\<close> for bounds known to be in range, and \<^verbatim>\<open>xs.get(a..b)\<close>.\<close>

definition slice :: "nat \<Rightarrow> nat \<Rightarrow> 'a list \<Rightarrow> 'a list" where
  "slice a b xs = take (b - a) (drop a xs)"

definition get_range :: "nat \<Rightarrow> nat \<Rightarrow> 'a list \<Rightarrow> 'a list option" where
  "get_range a b xs = (if a \<le> b \<and> b \<le> length xs then Some (slice a b xs) else None)"

lemma length_slice [simp]: "b \<le> length xs \<Longrightarrow> length (slice a b xs) = b - a"
  by (simp add: slice_def)

lemma slice_append_left [simp]:
  "b \<le> length xs \<Longrightarrow> slice a b (xs @ ys) = slice a b xs"
  by (simp add: slice_def)

lemma slice_append_right:
  "length xs \<le> a \<Longrightarrow> slice a b (xs @ ys) = slice (a - length xs) (b - length xs) ys"
  by (simp add: slice_def)

lemma slice_zero_append [simp]: "slice 0 (length xs) (xs @ ys) = xs"
  by (simp add: slice_def)

section \<open>Words read as signed integers\<close>

lemma sint_inject [simp]: "sint (v :: 'a::len word) = sint w \<longleftrightarrow> v = w"
  by (auto dest: signed_word_eqI)

lemma unat_lt2p: "unat (w :: 'a::len word) < 2 ^ LENGTH('a)"
  by (rule unsigned_less)

section \<open>Big-endian integers\<close>

primrec to_be :: "nat \<Rightarrow> 'a::len word \<Rightarrow> bytes" where
  "to_be 0 w = []"
| "to_be (Suc n) w = ucast (drop_bit (8 * n) w) # to_be n w"

primrec from_be :: "bytes \<Rightarrow> 'a::len word" where
  "from_be [] = 0"
| "from_be (b # bs) = push_bit (8 * length bs) (ucast b) OR from_be bs"

lemma length_to_be [simp]: "length (to_be n w) = n"
  by (induction n) simp_all

lemma bit_from_be_bound: "bit (from_be bs :: 'a::len word) n \<Longrightarrow> n < 8 * length bs"
proof (induction bs)
  case Nil
  then show ?case by simp
next
  case (Cons b bs)
  show ?case
  proof (rule ccontr)
    assume "\<not> n < 8 * length (b # bs)"
    then have "8 \<le> n - 8 * length bs" and "\<not> n < 8 * length bs" by simp_all
    with Cons show False
      by (auto simp: bit_simps dest: bit_imp_le_length)
  qed
qed

lemma from_be_to_be: "from_be (to_be n w) = take_bit (8 * n) (w :: 'a::len word)"
proof (induction n)
  case 0
  then show ?case by simp
next
  case (Suc n)
  show ?case
    by (rule bit_word_eqI) (auto simp: Suc bit_simps)
qed

lemma to_be_take_bit: "8 * n \<le> m \<Longrightarrow> to_be n (take_bit m w) = to_be n (w :: 'a::len word)"
proof (induction n)
  case 0
  then show ?case by simp
next
  case (Suc n)
  have "ucast (drop_bit (8 * n) (take_bit m w)) = (ucast (drop_bit (8 * n) w) :: 8 word)"
    using Suc.prems by (intro bit_word_eqI) (auto simp: bit_simps)
  with Suc show ?case by simp
qed

lemma take_bit_from_be_Cons:
  "take_bit (8 * length bs) (from_be (b # bs) :: 'a::len word) = from_be bs"
  by (rule bit_word_eqI) (auto simp: bit_simps dest: bit_from_be_bound)

lemma to_be_from_be:
  "8 * length bs \<le> LENGTH('a) \<Longrightarrow> to_be (length bs) (from_be bs :: 'a::len word) = bs"
proof (induction bs)
  case Nil
  then show ?case by simp
next
  case (Cons b bs)
  have hi: "ucast (drop_bit (8 * length bs) (from_be (b # bs) :: 'a word)) = b"
    using Cons.prems
    by (intro bit_word_eqI)
       (auto simp: bit_simps dest: bit_from_be_bound bit_imp_le_length)
  have "to_be (length bs) (from_be (b # bs) :: 'a word) = to_be (length bs) (from_be bs :: 'a word)"
    using to_be_take_bit [of "length bs" "8 * length bs" "from_be (b # bs) :: 'a word"]
    by (simp only: take_bit_from_be_Cons order_refl)
  with hi Cons show ?case by simp
qed

abbreviation u16_to_be :: "u16 \<Rightarrow> bytes" where "u16_to_be \<equiv> to_be 2"
abbreviation u32_to_be :: "u32 \<Rightarrow> bytes" where "u32_to_be \<equiv> to_be 4"
abbreviation u64_to_be :: "u64 \<Rightarrow> bytes" where "u64_to_be \<equiv> to_be 8"

lemma from_be_to_be_full [simp]:
  "from_be (u16_to_be w) = w" "from_be (u32_to_be v) = v" "from_be (u64_to_be x) = x"
  by (simp_all only: from_be_to_be)
     (simp_all add: take_bit_word_eq_self)

lemma to_be_from_be_full [simp]:
  "length bs = 2 \<Longrightarrow> u16_to_be (from_be bs) = bs"
  "length bs = 4 \<Longrightarrow> u32_to_be (from_be bs) = bs"
  "length bs = 8 \<Longrightarrow> u64_to_be (from_be bs) = bs"
  using to_be_from_be [of bs, where ?'a = 16] to_be_from_be [of bs, where ?'a = 32]
    to_be_from_be [of bs, where ?'a = 64]
  by simp_all

section \<open>Write cursors\<close>

text \<open>
  The serialisers write into \<^verbatim>\<open>std::io::Cursor<&mut [u8]>\<close>: a buffer of fixed size and a
  position that never exceeds its size. \<open>write_all\<close> fails with \<open>WriteZero\<close> when the data does not fit. What a failed write
  leaves in the buffer is not modelled: every caller drops the buffer on an error. \<open>Panicked\<close> is
  not an I/O error but the abort of the process (an \<^verbatim>\<open>assert!\<close>, an \<^verbatim>\<open>unwrap\<close> on an error, an
  arithmetic underflow used as a length); it is kept apart from \<open>OtherError\<close> by every caller.
\<close>

datatype io_error = WriteZero | OtherError | InvalidInput | InvalidData | UnexpectedEof | Panicked

record cursor =
  cur_buf :: bytes
  cur_pos :: nat

type_synonym writer = "cursor \<Rightarrow> io_error + cursor"

definition new_cursor :: "bytes \<Rightarrow> cursor" where
  "new_cursor buf = \<lparr>cur_buf = buf, cur_pos = 0\<rparr>"

definition splice :: "nat \<Rightarrow> 'a list \<Rightarrow> 'a list \<Rightarrow> 'a list" where
  "splice p d buf = take p buf @ d @ drop (p + length d) buf"

definition write_all :: "bytes \<Rightarrow> writer" where
  "write_all d w =
     (if d = [] \<or> cur_pos w + length d \<le> length (cur_buf w)
      then Inr \<lparr>cur_buf = splice (cur_pos w) d (cur_buf w), cur_pos = cur_pos w + length d\<rparr>
      else Inl WriteZero)"

definition fail_with :: "io_error \<Rightarrow> writer" where
  "fail_with e w = Inl e"

text \<open>A sequence of writes, each followed by the question mark operator.\<close>

primrec write_seq :: "writer list \<Rightarrow> writer" where
  "write_seq [] w = Inr w"
| "write_seq (f # fs) w = bindR (f w) (write_seq fs)"

text \<open>\<open>writes f d\<close>: the writer appends exactly \<open>d\<close>, and fails only for lack of room.\<close>

definition writes :: "writer \<Rightarrow> bytes \<Rightarrow> bool" where
  "writes f d \<longleftrightarrow> (\<forall>w. f w = write_all d w)"

lemma length_splice [simp]:
  "p + length d \<le> length buf \<Longrightarrow> length (splice p d buf) = length buf"
  by (simp add: splice_def)

lemma splice_Nil [simp]: "splice p [] buf = buf"
  by (simp add: splice_def)

lemma splice_splice:
  "p + length d + length e \<le> length buf \<Longrightarrow>
    splice (p + length d) e (splice p d buf) = splice p (d @ e) buf"
  by (cases d) (auto simp: splice_def min_def ac_simps)

lemma take_splice:
  "p + length d \<le> length buf \<Longrightarrow> take (p + length d) (splice p d buf) = take p buf @ d"
  by (simp add: splice_def)

lemma write_all_Nil [simp]: "write_all [] w = Inr w"
  by (simp add: write_all_def splice_def)

lemma write_all_append:
  "bindR (write_all d w) (write_all e) = write_all (d @ e) w"
proof (cases "d = [] \<or> e = []")
  case True
  then show ?thesis by (auto simp: bindR_def split: sum.split)
next
  case False
  then show ?thesis by (auto simp: write_all_def splice_splice add.assoc)
qed

lemma writesI: "(\<And>w. f w = write_all d w) \<Longrightarrow> writes f d"
  by (simp add: writes_def)

lemma writesD: "writes f d \<Longrightarrow> f w = write_all d w"
  by (simp add: writes_def)

lemma writes_write_all [simp, intro]: "writes (write_all d) d"
  by (simp add: writes_def)

lemma writes_bindR:
  assumes "writes f d" and "writes g e"
  shows "writes (\<lambda>w. bindR (f w) g) (d @ e)"
proof (rule writesI)
  fix w
  have "bindR (f w) g = bindR (write_all d w) (write_all e)"
    using assms by (simp add: writes_def bindR_def split: sum.split)
  then show "bindR (f w) g = write_all (d @ e) w" by (simp add: write_all_append)
qed

lemma writes_seq_Cons:
  "writes f d \<Longrightarrow> writes (write_seq fs) e \<Longrightarrow> writes (write_seq (f # fs)) (d @ e)"
  using writes_bindR [of f d "write_seq fs" e] by (simp add: writes_def)

lemma writes_seq_single: "writes f d \<Longrightarrow> writes (write_seq [f]) d"
proof (rule writesI)
  fix w assume "writes f d"
  then show "write_seq [f] w = write_all d w"
    by (auto simp: writes_def bindR_def split: sum.split)
qed

text \<open>What a successful appending writer leaves behind.\<close>

lemma writes_success:
  assumes "writes f d" and "f w = Inr w'" and "cur_pos w \<le> length (cur_buf w)"
  shows "cur_pos w' = cur_pos w + length d"
    and "length (cur_buf w') = length (cur_buf w)"
    and "cur_pos w' \<le> length (cur_buf w')"
    and "take (cur_pos w') (cur_buf w') = take (cur_pos w) (cur_buf w) @ d"
  using assms by (auto simp: writes_def write_all_def take_splice split: if_splits)

section \<open>Prefix codecs\<close>

text \<open>
  The interface of a serialiser and the parser that reads its output from the front of a byte
  stream and returns the rest. Its clients use that the encoding is injective and prefix-free
  and that a concatenation of encodings reads back as the list.
\<close>

locale prefix_codec =
  fixes enc :: "'a \<Rightarrow> bytes"
    and dec :: "bytes \<Rightarrow> 'e + 'a \<times> bytes"
    and valid :: "'a \<Rightarrow> bool"
  assumes dec_enc: "valid x \<Longrightarrow> dec (enc x @ r) = Inr (x, r)"
begin

lemma enc_prefix_free:
  assumes "valid x" "valid y" "enc x @ r = enc y @ s"
  shows "x = y \<and> r = s"
proof -
  have "dec (enc y @ s) = Inr (x, r)" by (simp only: dec_enc [OF assms(1)] flip: assms(3))
  then show ?thesis by (simp add: dec_enc [OF assms(2)])
qed

lemma enc_inj: "valid x \<Longrightarrow> valid y \<Longrightarrow> enc x = enc y \<Longrightarrow> x = y"
  using enc_prefix_free [of x y "[]" "[]"] by simp

lemma enc_list_inj:
  assumes "\<forall>x \<in> set xs. valid x" "\<forall>y \<in> set ys. valid y" "length xs = length ys"
    and "concat (map enc xs) = concat (map enc ys)"
  shows "xs = ys"
  using assms(3,1,2,4)
proof (induction xs ys rule: list_induct2)
  case Nil
  then show ?case by simp
next
  case (Cons x xs y ys)
  then have "enc x @ concat (map enc xs) = enc y @ concat (map enc ys)" by simp
  with Cons.prems have "x = y \<and> concat (map enc xs) = concat (map enc ys)"
    by (intro enc_prefix_free) simp_all
  with Cons show ?case by simp
qed

end

section \<open>Transition systems with an invariant\<close>

text \<open>
  A component whose operations are a function on its state and an event. An invariant that holds
  of the state and is kept by each operation holds after every sequence of operations.
\<close>

primrec run :: "('s \<Rightarrow> 'e \<Rightarrow> 's) \<Rightarrow> 's \<Rightarrow> 'e list \<Rightarrow> 's" where
  "run step s [] = s"
| "run step s (e # es) = run step (step s e) es"

lemma run_append: "run step s (es @ fs) = run step (run step s es) fs"
  by (induction es arbitrary: s) simp_all

locale step_invariant =
  fixes step :: "'s \<Rightarrow> 'e \<Rightarrow> 's"
    and inv :: "'s \<Rightarrow> bool"
  assumes step_inv: "inv s \<Longrightarrow> inv (step s e)"
begin

lemma run_inv: "inv s \<Longrightarrow> inv (run step s es)"
  by (induction es arbitrary: s) (simp_all add: step_inv)

lemma run_prefix_inv: "inv s \<Longrightarrow> inv (run step s (take n es))"
  by (rule run_inv)

end

end
