(* ===== verification/Time_Types.thy ===== *)
theory Time_Types
  imports Ntp_Prelude
begin

text \<open>
  Time arithmetic of \<^verbatim>\<open>ntp-proto/src/time_types.rs\<close>: \<^verbatim>\<open>NtpTimestamp\<close> is a 64-bit fixed-point
  instant without its era and its arithmetic wraps; \<^verbatim>\<open>NtpDuration\<close> is an \<^verbatim>\<open>i64\<close> in units of
  \<open>2\<^sup>-\<^sup>3\<^sup>2\<close> seconds, kept as a word and read with \<open>sint\<close>, and its arithmetic saturates;
  \<^verbatim>\<open>PollInterval\<close> is an \<^verbatim>\<open>i8\<close> exponent. The conversions to and from \<^verbatim>\<open>f64\<close> and the serde glue
  are not modelled.
\<close>

datatype ntp_timestamp = NtpTimestamp (timestamp: u64)
datatype ntp_duration = NtpDuration (duration: u64)
datatype poll_interval = PollInterval (poll_byte: byte)

record poll_interval_limits =
  pil_min :: poll_interval
  pil_max :: poll_interval

record frequency_tolerance =
  ppm :: u32

section \<open>Bit counting\<close>

fun bit_length :: "nat \<Rightarrow> nat" where
  "bit_length n = (if n = 0 then 0 else Suc (bit_length (n div 2)))"

declare bit_length.simps [simp del]

definition leading_zeros :: "'a::len word \<Rightarrow> nat" where
  "leading_zeros w = LENGTH('a) - bit_length (unat w)"

fun count_trailing :: "nat \<Rightarrow> nat \<Rightarrow> nat" where
  "count_trailing 0 n = 0"
| "count_trailing (Suc k) n = (if odd n then 0 else Suc (count_trailing k (n div 2)))"

definition trailing_zeros :: "'a::len word \<Rightarrow> nat" where
  "trailing_zeros w = count_trailing (LENGTH('a)) (unat w)"

section \<open>Durations\<close>

text \<open>Saturating and signed 64-bit arithmetic.\<close>

definition sat_i64 :: "int \<Rightarrow> u64" where
  "sat_i64 x = word_of_int (max (- (2 ^ 63)) (min (2 ^ 63 - 1) x))"

definition dur_ZERO :: ntp_duration where
  "dur_ZERO = NtpDuration 0"

definition dur_MAX :: ntp_duration where
  "dur_MAX = NtpDuration (word_of_int (2 ^ 63 - 1))"

abbreviation dur_val :: "ntp_duration \<Rightarrow> int" where
  "dur_val d \<equiv> sint (duration d)"

instantiation ntp_duration :: linorder
begin

definition less_eq_ntp_duration :: "ntp_duration \<Rightarrow> ntp_duration \<Rightarrow> bool" where
  "less_eq_ntp_duration a b \<longleftrightarrow> dur_val a \<le> dur_val b"

definition less_ntp_duration :: "ntp_duration \<Rightarrow> ntp_duration \<Rightarrow> bool" where
  "less_ntp_duration a b \<longleftrightarrow> dur_val a < dur_val b"

instance
proof
  fix a b :: ntp_duration
  show "a \<le> b \<Longrightarrow> b \<le> a \<Longrightarrow> a = b"
    by (cases a; cases b) (simp add: less_eq_ntp_duration_def)
qed (auto simp: less_eq_ntp_duration_def less_ntp_duration_def)

end

definition dur_from_bits :: "bytes \<Rightarrow> ntp_duration" where
  "dur_from_bits bits = NtpDuration (from_be bits)"

definition dur_from_bits_short :: "bytes \<Rightarrow> ntp_duration" where
  "dur_from_bits_short bits = NtpDuration (push_bit 16 (ucast (from_be bits :: u32)))"

text \<open>\<open>None\<close> is the panic of the \<^verbatim>\<open>assert!\<close> on a negative duration.\<close>

definition dur_to_bits_short :: "ntp_duration \<Rightarrow> bytes option" where
  "dur_to_bits_short d =
     (if dur_val d < 0 then None
      else Some (u32_to_be
        (if dur_val d > 0x0000FFFFFFFFFFFF then 0xFFFFFFFF
         else ucast (drop_bit 16 (duration d AND 0x0000FFFFFFFF0000)))))"

definition dur_from_bits_time32 :: "bytes \<Rightarrow> ntp_duration" where
  "dur_from_bits_time32 bits = NtpDuration (push_bit 4 (ucast (from_be bits :: u32)))"

definition dur_to_bits_time32 :: "ntp_duration \<Rightarrow> bytes option" where
  "dur_to_bits_time32 d =
     (if dur_val d < 0 then None
      else let v = sint (signed_drop_bit 4 (duration d))
           in Some (u32_to_be (if 0 \<le> v \<and> v \<le> 0xFFFFFFFF then word_of_int v else 0xFFFFFFFF)))"

definition dur_abs :: "ntp_duration \<Rightarrow> ntp_duration" where
  "dur_abs d = NtpDuration (if dur_val d < 0 then - duration d else duration d)"

definition dur_add :: "ntp_duration \<Rightarrow> ntp_duration \<Rightarrow> ntp_duration" where
  "dur_add a b = NtpDuration (sat_i64 (dur_val a + dur_val b))"

definition dur_sub :: "ntp_duration \<Rightarrow> ntp_duration \<Rightarrow> ntp_duration" where
  "dur_sub a b = NtpDuration (sat_i64 (dur_val a - dur_val b))"

definition dur_neg :: "ntp_duration \<Rightarrow> ntp_duration" where
  "dur_neg d = NtpDuration (- duration d)"

definition dur_abs_diff :: "ntp_duration \<Rightarrow> ntp_duration \<Rightarrow> ntp_duration" where
  "dur_abs_diff a b = dur_abs (dur_sub a b)"

text \<open>The scalar has already been widened to \<^verbatim>\<open>i64\<close>; division panics (\<open>None\<close>) as the \<^verbatim>\<open>/\<close> of \<^verbatim>\<open>i64\<close> does.\<close>

definition dur_mul_scalar :: "ntp_duration \<Rightarrow> int \<Rightarrow> ntp_duration" where
  "dur_mul_scalar d k = NtpDuration (sat_i64 (dur_val d * k))"

definition trunc_div :: "int \<Rightarrow> int \<Rightarrow> int" where
  "trunc_div a b = sgn a * sgn b * (\<bar>a\<bar> div \<bar>b\<bar>)"

definition dur_div_scalar :: "ntp_duration \<Rightarrow> int \<Rightarrow> ntp_duration option" where
  "dur_div_scalar d k =
     (if k = 0 \<or> (dur_val d = - (2 ^ 63) \<and> k = - 1) then None
      else Some (NtpDuration (word_of_int (trunc_div (dur_val d) k))))"

definition dur_mul_tolerance :: "ntp_duration \<Rightarrow> frequency_tolerance \<Rightarrow> ntp_duration option" where
  "dur_mul_tolerance d tol = dur_div_scalar (dur_mul_scalar d (uint (ppm tol))) 1000000"

definition dur_as_seconds_nanos :: "ntp_duration \<Rightarrow> u32 \<times> u32" where
  "dur_as_seconds_nanos d =
     (ucast (signed_drop_bit 32 (duration d)),
      ucast (drop_bit 32 ((duration d AND 0xFFFFFFFF) * 1000000000)))"

definition dur_from_exponent :: "byte \<Rightarrow> ntp_duration" where
  "dur_from_exponent input =
     (let e = sint input
      in if e > 30 then dur_MAX
         else if e > 0 \<and> e \<le> 30 then NtpDuration (push_bit (nat e) 0x100000000)
         else if e \<ge> -32 \<and> e \<le> 0 then NtpDuration (drop_bit (nat (- e)) 0x100000000)
         else NtpDuration 0)"

definition dur_log2 :: "ntp_duration \<Rightarrow> byte" where
  "dur_log2 d = (if d = dur_ZERO then 0x80 else 31 - of_nat (leading_zeros (duration d)))"

text \<open>A \<^verbatim>\<open>std::time::Duration\<close> is its whole seconds and its sub-second nanoseconds.\<close>

definition dur_from_system_duration :: "u64 \<Rightarrow> u32 \<Rightarrow> ntp_duration" where
  "dur_from_system_duration seconds nanos =
     (let fraction = push_bit 32 (ucast nanos) div 1000000000
      in dur_from_bits (u64_to_be (push_bit 32 seconds + fraction)))"

section \<open>Timestamps\<close>

definition ts_from_bits :: "bytes \<Rightarrow> ntp_timestamp" where
  "ts_from_bits bits = NtpTimestamp (from_be bits)"

definition ts_to_bits :: "ntp_timestamp \<Rightarrow> bytes" where
  "ts_to_bits t = u64_to_be (timestamp t)"

definition from_seconds_nanos_since_ntp_era :: "u32 \<Rightarrow> u32 \<Rightarrow> ntp_timestamp" where
  "from_seconds_nanos_since_ntp_era seconds nanos =
     (let fraction = push_bit 32 (ucast nanos :: u64) div 1000000000;
          ts = push_bit 32 (ucast seconds) + fraction
      in ts_from_bits (u64_to_be ts))"

definition ts_add :: "ntp_timestamp \<Rightarrow> ntp_duration \<Rightarrow> ntp_timestamp" where
  "ts_add t d = NtpTimestamp (timestamp t + duration d)"

definition ts_diff :: "ntp_timestamp \<Rightarrow> ntp_timestamp \<Rightarrow> ntp_duration" where
  "ts_diff a b = NtpDuration (timestamp a - timestamp b)"

definition ts_sub :: "ntp_timestamp \<Rightarrow> ntp_duration \<Rightarrow> ntp_timestamp" where
  "ts_sub t d = NtpTimestamp (timestamp t - duration d)"

definition is_before :: "ntp_timestamp \<Rightarrow> ntp_timestamp \<Rightarrow> bool" where
  "is_before a b \<longleftrightarrow> ts_diff a b < dur_ZERO"

definition truncated_second_bits :: "ntp_timestamp \<Rightarrow> byte \<Rightarrow> ntp_timestamp" where
  "truncated_second_bits t truncate_bits =
     (if unat truncate_bits \<ge> 32 then NtpTimestamp 0
      else NtpTimestamp (timestamp t AND NOT (push_bit (unat truncate_bits + 32) 1 - 1)))"

section \<open>Poll intervals\<close>

abbreviation as_log :: "poll_interval \<Rightarrow> int" where
  "as_log p \<equiv> sint (poll_byte p)"

instantiation poll_interval :: linorder
begin

definition less_eq_poll_interval :: "poll_interval \<Rightarrow> poll_interval \<Rightarrow> bool" where
  "less_eq_poll_interval a b \<longleftrightarrow> as_log a \<le> as_log b"

definition less_poll_interval :: "poll_interval \<Rightarrow> poll_interval \<Rightarrow> bool" where
  "less_poll_interval a b \<longleftrightarrow> as_log a < as_log b"

instance
proof
  fix a b :: poll_interval
  show "a \<le> b \<Longrightarrow> b \<le> a \<Longrightarrow> a = b"
    by (cases a; cases b) (simp add: less_eq_poll_interval_def)
qed (auto simp: less_eq_poll_interval_def less_poll_interval_def)

end

definition poll_NEVER :: poll_interval where
  "poll_NEVER = PollInterval 127"

definition poll_default :: poll_interval where
  "poll_default = PollInterval 4"

definition default_poll_interval_limits :: poll_interval_limits where
  "default_poll_interval_limits = \<lparr>pil_min = PollInterval 4, pil_max = PollInterval 10\<rparr>"

definition poll_from_byte :: "byte \<Rightarrow> poll_interval" where
  "poll_from_byte b = PollInterval b"

definition poll_as_byte :: "poll_interval \<Rightarrow> byte" where
  "poll_as_byte p = poll_byte p"

text \<open>\<open>self.0 + 1\<close> and \<open>self.0 - 1\<close> wrap in a release build (and abort in a debug build).\<close>

definition poll_inc :: "poll_interval \<Rightarrow> poll_interval_limits \<Rightarrow> poll_interval" where
  "poll_inc p limits = min (PollInterval (poll_byte p + 1)) (pil_max limits)"

definition poll_force_inc :: "poll_interval \<Rightarrow> poll_interval" where
  "poll_force_inc p = PollInterval (word_of_int (min 127 (as_log p + 1)))"

definition poll_dec :: "poll_interval \<Rightarrow> poll_interval_limits \<Rightarrow> poll_interval" where
  "poll_dec p limits = max (PollInterval (poll_byte p - 1)) (pil_min limits)"

definition poll_as_duration :: "poll_interval \<Rightarrow> ntp_duration" where
  "poll_as_duration p =
     (let base_shift = min 127 (as_log p + 32);
          shift = (if base_shift < 0 then 0 else if base_shift > 62 then 62 else base_shift)
      in NtpDuration (push_bit (nat shift) 1))"

text \<open>The result is the number of whole seconds of the \<^verbatim>\<open>Duration\<close>.\<close>

definition poll_as_system_duration :: "poll_interval \<Rightarrow> u64" where
  "poll_as_system_duration p =
     (let shift = (if as_log p < 0 then 0 else if as_log p > 31 then 31 else as_log p)
      in push_bit (nat shift) 1)"

section \<open>Lemmas: saturation and signed values\<close>

lemma sint_u64_bounds: "- (2 ^ 63) \<le> sint (w :: u64)" "sint (w :: u64) < 2 ^ 63"
  using sint_ge [of w] sint_lt [of w] by simp_all

lemma sint_byte_bounds: "- 128 \<le> sint (b :: byte)" "sint (b :: byte) < 128"
  using sint_ge [of b] sint_lt [of b] by simp_all

lemma sint_word_of_int_u64:
  "- (2 ^ 63) \<le> x \<Longrightarrow> x < 2 ^ 63 \<Longrightarrow> sint (word_of_int x :: u64) = x"
  by (simp add: signed_of_int signed_take_bit_int_eq_self)

lemma sint_word_of_int_byte:
  "- 128 \<le> x \<Longrightarrow> x < 128 \<Longrightarrow> sint (word_of_int x :: byte) = x"
  by (simp add: signed_of_int signed_take_bit_int_eq_self)

lemma sint_sat_i64: "sint (sat_i64 x) = max (- (2 ^ 63)) (min (2 ^ 63 - 1) x)"
  unfolding sat_i64_def by (rule sint_word_of_int_u64) auto

lemma dur_val_ZERO [simp]: "dur_val dur_ZERO = 0"
  by (simp add: dur_ZERO_def)

lemma dur_eq_iff: "a = b \<longleftrightarrow> dur_val a = dur_val b"
  by (cases a; cases b) simp

section \<open>Lemmas: timestamps and eras\<close>

lemma ts_roundtrip [simp]: "ts_from_bits (ts_to_bits t) = t"
  by (cases t) (simp add: ts_from_bits_def ts_to_bits_def)

lemma ts_bits_roundtrip [simp]: "length bs = 8 \<Longrightarrow> ts_to_bits (ts_from_bits bs) = bs"
  by (simp add: ts_from_bits_def ts_to_bits_def)

lemma length_ts_to_bits [simp]: "length (ts_to_bits t) = 8"
  by (simp add: ts_to_bits_def)

lemma ts_add_diff: "ts_add b (ts_diff a b) = a"
  by (cases a) (simp add: ts_add_def ts_diff_def)

lemma ts_diff_add: "ts_diff (ts_add t d) t = d"
  by (simp add: ts_add_def ts_diff_def)

lemma sint_uminus_u64: "sint w \<noteq> - (2 ^ 63) \<Longrightarrow> sint (- w :: u64) = - sint w"
  using sint_u64_bounds [of w]
  by (simp add: sint_word_minus signed_take_bit_int_eq_self)

lemma is_before_add:
  assumes "0 < dur_val d"
  shows "is_before t (ts_add t d)" and "\<not> is_before (ts_add t d) t"
  using assms sint_uminus_u64 [of "duration d"]
  by (simp_all add: is_before_def ts_diff_def ts_add_def less_ntp_duration_def)

lemma is_before_cases:
  "a \<noteq> b \<Longrightarrow> dur_val (ts_diff a b) \<noteq> - (2 ^ 63) \<Longrightarrow> is_before a b \<longleftrightarrow> \<not> is_before b a"
  using sint_uminus_u64 [of "timestamp a - timestamp b"] signed_eq_0_iff [of "timestamp a - timestamp b", where ?'a = int]
  by (auto simp: is_before_def ts_diff_def less_ntp_duration_def intro: ntp_timestamp.expand)


lemma sint_eq_uint_nonneg: "0 \<le> sint (w :: u64) \<Longrightarrow> sint w = uint w"
  using sint_u64_bounds [of w] by (simp add: uint_sint take_bit_int_eq_self)


lemma sint_eq_uint_small: "uint (w :: u64) < 2 ^ 63 \<Longrightarrow> sint w = uint w"
proof -
  assume "uint w < 2 ^ 63"
  moreover have "- (2 ^ 63) \<le> uint w" using uint_ge_0 [of w] by (rule order_trans [rotated]) simp
  ultimately have "signed_take_bit 63 (uint w) = uint w" by (intro signed_take_bit_int_eq_self)
  then show ?thesis by (simp add: sint_uint)
qed

lemma uint_push_drop: "uint (push_bit n (drop_bit n (w :: u64))) = uint w div 2 ^ n * 2 ^ n"
proof -
  have "0 \<le> uint w mod 2 ^ n" by simp
  then have "uint w div 2 ^ n * 2 ^ n \<le> uint w"
    using div_mult_mod_eq [of "uint w" "2 ^ n"] by linarith
  moreover have "uint w < 2 ^ 64" using uint_lt2p [of w] by simp
  moreover have "0 \<le> uint w div 2 ^ n * 2 ^ n" by (simp add: pos_imp_zdiv_nonneg_iff)
  ultimately show ?thesis
    by (simp add: unsigned_push_bit_eq unsigned_drop_bit_eq push_bit_eq_mult [where ?'a = int] drop_bit_eq_div [where ?'a = int] take_bit_int_eq_self)
qed

lemma bit_bounded:
  assumes "uint (w :: 'a::len word) < 2 ^ n" "n \<le> k"
  shows "\<not> bit w k"
proof -
  have "take_bit n (uint w) = uint w" using assms by (simp add: take_bit_int_eq_self)
  then have "\<not> bit (uint w) k" using assms(2) by (metis bit_take_bit_iff linorder_not_le)
  then show ?thesis by (simp add: bit_uint_iff bit_imp_le_length) (metis bit_imp_le_length)
qed

lemma short_word:
  assumes "uint (w :: u64) < 2 ^ 48"
  shows "push_bit 16 (ucast (ucast (drop_bit 16 (w AND 0x0000FFFFFFFF0000)) :: u32)) = push_bit 16 (drop_bit 16 w)"
proof -
  have m: "(0x0000FFFFFFFF0000 :: u64) = push_bit 16 (mask 32)"
    by (simp add: mask_eq_exp_minus_1)
  have lt: "n < 48" if "bit w n" for n
    using bit_bounded [OF assms, of n] that by (meson leI)
  show ?thesis unfolding m
    by (rule bit_word_eqI) (auto simp: bit_simps dest: lt)
qed

lemma time32_word:
  assumes "0 \<le> sint (w :: u64)" "sint w div 2 ^ 4 < 2 ^ 32"
  shows "push_bit 4 (ucast (word_of_int (sint w div 2 ^ 4) :: u32)) = push_bit 4 (drop_bit 4 w)"
proof -
  have "ucast (word_of_int (sint w div 2 ^ 4) :: u32) = (word_of_int (sint w div 2 ^ 4) :: u64)"
    using assms by (intro word_uint_eqI) (simp add: unsigned_ucast_eq unsigned_of_int take_bit_int_eq_self)
  also have "\<dots> = drop_bit 4 w"
    using assms by (intro word_uint_eqI) (simp add: sint_eq_uint_nonneg unsigned_of_int unsigned_drop_bit_eq drop_bit_eq_div [where ?'a = int] take_bit_int_eq_self pos_imp_zdiv_nonneg_iff)
  finally show ?thesis by simp
qed

lemma bit_length_pow: "bit_length (2 ^ n) = Suc n"
  by (induction n) (simp_all add: bit_length.simps)


lemma unat_pow2_u64: "k < 64 \<Longrightarrow> unat (2 ^ k :: u64) = 2 ^ k"
proof -
  assume "k < 64"
  then have "take_bit 64 (2 ^ k :: nat) = 2 ^ k"
    by (intro take_bit_nat_eq_self power_strict_increasing) simp_all
  then show ?thesis
    using unsigned_of_nat [of "2 ^ k", where ?'b = 64 and ?'a = nat] by simp
qed

lemma dur_from_exponent_pow:
  assumes "-32 \<le> sint e" "sint e \<le> 30"
  shows "dur_from_exponent e = NtpDuration (2 ^ nat (32 + sint e))"
proof (cases "0 < sint e")
  case True
  then have "(2 :: u64) ^ nat (32 + sint e) = 2 ^ 32 * 2 ^ nat (sint e)"
    by (simp add: nat_add_distrib power_add)
  with True assms show ?thesis
    by (simp add: dur_from_exponent_def push_bit_eq_mult)
next
  case False
  then have "nat (32 + sint e) = 32 - nat (- sint e)" by simp
  moreover have "drop_bit (nat (- sint e)) (0x100000000 :: u64) = 2 ^ (32 - nat (- sint e))"
    if "nat (- sint e) \<le> 32"
    using that drop_bit_exp_eq [of "nat (- sint e)" 32, where ?'a = u64] by simp
  ultimately show ?thesis using False assms
    by (simp add: dur_from_exponent_def)
qed


lemma dur_log2_from_exponent:
  assumes "-32 \<le> sint e" "sint e \<le> 30"
  shows "dur_log2 (dur_from_exponent e) = e"
proof -
  define k where "k = nat (32 + sint e)"
  have k: "k < 63" "sint e = int k - 32" using assms by (simp_all add: k_def)
  have u: "unat (2 ^ k :: u64) = 2 ^ k" using k by (intro unat_pow2_u64) simp
  then have z: "(2 :: u64) ^ k \<noteq> 0" by (metis power_not_zero unat_0 zero_neq_numeral)
  have "leading_zeros (2 ^ k :: u64) = 63 - k" by (simp add: leading_zeros_def bit_length_pow u)
  then have "dur_log2 (dur_from_exponent e) = 31 - of_nat (63 - k)"
    using z by (simp add: dur_log2_def dur_from_exponent_pow [OF assms] dur_ZERO_def flip: k_def)
  also have "\<dots> = word_of_int (int k - 32)"
    using k by (simp add: of_nat_diff)
  also have "\<dots> = e" by (simp flip: k(2))
  finally show ?thesis .
qed

section \<open>Lemmas: seconds and nanoseconds\<close>

lemma seconds_part:
  "sint (ucast (signed_drop_bit 32 (w :: u64)) :: u32) = sint w div 2 ^ 32"
proof -
  have s: "sint (signed_drop_bit 32 w) = sint w div 2 ^ 32"
    by (simp add: sint_signed_drop_bit_eq drop_bit_eq_div)
  have b: "- 0x80000000 \<le> sint w div 0x100000000 \<and> sint w div 0x100000000 < 0x80000000"
    using sint_u64_bounds [of w] by (simp, linarith)
  have "ucast (signed_drop_bit 32 w) = (word_of_int (sint (signed_drop_bit 32 w)) :: u32)"
    by (rule bit_word_eqI) (auto simp: bit_simps)
  with s b show ?thesis by (simp add: signed_of_int signed_take_bit_int_eq_self)
qed

lemma nanos_part:
  "unat (ucast (drop_bit 32 ((w AND 0xFFFFFFFF) * 1000000000)) :: u32) =
     (unat (w :: u64) mod 2 ^ 32 * 1000000000) div 2 ^ 32"
proof -
  have "(w AND 0xFFFFFFFF) = take_bit 32 w"
    by (simp add: take_bit_eq_mask mask_eq_exp_minus_1)
  then have a: "unat (w AND 0xFFFFFFFF) = unat w mod 2 ^ 32"
    by (simp add: unsigned_take_bit_eq take_bit_eq_mod [where ?'a = nat])
  let ?x = "unat w mod 2 ^ 32"
  have lt: "?x * 1000000000 < 2 ^ 64" 
  proof -
    have "?x < 2 ^ 32" by simp
    then show ?thesis by simp
  qed
  have m: "unat ((w AND 0xFFFFFFFF) * 1000000000) = ?x * 1000000000"
    using lt by (subst unat_mult_lem [THEN iffD1]) (simp_all add: a)
  have q: "?x * 1000000000 div 2 ^ 32 < 2 ^ 32" by simp
  show ?thesis
    using q by (simp add: unsigned_ucast_eq unsigned_drop_bit_eq m drop_bit_eq_div [where ?'a = nat] take_bit_nat_eq_self)
qed

lemma unat_ucast_u64_u32: "unat (ucast (x :: u32) :: u64) = unat x"
  by (simp add: unsigned_ucast_eq take_bit_nat_eq_self unat_lt2p [of x, THEN order.strict_trans])

lemma unat_era_timestamp:
  assumes "unat nanos < 1000000000"
  shows "unat (timestamp (from_seconds_nanos_since_ntp_era seconds nanos)) =
    unat seconds * 2 ^ 32 + unat nanos * 2 ^ 32 div 1000000000"
proof -
  let ?n = "unat nanos * 2 ^ 32"
  have sb: "unat seconds < 2 ^ 32" using unat_lt2p [of seconds] by simp
  have ns: "unat (push_bit 32 (ucast nanos :: u64)) = ?n"
    using assms by (simp add: unsigned_push_bit_eq push_bit_eq_mult [where ?'a = nat] unat_ucast_u64_u32 take_bit_nat_eq_self)
  have fr: "unat (push_bit 32 (ucast nanos :: u64) div 1000000000) = ?n div 1000000000"
    by (simp only: unat_div ns) simp
  have ss: "unat (push_bit 32 (ucast seconds :: u64)) = unat seconds * 2 ^ 32"
    using sb by (simp add: unsigned_push_bit_eq push_bit_eq_mult [where ?'a = nat] unat_ucast_u64_u32 take_bit_nat_eq_self)
  have fb: "?n div 1000000000 < 2 ^ 32" using assms by simp
  then have "unat seconds * 2 ^ 32 + ?n div 1000000000 < 2 ^ 64" using sb by simp
  then show ?thesis
    unfolding from_seconds_nanos_since_ntp_era_def Let_def ts_from_bits_def ntp_timestamp.sel from_be_to_be_full
    by (subst unat_add_lem [THEN iffD1]) (simp_all only: ss fr, simp)
qed

lemma era_seconds_nanos_roundtrip:
  assumes "unat nanos < 1000000000"
  shows "dur_as_seconds_nanos (ts_diff (from_seconds_nanos_since_ntp_era seconds nanos) (NtpTimestamp 0)) = (seconds', nanos') \<Longrightarrow>
     seconds' = seconds \<and> unat nanos' \<le> unat nanos \<and> unat nanos \<le> unat nanos' + 1"
proof -
  assume h: "dur_as_seconds_nanos (ts_diff (from_seconds_nanos_since_ntp_era seconds nanos) (NtpTimestamp 0)) = (seconds', nanos')"
  let ?w = "timestamp (from_seconds_nanos_since_ntp_era seconds nanos)"
  let ?f = "unat nanos * 2 ^ 32 div 1000000000"
  have f: "?f < 2 ^ 32" using assms by simp
  have s': "seconds' = ucast (signed_drop_bit 32 ?w)" and n': "nanos' = ucast (drop_bit 32 ((?w AND 0xFFFFFFFF) * 1000000000))"
    using h by (auto simp: dur_as_seconds_nanos_def ts_diff_def)
  have "seconds' = ucast (drop_bit 32 ?w)"
    unfolding s' by (rule bit_word_eqI) (auto simp: bit_simps)
  moreover have "unat (ucast (drop_bit 32 ?w) :: u32) = unat seconds"
    using f unat_lt2p [of seconds]
    by (simp add: unsigned_ucast_eq unsigned_drop_bit_eq drop_bit_eq_div [where ?'a = nat] unat_era_timestamp [OF assms] take_bit_nat_eq_self)
  ultimately have "seconds' = seconds" by (simp add: word_unat_eq_iff)
  have "unat nanos' = ?f * 1000000000 div 2 ^ 32"
    unfolding n' nanos_part unat_era_timestamp [OF assms] using f by simp
  then show ?thesis using \<open>seconds' = seconds\<close> by auto
qed

section \<open>Lemmas: wire formats of durations\<close>

lemma dur_short_roundtrip:
  assumes "0 \<le> dur_val d" "dur_val d \<le> 0xFFFFFFFFFFFF"
  obtains bs where "dur_to_bits_short d = Some bs" "length bs = 4"
    "dur_val (dur_from_bits_short bs) = dur_val d div 2 ^ 16 * 2 ^ 16"
proof
  let ?w = "duration d"
  let ?bs = "u32_to_be (ucast (drop_bit 16 (?w AND 0x0000FFFFFFFF0000)))"
  have u: "dur_val d = uint ?w" using assms(1) by (rule sint_eq_uint_nonneg)
  show "dur_to_bits_short d = Some ?bs" using assms by (simp add: dur_to_bits_short_def)
  show "length ?bs = 4" by simp
  have f: "dur_from_bits_short ?bs = NtpDuration (push_bit 16 (drop_bit 16 ?w))"
    using short_word [of ?w] assms by (simp add: dur_from_bits_short_def u)
  have "uint ?w div 2 ^ 16 * 2 ^ 16 \<le> 0xFFFFFFFFFFFF" using assms(2) u by simp
  then have "uint (push_bit 16 (drop_bit 16 ?w)) < 2 ^ 63" by (simp only: uint_push_drop) simp
  then show "dur_val (dur_from_bits_short ?bs) = dur_val d div 2 ^ 16 * 2 ^ 16"
    unfolding f ntp_duration.sel by (simp only: u sint_eq_uint_small uint_push_drop)
qed

lemma dur_time32_roundtrip:
  assumes "0 \<le> dur_val d" "dur_val d < 2 ^ 36"
  obtains bs where "dur_to_bits_time32 d = Some bs" "length bs = 4"
    "dur_val (dur_from_bits_time32 bs) = dur_val d div 2 ^ 4 * 2 ^ 4"
proof
  let ?w = "duration d"
  let ?bs = "u32_to_be (word_of_int (dur_val d div 2 ^ 4))"
  have u: "dur_val d = uint ?w" using assms(1) by (rule sint_eq_uint_nonneg)
  have v: "sint (signed_drop_bit 4 ?w) = dur_val d div 2 ^ 4"
    by (simp add: sint_signed_drop_bit_eq drop_bit_eq_div)
  have b: "0 \<le> dur_val d div 2 ^ 4" "dur_val d div 2 ^ 4 < 2 ^ 32"
    using assms by (simp_all add: pos_imp_zdiv_nonneg_iff)
  show "dur_to_bits_time32 d = Some ?bs"
    using assms b by (simp add: dur_to_bits_time32_def v)
  show "length ?bs = 4" by simp
  have f: "dur_from_bits_time32 ?bs = NtpDuration (push_bit 4 (drop_bit 4 ?w))"
    using time32_word [of ?w] assms b by (simp add: dur_from_bits_time32_def)
  have "uint ?w div 2 ^ 4 * 2 ^ 4 < 2 ^ 36" using assms(2) u by simp
  then have "uint (push_bit 4 (drop_bit 4 ?w)) < 2 ^ 63" by (simp only: uint_push_drop) simp
  then show "dur_val (dur_from_bits_time32 ?bs) = dur_val d div 2 ^ 4 * 2 ^ 4"
    unfolding f ntp_duration.sel by (simp only: u sint_eq_uint_small uint_push_drop)
qed

section \<open>Properties\<close>

text \<open>C27: timestamps are a torsor over durations modulo the 64-bit era: adding the difference of
  two timestamps to the second gives the first, adding and subtracting a duration cancel, and an
  instant lies before the one a positive duration later and not after it, also when the sum wraps
  past the end of the era.\<close>

theorem timestamp_offsets_across_eras:
  "ts_add b (ts_diff a b) = a \<and> ts_diff (ts_add t d) t = d \<and> ts_sub (ts_add t d) d = t \<and>
   (0 < dur_val d \<longrightarrow> is_before t (ts_add t d) \<and> \<not> is_before (ts_add t d) t)"
proof -
  have "ts_sub (ts_add t d) d = t" by (cases t) (simp add: ts_sub_def ts_add_def)
  then show ?thesis using is_before_add [of d t] by (simp add: ts_add_diff ts_diff_add)
qed

theorem timestamp_offsets_across_eras_witness:
  "is_before (NtpTimestamp 0xFFFFFFFFFFFFFFF0) (ts_add (NtpTimestamp 0xFFFFFFFFFFFFFFF0) (NtpDuration 0x20)) \<and>
   ts_add (NtpTimestamp 0xFFFFFFFFFFFFFFF0) (NtpDuration 0x20) = NtpTimestamp 0x10"
  using timestamp_offsets_across_eras [of "NtpTimestamp 0" "NtpTimestamp 0" "NtpTimestamp 0xFFFFFFFFFFFFFFF0" "NtpDuration 0x20"]
  by (simp add: ts_add_def)



text \<open>The two 32-bit wire formats of a non-negative duration (16.16 seconds of NTPv4, 4.28
  seconds of NTPv5) read back as the duration rounded down to the resolution of the format when it
  is in range, and serialising a negative duration aborts.\<close>

lemma duration_wire_roundtrip:
  "(0 \<le> dur_val d \<and> dur_val d \<le> 0xFFFFFFFFFFFF \<longrightarrow>
      (\<exists>bs. dur_to_bits_short d = Some bs \<and> length bs = 4 \<and>
            dur_val (dur_from_bits_short bs) = dur_val d div 2 ^ 16 * 2 ^ 16)) \<and>
   (0 \<le> dur_val d \<and> dur_val d < 2 ^ 36 \<longrightarrow>
      (\<exists>bs. dur_to_bits_time32 d = Some bs \<and> length bs = 4 \<and>
            dur_val (dur_from_bits_time32 bs) = dur_val d div 2 ^ 4 * 2 ^ 4)) \<and>
   (dur_val d < 0 \<longrightarrow> dur_to_bits_short d = None \<and> dur_to_bits_time32 d = None)"
proof (intro conjI impI)
  assume "0 \<le> dur_val d \<and> dur_val d \<le> 0xFFFFFFFFFFFF"
  then show "\<exists>bs. dur_to_bits_short d = Some bs \<and> length bs = 4 \<and>
      dur_val (dur_from_bits_short bs) = dur_val d div 2 ^ 16 * 2 ^ 16"
    by (metis dur_short_roundtrip)
next
  assume "0 \<le> dur_val d \<and> dur_val d < 2 ^ 36"
  then show "\<exists>bs. dur_to_bits_time32 d = Some bs \<and> length bs = 4 \<and>
      dur_val (dur_from_bits_time32 bs) = dur_val d div 2 ^ 4 * 2 ^ 4"
    by (metis dur_time32_roundtrip)
qed (simp_all add: dur_to_bits_short_def dur_to_bits_time32_def)

lemma duration_wire_roundtrip_witness:
  "\<exists>bs. dur_to_bits_short (NtpDuration 0x1234567) = Some bs \<and> length bs = 4 \<and>
        dur_val (dur_from_bits_short bs) = 0x1230000"
  using duration_wire_roundtrip [of "NtpDuration 0x1234567"] by simp

text \<open>\<^verbatim>\<open>log2\<close> inverts \<^verbatim>\<open>from_exponent\<close> on every exponent a duration can represent, from
  \<open>-32\<close> to \<open>30\<close>.\<close>

lemma log2_inverts_from_exponent:
  "-32 \<le> sint e \<Longrightarrow> sint e \<le> 30 \<Longrightarrow> dur_log2 (dur_from_exponent e) = e"
  by (rule dur_log2_from_exponent)

lemma log2_inverts_from_exponent_witness: "dur_log2 (dur_from_exponent (- 18)) = - 18"
  by (rule log2_inverts_from_exponent) simp_all

text \<open>\<^verbatim>\<open>as_seconds_nanos\<close> splits a duration at the second towards minus infinity, with a
  sub-second part below one second of nanoseconds; a timestamp built from seconds and nanoseconds
  since the era start gives the same seconds back and the nanoseconds up to a rounding loss of one.\<close>

lemma seconds_nanos_split:
  "(case dur_as_seconds_nanos d of (s, n) \<Rightarrow>
      sint s = dur_val d div 2 ^ 32 \<and> unat n < 1000000000) \<and>
   (unat nanos < 1000000000 \<longrightarrow>
     (case dur_as_seconds_nanos (ts_diff (from_seconds_nanos_since_ntp_era seconds nanos) (NtpTimestamp 0)) of
        (s, n) \<Rightarrow> s = seconds \<and> unat n \<le> unat nanos \<and> unat nanos \<le> unat n + 1))"
proof -
  have "unat (duration d) mod 2 ^ 32 * 1000000000 div 2 ^ 32 < 1000000000"
  proof -
    have "unat (duration d) mod 2 ^ 32 < 2 ^ 32" by simp
    then show ?thesis by simp
  qed
  then show ?thesis
    using seconds_part [of "duration d"] nanos_part [of "duration d"] era_seconds_nanos_roundtrip [of nanos seconds]
    by (auto simp: dur_as_seconds_nanos_def simp del: One_nat_def split: prod.split)
qed

lemma seconds_nanos_split_witness:
  "unat (999999999 :: u32) < 1000000000 \<and>
   fst (dur_as_seconds_nanos (ts_diff (from_seconds_nanos_since_ntp_era 7 999999999) (NtpTimestamp 0))) = 7"
  using seconds_nanos_split [of dur_ZERO 999999999 7] by (auto split: prod.splits)

end
