(* ===== verification/Identifiers.thy ===== *)
theory Identifiers
  imports Ntp_Prelude
begin

text \<open>
  Addresses and reference identifiers: \<^verbatim>\<open>ReferenceId\<close> of \<^verbatim>\<open>ntp-proto/src/identifiers.rs\<close> and
  \<^verbatim>\<open>IpSubnet\<close> of \<^verbatim>\<open>ntp-proto/src/server.rs\<close>. An address is its big-endian integer, so
  \<^verbatim>\<open>u32::from_be_bytes(addr.octets())\<close> is the word itself and \<^verbatim>\<open>addr.octets()\<close> is its
  big-endian encoding. The MD5 digest is a parameter.
\<close>

datatype ip_addr = IpV4 u32 | IpV6 u128

datatype reference_id = ReferenceId (refid_bits: u32)

definition refid_from_bytes :: "bytes \<Rightarrow> reference_id" where
  "refid_from_bytes bits = ReferenceId (from_be bits)"

definition refid_to_bytes :: "reference_id \<Rightarrow> bytes" where
  "refid_to_bytes r = u32_to_be (refid_bits r)"

definition refid_from_int :: "u32 \<Rightarrow> reference_id" where
  "refid_from_int v = ReferenceId v"

definition KISS_DENY :: reference_id where
  "KISS_DENY = ReferenceId (from_be [0x44, 0x45, 0x4E, 0x59])"

definition KISS_RATE :: reference_id where
  "KISS_RATE = ReferenceId (from_be [0x52, 0x41, 0x54, 0x45])"

definition KISS_RSTR :: reference_id where
  "KISS_RSTR = ReferenceId (from_be [0x52, 0x53, 0x54, 0x52])"

definition KISS_NTSN :: reference_id where
  "KISS_NTSN = ReferenceId (from_be [0x4E, 0x54, 0x53, 0x4E])"

definition REFID_NONE :: reference_id where
  "REFID_NONE = ReferenceId (from_be [0x58, 0x4E, 0x4F, 0x4E])"

definition REFID_SOCK :: reference_id where
  "REFID_SOCK = ReferenceId (from_be [0x53, 0x4F, 0x43, 0x4B])"

definition REFID_PPS :: reference_id where
  "REFID_PPS = ReferenceId (from_be [0x50, 0x50, 0x53, 0])"

definition REFID_CSPTP :: reference_id where
  "REFID_CSPTP = ReferenceId (from_be [0x43, 0x50, 0x54, 0x50])"

definition refid_from_ip :: "(bytes \<Rightarrow> bytes) \<Rightarrow> ip_addr \<Rightarrow> reference_id" where
  "refid_from_ip md5 addr =
     (case addr of
        IpV4 a \<Rightarrow> ReferenceId a
      | IpV6 a \<Rightarrow> ReferenceId (from_be (slice 0 4 (md5 (to_be 16 a)))))"

definition is_deny :: "reference_id \<Rightarrow> bool" where
  "is_deny r \<longleftrightarrow> r = KISS_DENY"

definition is_rate :: "reference_id \<Rightarrow> bool" where
  "is_rate r \<longleftrightarrow> r = KISS_RATE"

definition is_rstr :: "reference_id \<Rightarrow> bool" where
  "is_rstr r \<longleftrightarrow> r = KISS_RSTR"

definition is_ntsn :: "reference_id \<Rightarrow> bool" where
  "is_ntsn r \<longleftrightarrow> r = KISS_NTSN"

lemma length_refid_to_bytes [simp]: "length (refid_to_bytes r) = 4"
  by (simp add: refid_to_bytes_def)

lemma refid_roundtrip [simp]: "refid_from_bytes (refid_to_bytes r) = r"
  by (simp add: refid_from_bytes_def refid_to_bytes_def)

lemma refid_bytes_roundtrip [simp]:
  "length bits = 4 \<Longrightarrow> refid_to_bytes (refid_from_bytes bits) = bits"
  by (simp add: refid_from_bytes_def refid_to_bytes_def)

text \<open>The kiss codes are told apart by their value.\<close>

lemmas kiss_code_defs = KISS_DENY_def KISS_RATE_def KISS_RSTR_def KISS_NTSN_def

lemma kiss_codes_distinct [simp]: "distinct [KISS_DENY, KISS_RATE, KISS_RSTR, KISS_NTSN]"
  by (simp add: kiss_code_defs)

section \<open>Subnets\<close>

record ip_subnet =
  subnet_addr :: ip_addr
  subnet_mask :: byte

datatype subnet_parse_error = SubnetSyntax | SubnetIp | SubnetMask

text \<open>\<^verbatim>\<open>str::split_once\<close> and \<^verbatim>\<open>u8::from_str\<close> of the standard library.\<close>

fun split_once :: "char \<Rightarrow> string \<Rightarrow> (string \<times> string) option" where
  "split_once c [] = None"
| "split_once c (x # xs) =
     (if x = c then Some ([], xs)
      else map_option (\<lambda>(a, b). (x # a, b)) (split_once c xs))"

fun parse_digits :: "nat \<Rightarrow> string \<Rightarrow> nat option" where
  "parse_digits acc [] = (if acc \<le> 255 then Some acc else None)"
| "parse_digits acc (x # xs) =
     (if of_char x \<in> {48 ..< 58 :: nat} then parse_digits (acc * 10 + (of_char x - 48)) xs else None)"

definition parse_u8 :: "string \<Rightarrow> byte option" where
  "parse_u8 s =
     (let ds = (case s of x # xs \<Rightarrow> if x = CHR ''+'' then xs else s | [] \<Rightarrow> s)
      in if ds = [] then None else map_option of_nat (parse_digits 0 ds))"

definition subnet_from_str ::
  "(string \<Rightarrow> ip_addr option) \<Rightarrow> string \<Rightarrow> subnet_parse_error + ip_subnet" where
  "subnet_from_str parse_ip s =
     bindR (ok_or SubnetSyntax (split_once (CHR ''/'') s)) (\<lambda>(a, m).
     bindR (ok_or SubnetIp (parse_ip a)) (\<lambda>ip.
     bindR (ok_or SubnetMask (parse_u8 m)) (\<lambda>msk.
     let max_mask = (case ip of IpV4 _ \<Rightarrow> 32 | IpV6 _ \<Rightarrow> 128)
     in if msk > max_mask then Inl SubnetMask
        else Inr \<lparr>subnet_addr = ip, subnet_mask = msk\<rparr>)))"

definition subnet_ok :: "ip_subnet \<Rightarrow> bool" where
  "subnet_ok n \<longleftrightarrow> unat (subnet_mask n) \<le> (case subnet_addr n of IpV4 _ \<Rightarrow> 32 | IpV6 _ \<Rightarrow> 128)"

lemma subnet_from_str_ok: "subnet_from_str parse_ip s = Inr n \<Longrightarrow> subnet_ok n"
  by (auto simp: subnet_from_str_def subnet_ok_def result_simps Let_def word_le_nat_alt not_less
      split: if_splits ip_addr.splits)

end
