(* ===== verification/Bloom_Filter.thy ===== *)
theory Bloom_Filter
  imports Ntp_Prelude
begin

text \<open>
  Loop detection of NTPv5: \<^verbatim>\<open>ntp-proto/src/packet/v5/server_reference_id.rs\<close> (server identifiers, the
  512-byte Bloom filter, and the client's piecewise copy of a remote filter) and the request and
  response values of \<^verbatim>\<open>ntp-proto/src/packet/v5/extension_fields.rs\<close>. A \<^verbatim>\<open>U12\<close> is a \<open>u16\<close> whose
  value is at most 4095. The random number generator is the sequence of its draws.
\<close>

section \<open>Server identifiers\<close>

type_synonym u12 = u16

definition u12_MAX :: u12 where
  "u12_MAX = 4095"

definition u12_try_from :: "u16 \<Rightarrow> u12 option" where
  "u12_try_from v = (if v > u12_MAX then None else Some v)"

definition byte_and_mask :: "u12 \<Rightarrow> nat \<times> byte" where
  "byte_and_mask i = (unat i div 8, push_bit (unat (i mod 8)) 1)"

type_synonym server_id = "u12 list"

text \<open>\<^verbatim>\<open>ServerId::new\<close> draws until ten different values come out; \<open>None\<close> is a generator that ends first.\<close>

fun server_id_new :: "u12 list list \<Rightarrow> (server_id \<times> u12 list list) option" where
  "server_id_new [] = None"
| "server_id_new (draw # rng) =
     (let inner = sort draw
      in if list_all (\<lambda>(a, b). a \<noteq> b) (zip inner (drop 1 inner)) then Some (inner, rng)
         else server_id_new rng)"

section \<open>The filter\<close>

type_synonym bloom_filter = bytes

definition BLOOM_BYTES :: nat where
  "BLOOM_BYTES = 512"

definition bloom_new :: bloom_filter where
  "bloom_new = replicate BLOOM_BYTES 0"

definition bloom_set_bit :: "bloom_filter \<Rightarrow> u12 \<Rightarrow> bloom_filter" where
  "bloom_set_bit f i = (let (idx, m) = byte_and_mask i in f[idx := f ! idx OR m])"

definition bloom_is_set :: "bloom_filter \<Rightarrow> u12 \<Rightarrow> bool" where
  "bloom_is_set f i = (let (idx, m) = byte_and_mask i in f ! idx AND m \<noteq> 0)"

definition contains_id :: "bloom_filter \<Rightarrow> server_id \<Rightarrow> bool" where
  "contains_id f other = list_all (bloom_is_set f) other"

definition add_id :: "bloom_filter \<Rightarrow> server_id \<Rightarrow> bloom_filter" where
  "add_id f sid = fold (\<lambda>i f. bloom_set_bit f i) sid f"

definition bloom_add :: "bloom_filter \<Rightarrow> bloom_filter \<Rightarrow> bloom_filter" where
  "bloom_add ours theirs = map (\<lambda>(a, b). a OR b) (zip ours theirs)"

definition bloom_union :: "bloom_filter list \<Rightarrow> bloom_filter" where
  "bloom_union others = fold (\<lambda>other u. bloom_add u other) others bloom_new"

definition bloom_count_ones :: "bloom_filter \<Rightarrow> u16" where
  "bloom_count_ones f = sum_list (map (\<lambda>b. of_nat (length (filter (bit b) [0..<8]))) f)"

section \<open>Requests and responses for parts of the filter\<close>

record reference_id_request =
  rid_payload_len :: u16
  rid_offset :: u16

datatype reference_id_response = ReferenceIdResponse (response_bytes: bytes)

definition rid_request_new :: "u16 \<Rightarrow> u16 \<Rightarrow> reference_id_request option" where
  "rid_request_new plen off =
     (if plen mod 4 \<noteq> 0 then None
      else if plen + off > 512 then None
      else Some \<lparr>rid_payload_len = plen, rid_offset = off\<rparr>)"

definition rid_to_response :: "reference_id_request \<Rightarrow> bloom_filter \<Rightarrow> reference_id_response option" where
  "rid_to_response r f =
     (let off = unat (rid_offset r); plen = unat (rid_payload_len r)
      in Option.bind (get_range off (length f) f) (\<lambda>rest.
         Option.bind (get_range 0 plen rest) (\<lambda>bs. Some (ReferenceIdResponse bs))))"

definition rid_response_new :: "bytes \<Rightarrow> reference_id_response option" where
  "rid_response_new bs =
     (if length bs mod 4 \<noteq> 0 then None
      else if length bs > 512 then None
      else Some (ReferenceIdResponse bs))"

section \<open>The client's copy of a remote filter\<close>

type_synonym client_cookie = bytes

record remote_bloom_filter =
  rbf_filter :: bloom_filter
  chunk_size :: u16
  last_requested :: "(u16 \<times> client_cookie) option"
  next_to_request :: u16
  is_filled :: bool

datatype response_handling_error = NotAwaitingResponse | MismatchedCookie | MismatchedLength

definition rbf_new :: "u16 \<Rightarrow> remote_bloom_filter option" where
  "rbf_new csize =
     (if csize mod 4 \<noteq> 0 then None
      else if csize = 0 \<or> csize > 512 then None
      else if 512 mod csize \<noteq> 0 then None
      else Some \<lparr>rbf_filter = bloom_new, chunk_size = csize, last_requested = None,
                 next_to_request = 0, is_filled = False\<rparr>)"

definition full_filter :: "remote_bloom_filter \<Rightarrow> bloom_filter option" where
  "full_filter r = (if is_filled r then Some (rbf_filter r) else None)"

text \<open>\<open>None\<close> in the first component is the panic of \<^verbatim>\<open>expect\<close>.\<close>

definition next_request ::
  "remote_bloom_filter \<Rightarrow> client_cookie \<Rightarrow> reference_id_request option \<times> remote_bloom_filter" where
  "next_request r cookie =
     (let off = next_to_request r
      in (rid_request_new (chunk_size r) off, r\<lparr>last_requested := Some (off, cookie)\<rparr>))"

definition advance_next_to_request :: "remote_bloom_filter \<Rightarrow> remote_bloom_filter" where
  "advance_next_to_request r =
     (let nxt = (next_to_request r + chunk_size r) mod of_nat BLOOM_BYTES;
          r' = r\<lparr>next_to_request := nxt\<rparr>
      in if nxt = 0 then r'\<lparr>is_filled := True\<rparr> else r')"

text \<open>The copy into the filter panics when the chunk does not lie within it; that is \<open>None\<close>.\<close>

definition handle_response ::
  "remote_bloom_filter \<Rightarrow> client_cookie \<Rightarrow> reference_id_response \<Rightarrow>
   ((response_handling_error + unit) \<times> remote_bloom_filter) option" where
  "handle_response r cookie response =
     (case last_requested r of
        None \<Rightarrow> Some (Inl NotAwaitingResponse, r)
      | Some (off, expected) \<Rightarrow>
          if cookie \<noteq> expected then Some (Inl MismatchedCookie, r)
          else if length (response_bytes response) \<noteq> unat (chunk_size r)
          then Some (Inl MismatchedLength, r)
          else if unat off + unat (chunk_size r) > length (rbf_filter r) then None
          else Some (Inr (),
            (advance_next_to_request
               (r\<lparr>rbf_filter := splice (unat off) (response_bytes response) (rbf_filter r)\<rparr>))
            \<lparr>last_requested := None\<rparr>))"

section \<open>No false negatives\<close>

lemma byte_and_mask_bound: "unat i < 4096 \<Longrightarrow> fst (byte_and_mask i) < 512"
  by (simp add: byte_and_mask_def less_mult_imp_div_less)

lemma bloom_is_set_iff:
  "bloom_is_set f i \<longleftrightarrow> bit (f ! (unat i div 8)) (unat i mod 8)"
proof -
  let ?n = "unat i mod 8"
  have m: "unat (i mod 8) = ?n" by (simp add: unat_mod_distrib)
  have "bit (b AND push_bit ?n 1) k \<longleftrightarrow> bit b k \<and> k = ?n" for b :: byte and k
    by (auto simp: bit_simps simp del: push_bit_of_1)
  then have "b AND push_bit ?n 1 \<noteq> 0 \<longleftrightarrow> bit b ?n" for b :: byte
    by (metis bit_0_eq bot_apply bot_bool_def bit_eqI)
  then show ?thesis by (simp add: bloom_is_set_def byte_and_mask_def Let_def m del: push_bit_of_1)
qed

lemma length_bloom_set_bit [simp]: "length (bloom_set_bit f i) = length f"
  by (simp add: bloom_set_bit_def Let_def split: prod.split)

lemma length_add_id [simp]: "length (add_id f sid) = length f"
  by (induction sid arbitrary: f) (simp_all add: add_id_def)

lemma length_bloom_add [simp]: "length (bloom_add f g) = min (length f) (length g)"
  by (simp add: bloom_add_def)

lemma set_bit_is_set:
  assumes "length f = 512" "unat i < 4096"
  shows "bloom_is_set (bloom_set_bit f i) j \<longleftrightarrow> j = i \<or> bloom_is_set f j"
proof -
  have "unat i div 8 < 512" using assms(2) by simp
  moreover have "j = i" if "unat j div 8 = unat i div 8" "unat j mod 8 = unat i mod 8"
    using that by (metis div_mult_mod_eq word_unat_eq_iff)
  moreover have "unat (i mod 8) = unat i mod 8" by (simp add: unat_mod_distrib)
  ultimately show ?thesis
    using assms(1)
    by (auto simp: bloom_is_set_iff bloom_set_bit_def byte_and_mask_def nth_list_update bit_simps
        simp del: push_bit_of_1)
qed

lemma add_id_is_set:
  assumes "length f = 512" "\<forall>i \<in> set sid. unat i < 4096"
  shows "bloom_is_set (add_id f sid) j \<longleftrightarrow> j \<in> set sid \<or> bloom_is_set f j"
  using assms by (induction sid arbitrary: f) (auto simp: add_id_def set_bit_is_set)

lemma bloom_add_is_set:
  assumes "length f = 512" "length g = 512" "unat j < 4096"
  shows "bloom_is_set (bloom_add f g) j \<longleftrightarrow> bloom_is_set f j \<or> bloom_is_set g j"
proof -
  have "unat j div 8 < 512" using assms(3) by simp
  with assms show ?thesis by (simp add: bloom_is_set_iff bloom_add_def bit_or_iff)
qed

lemma bloom_union_is_set:
  assumes "\<forall>f \<in> set fs. length f = 512" "unat j < 4096"
  shows "length (bloom_union fs) = 512 \<and>
    (bloom_is_set (bloom_union fs) j \<longleftrightarrow> (\<exists>f \<in> set fs. bloom_is_set f j))"
proof -
  have "length (fold (\<lambda>other u. bloom_add u other) fs u) = 512 \<and>
    (bloom_is_set (fold (\<lambda>other u. bloom_add u other) fs u) j \<longleftrightarrow>
      bloom_is_set u j \<or> (\<exists>f \<in> set fs. bloom_is_set f j))" if "length u = 512" for u
    using that assms(1) by (induction fs arbitrary: u) (auto simp: bloom_add_is_set assms(2))
  moreover have "\<not> bloom_is_set bloom_new j"
    using assms(2) by (simp add: bloom_is_set_iff bloom_new_def BLOOM_BYTES_def less_mult_imp_div_less)
  ultimately show ?thesis by (simp add: bloom_union_def bloom_new_def BLOOM_BYTES_def)
qed

text \<open>
  C26: loop detection has no false negatives. A filter a server identifier was added to contains the
  identifier, and so does every union of filters one of which contains it; conversely a filter that
  has just had \<open>sid\<close> added contains another identifier only when each of its ten indices is one of
  \<open>sid\<close> or was already set.
\<close>
theorem bloom_filter_no_false_negatives:
  assumes "length f = 512" "\<forall>i \<in> set sid. unat i < 4096" "\<forall>i \<in> set other. unat i < 4096"
    "\<forall>g \<in> set fs. length g = 512"
  shows "contains_id (add_id f sid) sid \<and>
    (contains_id (add_id f sid) other \<longleftrightarrow> (\<forall>i \<in> set other. i \<in> set sid \<or> bloom_is_set f i)) \<and>
    ((\<exists>g \<in> set fs. contains_id g other) \<longrightarrow> contains_id (bloom_union fs) other)"
  using assms bloom_union_is_set [OF assms(4)]
  by (auto simp: contains_id_def list_all_iff add_id_is_set)

theorem bloom_filter_no_false_negatives_witness:
  "contains_id (add_id bloom_new [1, 17, 4095]) [1, 17, 4095] \<and>
   contains_id (bloom_union [bloom_new, add_id bloom_new [1, 17, 4095]]) [1, 17, 4095]"
  using bloom_filter_no_false_negatives
      [of bloom_new "[1, 17, 4095]" "[1, 17, 4095]" "[bloom_new, add_id bloom_new [1, 17, 4095]]"]
  by (simp add: bloom_new_def BLOOM_BYTES_def)

text \<open>The identifiers the generator hands out are usable as indices and pairwise different.\<close>

lemma server_id_new_wf:
  assumes "server_id_new rng = Some (sid, rest)"
    "\<forall>d \<in> set rng. length d = 10 \<and> (\<forall>i \<in> set d. unat i < 4096)"
  shows "length sid = 10 \<and> distinct sid \<and> sorted sid \<and> (\<forall>i \<in> set sid. unat i < 4096)"
proof -
  have sd: "distinct xs" if "sorted xs" "list_all (\<lambda>(a, b). a \<noteq> b) (zip xs (drop 1 xs))" for xs :: "u12 list"
    using that
  proof (induction xs rule: induct_list012)
    case (3 x y zs)
    then have "x < y" "distinct (y # zs)" by auto
    with 3 show ?case by auto
  qed simp_all
  have "distinct xs" if "list_all (\<lambda>(a, b). a \<noteq> b) (zip (sort xs) (drop (Suc 0) (sort xs)))" for xs :: "u12 list"
    using sd [of "sort xs"] that by simp
  then show ?thesis
    using assms by (induction rng) (auto simp: Let_def split: if_splits)
qed

section \<open>Fetching a remote filter\<close>

definition rbf_inv :: "remote_bloom_filter \<Rightarrow> bool" where
  "rbf_inv r \<longleftrightarrow>
     length (rbf_filter r) = 512 \<and> 0 < unat (chunk_size r) \<and> 4 dvd unat (chunk_size r) \<and>
     unat (chunk_size r) dvd 512 \<and> unat (chunk_size r) dvd unat (next_to_request r) \<and>
     unat (next_to_request r) < 512 \<and>
     (\<forall>off c. last_requested r = Some (off, c) \<longrightarrow> off = next_to_request r)"

lemma rbf_inv_chunk:
  assumes "rbf_inv r"
  shows "unat (next_to_request r) + unat (chunk_size r) \<le> 512" "unat (chunk_size r) \<le> 512"
proof -
  obtain k q where kq: "(512 :: nat) = unat (chunk_size r) * k" "unat (next_to_request r) = unat (chunk_size r) * q"
    using assms by (auto simp: rbf_inv_def dvd_def)
  with assms have "q < k" by (metis mult_less_cancel1 rbf_inv_def)
  then have "unat (chunk_size r) * (q + 1) \<le> unat (chunk_size r) * k" by (intro mult_le_mono2) simp
  then show "unat (next_to_request r) + unat (chunk_size r) \<le> 512" using kq by simp
  then show "unat (chunk_size r) \<le> 512" by simp
qed

lemma unat_next_chunk:
  assumes "rbf_inv r"
  shows "unat (next_to_request r + chunk_size r) = unat (next_to_request r) + unat (chunk_size r)"
    "unat ((next_to_request r + chunk_size r) mod of_nat BLOOM_BYTES) =
       (unat (next_to_request r) + unat (chunk_size r)) mod 512"
  using rbf_inv_chunk [OF assms] by (simp_all add: unat_word_ariths BLOOM_BYTES_def unat_mod_distrib)

lemma rbf_new_inv: "rbf_new c = Some r \<Longrightarrow> rbf_inv r"
proof -
  assume r: "rbf_new c = Some r"
  then have c: "c mod 4 = 0" "c \<noteq> 0" "512 mod c = 0" by (auto simp: rbf_new_def split: if_splits)
  from c(1) have "4 dvd unat c" using unat_mod_distrib [of c 4] by (simp add: dvd_eq_mod_eq_0)
  moreover from c(3) have "unat c dvd 512" using unat_mod_distrib [of 512 c] by (simp add: dvd_eq_mod_eq_0)
  moreover have "0 < unat c" using c(2) by (simp add: unat_gt_0)
  ultimately show ?thesis
    using r by (auto simp: rbf_new_def rbf_inv_def bloom_new_def BLOOM_BYTES_def split: if_splits)
qed

lemma next_request_ok:
  assumes "rbf_inv r"
  shows "fst (next_request r cookie) =
      Some \<lparr>rid_payload_len = chunk_size r, rid_offset = next_to_request r\<rparr>"
    "rbf_inv (snd (next_request r cookie))"
proof -
  have "chunk_size r mod 4 = 0"
    using assms unat_mod_distrib [of "chunk_size r" 4]
    by (simp add: rbf_inv_def dvd_eq_mod_eq_0 unat_eq_0 flip: unat_eq_0)
  moreover have "\<not> chunk_size r + next_to_request r > 512"
    using rbf_inv_chunk(1) [OF assms] unat_next_chunk(1) [OF assms]
    by (simp only: word_less_nat_alt add.commute [of "chunk_size r"]) simp
  ultimately show "fst (next_request r cookie) =
      Some \<lparr>rid_payload_len = chunk_size r, rid_offset = next_to_request r\<rparr>"
    by (simp add: next_request_def rid_request_new_def Let_def)
qed (use assms in \<open>simp add: next_request_def rbf_inv_def Let_def\<close>)

lemma handle_response_cases:
  assumes "rbf_inv r"
  obtains (error) e where "handle_response r cookie resp = Some (Inl e, r)"
  | (accept) "last_requested r = Some (next_to_request r, cookie)"
      "length (response_bytes resp) = unat (chunk_size r)"
      "handle_response r cookie resp = Some (Inr (),
         r\<lparr>rbf_filter := splice (unat (next_to_request r)) (response_bytes resp) (rbf_filter r),
           next_to_request := (next_to_request r + chunk_size r) mod of_nat BLOOM_BYTES,
           is_filled := is_filled r \<or> unat (next_to_request r) + unat (chunk_size r) = 512,
           last_requested := None\<rparr>)"
proof -
  have z: "(next_to_request r + chunk_size r) mod of_nat BLOOM_BYTES = 0 \<longleftrightarrow>
      unat (next_to_request r) + unat (chunk_size r) = 512"
    using unat_next_chunk(2) [OF assms] rbf_inv_chunk [OF assms] assms
    by (metis (no_types) add_eq_0_iff_both_eq_0 le_neq_implies_less mod_less mod_self not_gr_zero rbf_inv_def unat_eq_zero)
  show thesis
  proof (cases "last_requested r")
    case None
    then show thesis by (intro error) (simp add: handle_response_def)
  next
    case (Some p)
    then obtain off c where p: "last_requested r = Some (off, c)" by (cases p) auto
    then have off: "off = next_to_request r" using assms by (simp add: rbf_inv_def)
    show thesis
    proof (cases "cookie = c \<and> length (response_bytes resp) = unat (chunk_size r)")
      case True
      with p off rbf_inv_chunk [OF assms] assms z show thesis
        by (intro accept)
          (auto simp: handle_response_def advance_next_to_request_def Let_def rbf_inv_def)
    next
      case False
      with p show thesis by (cases "cookie = c") (auto intro!: error simp: handle_response_def)
    qed
  qed
qed

lemma handle_response_inv:
  assumes "rbf_inv r" "handle_response r cookie resp = Some (res, r')"
  shows "rbf_inv r'"
  using assms(1)
proof (cases rule: handle_response_cases [of r cookie resp, consumes 1, case_names error accept])
  case accept
  let ?n = "unat (next_to_request r)" and ?c = "unat (chunk_size r)"
  have "?c dvd (?n + ?c) mod 512" using assms(1) by (auto simp: rbf_inv_def intro: dvd_mod)
  with accept assms rbf_inv_chunk [OF assms(1)] show ?thesis
    by (auto simp: rbf_inv_def unat_next_chunk)
qed (use assms in auto)

text \<open>The client's operations in any order and with any input; a panic would leave the state as it is.\<close>

datatype rbf_event = SendRequest client_cookie | Receive client_cookie reference_id_response

fun rbf_step :: "remote_bloom_filter \<Rightarrow> rbf_event \<Rightarrow> remote_bloom_filter" where
  "rbf_step r (SendRequest cookie) = snd (next_request r cookie)"
| "rbf_step r (Receive cookie resp) =
     (case handle_response r cookie resp of None \<Rightarrow> r | Some (_, r') \<Rightarrow> r')"

interpretation rbf: step_invariant rbf_step rbf_inv
proof
  fix s e assume "rbf_inv s"
  then show "rbf_inv (rbf_step s e)"
    by (cases e) (auto simp: next_request_ok handle_response_inv split: option.split)
qed

text \<open>
  C25: whatever requests a client makes and whatever responses it receives, in any order, asking for
  the next part of a remote filter never runs into its \<^verbatim>\<open>expect\<close>, the request lies within the
  512 bytes, and storing a response never writes outside the filter.
\<close>
theorem remote_filter_never_panics:
  assumes "rbf_new c = Some r0"
  shows "let r = run rbf_step r0 es in
    (\<exists>q. fst (next_request r cookie) = Some q \<and> unat (rid_offset q) + unat (rid_payload_len q) \<le> 512) \<and>
    (\<exists>res r'. handle_response r cookie resp = Some (res, r') \<and> length (rbf_filter r') = 512)"
proof -
  let ?r = "run rbf_step r0 es"
  have inv: "rbf_inv ?r" using rbf_new_inv [OF assms] by (rule rbf.run_inv)
  have "\<exists>res r'. handle_response ?r cookie resp = Some (res, r')"
    using inv by (cases rule: handle_response_cases [of ?r cookie resp, consumes 1]) auto
  then show ?thesis
    using handle_response_inv [OF inv] next_request_ok(1) [OF inv] rbf_inv_chunk(1) [OF inv]
    by (auto simp: Let_def rbf_inv_def)
qed

theorem remote_filter_never_panics_witness:
  "\<exists>r0. rbf_new 16 = Some r0 \<and>
     (\<exists>q. fst (next_request (run rbf_step r0 [SendRequest [1]]) [2]) = Some q)"
  using remote_filter_never_panics [of 16 _ "[SendRequest [1]]" "[2]" "ReferenceIdResponse []"]
  by (force simp: rbf_new_def Let_def)

text \<open>
  A client fetching the filter \<open>F\<close> of an honest server: what it accepts is the server's answer to its
  outstanding request; what it does not accept may be anything.
\<close>

inductive rbf_session :: "bloom_filter \<Rightarrow> remote_bloom_filter \<Rightarrow> bool" for F where
  start: "rbf_new c = Some r \<Longrightarrow> rbf_session F r"
| request: "rbf_session F r \<Longrightarrow> rbf_session F (snd (next_request r cookie))"
| answer: "rbf_session F r \<Longrightarrow> last_requested r = Some (off, expected) \<Longrightarrow>
    rid_to_response \<lparr>rid_payload_len = chunk_size r, rid_offset = off\<rparr> F = Some resp \<Longrightarrow>
    handle_response r cookie resp = Some (res, r') \<Longrightarrow> rbf_session F r'"
| reject: "rbf_session F r \<Longrightarrow> handle_response r cookie resp = Some (Inl e, r') \<Longrightarrow> rbf_session F r'"

definition rbf_agrees :: "bloom_filter \<Rightarrow> remote_bloom_filter \<Rightarrow> bool" where
  "rbf_agrees F r \<longleftrightarrow>
     (if is_filled r then rbf_filter r = F
      else take (unat (next_to_request r)) (rbf_filter r) = take (unat (next_to_request r)) F)"

lemma rid_to_response_slice:
  assumes "length F = 512" "rbf_inv r"
  shows "rid_to_response \<lparr>rid_payload_len = chunk_size r, rid_offset = next_to_request r\<rparr> F =
    Some (ReferenceIdResponse
      (slice (unat (next_to_request r)) (unat (next_to_request r) + unat (chunk_size r)) F))"
  using rbf_inv_chunk [OF assms(2)] assms(1)
  by (auto simp: rid_to_response_def get_range_def slice_def Let_def)

lemma splice_slice:
  assumes "n + c \<le> length F" "length f = length F" "take n f = take n F"
  shows "take (n + c) (splice n (slice n (n + c) F) f) = take (n + c) F"
  using assms by (simp add: splice_def slice_def take_add)

lemma splice_own_slice: "n + c \<le> length F \<Longrightarrow> splice n (slice n (n + c) F) F = F"
  by (simp add: splice_def slice_def) (metis append_take_drop_id drop_drop add.commute)

lemma answer_agrees:
  assumes "length F = 512" "rbf_inv r" "rbf_agrees F r" "last_requested r = Some (off, expected)"
    "rid_to_response \<lparr>rid_payload_len = chunk_size r, rid_offset = off\<rparr> F = Some resp"
    "handle_response r cookie resp = Some (res, r')"
  shows "rbf_agrees F r'"
  using assms(2)
proof (cases rule: handle_response_cases [of r cookie resp, consumes 1, case_names error accept])
  case error
  with assms show ?thesis by simp
next
  case accept
  let ?n = "unat (next_to_request r)" and ?c = "unat (chunk_size r)"
  have resp: "response_bytes resp = slice ?n (?n + ?c) F"
    using assms(4,5) accept(1) rid_to_response_slice [OF assms(1,2)] by simp
  have nc: "?n + ?c \<le> 512" and l: "length (rbf_filter r) = 512"
    using assms(2) rbf_inv_chunk by (auto simp: rbf_inv_def)
  have f: "take (?n + ?c) (splice ?n (slice ?n (?n + ?c) F) (rbf_filter r)) = take (?n + ?c) F"
    using assms(3) nc l assms(1)
    by (intro splice_slice) (auto simp: rbf_agrees_def split: if_splits)
  show ?thesis
  proof (cases "is_filled r \<or> ?n + ?c = 512")
    case True
    have "splice ?n (slice ?n (?n + ?c) F) (rbf_filter r) = F"
      using True assms(1,3) nc l f
      by (auto simp: rbf_agrees_def splice_own_slice)
    with True accept(3) assms(6) resp show ?thesis by (simp add: rbf_agrees_def)
  next
    case False
    with accept(3) assms(6) resp f nc show ?thesis
      by (auto simp: rbf_agrees_def unat_next_chunk [OF assms(2)])
  qed
qed

lemma rbf_session_agrees:
  assumes "rbf_session F r" "length F = 512"
  shows "rbf_inv r \<and> rbf_agrees F r"
  using assms(1)
proof induction
  case (start c r)
  then show ?case
    using rbf_new_inv [OF start] by (auto simp: rbf_new_def rbf_agrees_def split: if_splits)
next
  case (request r cookie)
  then show ?case
    using next_request_ok(2) [of r cookie] by (auto simp: rbf_agrees_def next_request_def Let_def)
next
  case (answer r off expected resp cookie res r')
  then show ?case
    using handle_response_inv answer_agrees assms(2) by blast
next
  case (reject r cookie resp e r')
  from reject.IH have "rbf_inv r" by simp
  then show ?case
    by (cases rule: handle_response_cases [of r cookie resp, consumes 1]) (use reject in auto)
qed

text \<open>
  C23: once a client that fetches the filter of an honest server says that it has the full filter, what
  it has is that filter, whatever other responses it received and rejected on the way.
\<close>
theorem full_filter_is_remote_filter:
  assumes "rbf_session F r" "length F = 512" "full_filter r = Some g"
  shows "g = F"
  using rbf_session_agrees [OF assms(1,2)] assms(3)
  by (auto simp: full_filter_def rbf_agrees_def split: if_splits)

theorem full_filter_is_remote_filter_witness:
  "\<exists>r g. rbf_session (replicate 512 7) r \<and> full_filter r = Some g \<and> g = replicate 512 7"
proof -
  define r0 where "r0 = the (rbf_new 512)"
  define r1 where "r1 = snd (next_request r0 [1])"
  define resp where "resp = ReferenceIdResponse (replicate 512 7)"
  define r2 where "r2 = snd (the (handle_response r1 [1] resp))"
  have "rbf_session (replicate 512 7) r0" by (rule start [of 512]) (simp add: r0_def rbf_new_def)
  then have "rbf_session (replicate 512 7) r1" unfolding r1_def by (rule request)
  then have s: "rbf_session (replicate 512 7) r2"
    by (rule answer [of _ _ 0 "[1]" resp "[1]" "Inr ()"])
      (simp_all add: r2_def r1_def r0_def resp_def rbf_new_def next_request_def Let_def
        handle_response_def bloom_new_def BLOOM_BYTES_def rid_to_response_def get_range_def slice_def)
  moreover have "full_filter r2 = Some (rbf_filter r2)"
    by (simp add: r2_def r1_def r0_def resp_def rbf_new_def next_request_def Let_def full_filter_def
        handle_response_def bloom_new_def BLOOM_BYTES_def advance_next_to_request_def)
  ultimately show ?thesis using full_filter_is_remote_filter [OF s] by (metis length_replicate)
qed

section \<open>Enough exchanges fill the filter\<close>

definition exchange :: "bloom_filter \<Rightarrow> client_cookie \<Rightarrow> remote_bloom_filter \<Rightarrow> remote_bloom_filter" where
  "exchange F cookie r =
     (case next_request r cookie of
        (Some q, r1) \<Rightarrow>
          (case rid_to_response q F of
             Some resp \<Rightarrow> (case handle_response r1 cookie resp of Some (_, r2) \<Rightarrow> r2 | None \<Rightarrow> r1)
           | None \<Rightarrow> r1)
      | (None, r1) \<Rightarrow> r1)"

lemma exchange_effect:
  assumes "length F = 512" "rbf_inv r" "rbf_agrees F r"
  shows "rbf_inv (exchange F cookie r)" "rbf_agrees F (exchange F cookie r)"
    "chunk_size (exchange F cookie r) = chunk_size r"
    "is_filled (exchange F cookie r) \<longleftrightarrow>
       is_filled r \<or> unat (next_to_request r) + unat (chunk_size r) = 512"
    "unat (next_to_request (exchange F cookie r)) =
       (unat (next_to_request r) + unat (chunk_size r)) mod 512"
proof -
  let ?n = "unat (next_to_request r)" and ?c = "unat (chunk_size r)"
  let ?resp = "ReferenceIdResponse (slice ?n (?n + ?c) F)"
  define r1 where "r1 = r\<lparr>last_requested := Some (next_to_request r, cookie)\<rparr>"
  have r1: "rbf_inv r1" "rbf_agrees F r1" "chunk_size r1 = chunk_size r"
    "next_to_request r1 = next_to_request r" "is_filled r1 = is_filled r"
    using next_request_ok(2) [OF assms(2), of cookie] assms(3)
    by (simp_all add: r1_def rbf_agrees_def next_request_def Let_def)
  have rsp: "rid_to_response \<lparr>rid_payload_len = chunk_size r, rid_offset = next_to_request r\<rparr> F = Some ?resp"
    by (rule rid_to_response_slice [OF assms(1,2)])
  have nr: "next_request r cookie =
      (Some \<lparr>rid_payload_len = chunk_size r, rid_offset = next_to_request r\<rparr>, r1)"
    using next_request_ok(1) [OF assms(2), of cookie] by (simp add: next_request_def r1_def Let_def)
  have len: "length (response_bytes ?resp) = ?c"
    using rbf_inv_chunk [OF assms(2)] assms(1) by simp
  obtain r2 where r2: "handle_response r1 cookie ?resp = Some (Inr (), r2)"
    "r2 = r1\<lparr>rbf_filter := splice ?n (response_bytes ?resp) (rbf_filter r1),
       next_to_request := (next_to_request r1 + chunk_size r1) mod of_nat BLOOM_BYTES,
       is_filled := is_filled r1 \<or> ?n + ?c = 512, last_requested := None\<rparr>"
    using r1(1)
  proof (cases rule: handle_response_cases [of r1 cookie ?resp, consumes 1, case_names error accept])
    case (error e)
    then show ?thesis
      using len rbf_inv_chunk [OF r1(1)] r1(1,3,4)
      by (auto simp: handle_response_def r1_def rbf_inv_def split: if_splits)
  qed (use r1 that in auto)
  then have e: "exchange F cookie r = r2" by (simp add: exchange_def nr rsp)
  show "rbf_inv (exchange F cookie r)" using handle_response_inv [OF r1(1) r2(1)] e by simp
  show "rbf_agrees F (exchange F cookie r)"
    using answer_agrees [OF assms(1) r1(1,2) _ _ r2(1)] rsp r1(3) e by (simp add: r1_def)
  show "chunk_size (exchange F cookie r) = chunk_size r"
    "is_filled (exchange F cookie r) \<longleftrightarrow> is_filled r \<or> ?n + ?c = 512"
    "unat (next_to_request (exchange F cookie r)) = (?n + ?c) mod 512"
    using r2(2) r1 unat_next_chunk [OF assms(2)] unfolding e by auto
qed

lemma exchanges_state:
  assumes "length F = 512" "rbf_new c = Some r0"
  shows "let r = fold (exchange F) cookies r0 in
    rbf_inv r \<and> rbf_agrees F r \<and> chunk_size r = c \<and>
    (is_filled r \<longleftrightarrow> 512 \<le> length cookies * unat c) \<and>
    (\<not> is_filled r \<longrightarrow> unat (next_to_request r) = length cookies * unat c)"
proof (induction cookies rule: rev_induct)
  case Nil
  then show ?case
    using rbf_new_inv [OF assms(2)] assms(2)
    by (auto simp: rbf_new_def rbf_agrees_def Let_def split: if_splits)
next
  case (snoc cookie cookies)
  let ?r = "fold (exchange F) cookies r0" and ?k = "length cookies * unat c"
  have r: "rbf_inv ?r" "rbf_agrees F ?r" "chunk_size ?r = c" "is_filled ?r \<longleftrightarrow> 512 \<le> ?k"
    "\<not> is_filled ?r \<Longrightarrow> unat (next_to_request ?r) = ?k"
    using snoc.IH by (simp_all add: Let_def)
  have le: "unat (next_to_request ?r) + unat c \<le> 512" using rbf_inv_chunk(1) [OF r(1)] r(3) by simp
  show ?case
    using exchange_effect [OF assms(1) r(1,2), of cookie] r(3-5) le
    by (auto simp: Let_def)
qed

text \<open>
  C24: fetching makes progress. With chunks of \<open>c\<close> bytes, a client that makes \<open>n\<close> exchanges with an
  honest server has the full filter, and it is the server's, exactly when \<open>n * c\<close> reaches 512.
\<close>
theorem exchanges_complete_the_filter:
  assumes "rbf_new c = Some r0" "length F = 512"
  shows "full_filter (fold (exchange F) cookies r0) =
    (if 512 \<le> length cookies * unat c then Some F else None)"
  using exchanges_state [OF assms(2,1), of cookies]
  by (auto simp: Let_def full_filter_def rbf_agrees_def)

theorem exchanges_complete_the_filter_witness:
  "full_filter (fold (exchange (replicate 512 7)) [[1], [2]] (the (rbf_new 256))) = Some (replicate 512 7)"
proof -
  have "rbf_new 256 = Some (the (rbf_new 256))" by (simp add: rbf_new_def)
  from exchanges_complete_the_filter [OF this, of "replicate 512 7" "[[1], [2]]"] show ?thesis by simp
qed

end
