(* ===== verification/Packet_Header.thy ===== *)
theory Packet_Header
  imports Time_Types Identifiers Bloom_Filter
begin

text \<open>
  Packet headers: \<^verbatim>\<open>NtpHeaderV3V4\<close> of \<^verbatim>\<open>ntp-proto/src/packet/mod.rs\<close>, \<^verbatim>\<open>NtpHeaderV5\<close> of
  \<^verbatim>\<open>ntp-proto/src/packet/v5/mod.rs\<close>, and the parsing errors of \<^verbatim>\<open>packet/error.rs\<close>. A parse returns the
  error or the value; \<open>Unreachable\<close> is the panic of the \<^verbatim>\<open>unreachable!\<close> branches, which the source
  has no value for. Random values and the clock reading are arguments.
\<close>

section \<open>Errors\<close>

datatype v5_error =
  InvalidDraftIdentification | MalformedTimescale | MalformedMode | InvalidFlags

datatype 't parsing_error =
    InvalidVersion byte
  | IncorrectLength
  | MalformedNtsExtensionFields
  | MalformedNonce
  | MalformedCookiePlaceholder
  | DecryptError 't
  | V5 v5_error
  | Unreachable

fun get_decrypt_error :: "'t parsing_error \<Rightarrow> 'u parsing_error + 't" where
  "get_decrypt_error (InvalidVersion v) = Inl (InvalidVersion v)"
| "get_decrypt_error IncorrectLength = Inl IncorrectLength"
| "get_decrypt_error MalformedNtsExtensionFields = Inl MalformedNtsExtensionFields"
| "get_decrypt_error MalformedNonce = Inl MalformedNonce"
| "get_decrypt_error MalformedCookiePlaceholder = Inl MalformedCookiePlaceholder"
| "get_decrypt_error (DecryptError d) = Inr d"
| "get_decrypt_error (V5 e) = Inl (V5 e)"
| "get_decrypt_error Unreachable = Inl Unreachable"

section \<open>Leap indicator and modes\<close>

datatype leap_indicator = NoWarning | Leap61 | Leap59 | Unknown | Unsynchronized

definition leap_from_bits :: "byte \<Rightarrow> 't parsing_error + leap_indicator" where
  "leap_from_bits bits =
     (if bits = 0 then Inr NoWarning else if bits = 1 then Inr Leap61
      else if bits = 2 then Inr Leap59 else if bits = 3 then Inr Unsynchronized
      else Inl Unreachable)"

fun leap_to_bits :: "leap_indicator \<Rightarrow> byte" where
  "leap_to_bits NoWarning = 0"
| "leap_to_bits Leap61 = 1"
| "leap_to_bits Leap59 = 2"
| "leap_to_bits Unknown = 3"
| "leap_to_bits Unsynchronized = 3"

definition is_synchronized :: "leap_indicator \<Rightarrow> bool" where
  "is_synchronized l \<longleftrightarrow> l \<noteq> Unsynchronized"

datatype association_mode =
  Reserved | SymmetricActive | SymmetricPassive | Client | Server | Broadcast | Control | Private

definition mode_from_bits :: "byte \<Rightarrow> 't parsing_error + association_mode" where
  "mode_from_bits bits =
     (if bits = 0 then Inr Reserved else if bits = 1 then Inr SymmetricActive
      else if bits = 2 then Inr SymmetricPassive else if bits = 3 then Inr Client
      else if bits = 4 then Inr Server else if bits = 5 then Inr Broadcast
      else if bits = 6 then Inr Control else if bits = 7 then Inr Private
      else Inl Unreachable)"

fun mode_to_bits :: "association_mode \<Rightarrow> byte" where
  "mode_to_bits Reserved = 0"
| "mode_to_bits SymmetricActive = 1"
| "mode_to_bits SymmetricPassive = 2"
| "mode_to_bits Client = 3"
| "mode_to_bits Server = 4"
| "mode_to_bits Broadcast = 5"
| "mode_to_bits Control = 6"
| "mode_to_bits Private = 7"

section \<open>Server state the responses report\<close>

text \<open>
  \<^verbatim>\<open>TimeSnapshot::root_dispersion\<close> evaluates a polynomial in \<^verbatim>\<open>f64\<close>; it is the function
  \<open>ts_root_dispersion\<close> of the snapshot.
\<close>

record time_snapshot =
  ts_precision :: ntp_duration
  ts_root_delay :: ntp_duration
  ts_root_dispersion :: "ntp_timestamp \<Rightarrow> ntp_duration"
  ts_leap_indicator :: leap_indicator

record ntp_snapshot =
  snap_stratum :: byte
  snap_reference_id :: reference_id
  snap_bloom_filter :: bloom_filter

record ntp_server_info =
  time_snapshot_of :: time_snapshot
  ntp_snapshot_of :: ntp_snapshot

section \<open>NTPv3 and NTPv4\<close>

record header_v3v4 =
  h4_leap :: leap_indicator
  h4_mode :: association_mode
  h4_stratum :: byte
  h4_poll :: poll_interval
  h4_precision :: byte
  h4_root_delay :: ntp_duration
  h4_root_dispersion :: ntp_duration
  h4_reference_id :: reference_id
  h4_reference_timestamp :: ntp_timestamp
  h4_origin_timestamp :: ntp_timestamp
  h4_receive_timestamp :: ntp_timestamp
  h4_transmit_timestamp :: ntp_timestamp

record request_identifier =
  expected_origin_timestamp :: ntp_timestamp
  rqid_uid :: "bytes option"

definition WIRE_LENGTH :: nat where
  "WIRE_LENGTH = 48"

definition h4_new :: header_v3v4 where
  "h4_new =
     \<lparr>h4_leap = NoWarning, h4_mode = Client, h4_stratum = 0, h4_poll = poll_from_byte 0,
      h4_precision = 0, h4_root_delay = dur_ZERO, h4_root_dispersion = dur_ZERO,
      h4_reference_id = refid_from_int 0, h4_reference_timestamp = NtpTimestamp 0,
      h4_origin_timestamp = NtpTimestamp 0, h4_receive_timestamp = NtpTimestamp 0,
      h4_transmit_timestamp = NtpTimestamp 0\<rparr>"

definition h4_deserialize :: "bytes \<Rightarrow> 't parsing_error + (header_v3v4 \<times> nat)" where
  "h4_deserialize data =
     (if length data < WIRE_LENGTH then Inl IncorrectLength
      else
        bindR (leap_from_bits (drop_bit 6 (data ! 0 AND 0xC0))) (\<lambda>leap.
        bindR (mode_from_bits (data ! 0 AND 0x07)) (\<lambda>mode.
        Inr (\<lparr>h4_leap = leap, h4_mode = mode, h4_stratum = data ! 1,
              h4_poll = poll_from_byte (data ! 2), h4_precision = data ! 3,
              h4_root_delay = dur_from_bits_short (slice 4 8 data),
              h4_root_dispersion = dur_from_bits_short (slice 8 12 data),
              h4_reference_id = refid_from_bytes (slice 12 16 data),
              h4_reference_timestamp = ts_from_bits (slice 16 24 data),
              h4_origin_timestamp = ts_from_bits (slice 24 32 data),
              h4_receive_timestamp = ts_from_bits (slice 32 40 data),
              h4_transmit_timestamp = ts_from_bits (slice 40 48 data)\<rparr>,
             WIRE_LENGTH))))"

text \<open>A duration whose serialisation panics makes the writer panic.\<close>

definition write_or_panic :: "bytes option \<Rightarrow> writer" where
  "write_or_panic b = (case b of None \<Rightarrow> fail_with Panicked | Some d \<Rightarrow> write_all d)"

definition h4_serialize :: "header_v3v4 \<Rightarrow> byte \<Rightarrow> writer" where
  "h4_serialize h version = write_seq
     [write_all [push_bit 6 (leap_to_bits (h4_leap h)) OR push_bit 3 version OR
                 mode_to_bits (h4_mode h)],
      write_all [h4_stratum h, poll_as_byte (h4_poll h), h4_precision h],
      write_or_panic (dur_to_bits_short (h4_root_delay h)),
      write_or_panic (dur_to_bits_short (h4_root_dispersion h)),
      write_all (refid_to_bytes (h4_reference_id h)),
      write_all (ts_to_bits (h4_reference_timestamp h)),
      write_all (ts_to_bits (h4_origin_timestamp h)),
      write_all (ts_to_bits (h4_receive_timestamp h)),
      write_all (ts_to_bits (h4_transmit_timestamp h))]"

definition h4_poll_message :: "ntp_timestamp \<Rightarrow> poll_interval \<Rightarrow> header_v3v4 \<times> request_identifier" where
  "h4_poll_message rnd poll =
     (h4_new\<lparr>h4_poll := poll, h4_mode := Client, h4_transmit_timestamp := rnd\<rparr>,
      \<lparr>expected_origin_timestamp = rnd, rqid_uid = None\<rparr>)"

definition h4_timestamp_response ::
  "ntp_server_info \<Rightarrow> header_v3v4 \<Rightarrow> ntp_timestamp \<Rightarrow> ntp_timestamp \<Rightarrow> header_v3v4" where
  "h4_timestamp_response info input recv now =
     \<lparr>h4_leap = ts_leap_indicator (time_snapshot_of info), h4_mode = Server,
      h4_stratum = snap_stratum (ntp_snapshot_of info), h4_poll = h4_poll input,
      h4_precision = dur_log2 (ts_precision (time_snapshot_of info)),
      h4_root_delay = ts_root_delay (time_snapshot_of info),
      h4_root_dispersion = ts_root_dispersion (time_snapshot_of info) recv,
      h4_reference_id = snap_reference_id (ntp_snapshot_of info),
      h4_reference_timestamp = truncated_second_bits recv 7,
      h4_origin_timestamp = h4_transmit_timestamp input,
      h4_receive_timestamp = recv, h4_transmit_timestamp = now\<rparr>"

definition h4_rate_limit_response :: "header_v3v4 \<Rightarrow> header_v3v4" where
  "h4_rate_limit_response p =
     h4_new\<lparr>h4_mode := Server, h4_stratum := 0, h4_reference_id := KISS_RATE,
            h4_origin_timestamp := h4_transmit_timestamp p\<rparr>"

definition h4_deny_response :: "header_v3v4 \<Rightarrow> header_v3v4" where
  "h4_deny_response p =
     h4_new\<lparr>h4_mode := Server, h4_stratum := 0, h4_reference_id := KISS_DENY,
            h4_origin_timestamp := h4_transmit_timestamp p\<rparr>"

definition h4_nts_nak_response :: "header_v3v4 \<Rightarrow> header_v3v4" where
  "h4_nts_nak_response p =
     h4_new\<lparr>h4_mode := Server, h4_stratum := 0, h4_reference_id := KISS_NTSN,
            h4_origin_timestamp := h4_transmit_timestamp p\<rparr>"

section \<open>NTPv5\<close>

text \<open>The ASCII bytes of \<^verbatim>\<open>draft-ietf-ntp-ntpv5-09\<close>.\<close>

definition DRAFT_VERSION :: bytes where
  "DRAFT_VERSION = map (\<lambda>c. of_nat (of_char c)) ''draft-ietf-ntp-ntpv5-09''"

definition UPGRADE_TIMESTAMP :: ntp_timestamp where
  "UPGRADE_TIMESTAMP = ts_from_bits [0x4E, 0x54, 0x50, 0x35, 0x44, 0x52, 0x46, 0x54]"

datatype ntp_mode = V5Request | V5Response

definition ntp_mode_from_bits :: "byte \<Rightarrow> 't parsing_error + ntp_mode" where
  "ntp_mode_from_bits bits =
     (if bits = 3 then Inr V5Request else if bits = 4 then Inr V5Response
      else Inl (V5 MalformedMode))"

fun ntp_mode_to_bits :: "ntp_mode \<Rightarrow> byte" where
  "ntp_mode_to_bits V5Request = 3"
| "ntp_mode_to_bits V5Response = 4"

datatype ntp_timescale = Utc | Tai | Ut1 | LeapSmearedUtc

definition timescale_from_bits :: "byte \<Rightarrow> 't parsing_error + ntp_timescale" where
  "timescale_from_bits bits =
     (if bits = 0 then Inr Utc else if bits = 1 then Inr Tai else if bits = 2 then Inr Ut1
      else if bits = 3 then Inr LeapSmearedUtc else Inl (V5 MalformedTimescale))"

fun timescale_to_bits :: "ntp_timescale \<Rightarrow> byte" where
  "timescale_to_bits Utc = 0"
| "timescale_to_bits Tai = 1"
| "timescale_to_bits Ut1 = 2"
| "timescale_to_bits LeapSmearedUtc = 3"

record ntp_flags =
  fl_synchronized :: bool
  fl_interleaved_mode :: bool
  fl_authnak :: bool

definition flags_from_bits :: "bytes \<Rightarrow> 't parsing_error + ntp_flags" where
  "flags_from_bits bits =
     (if bits ! 0 \<noteq> 0 \<or> bits ! 1 AND 0xF8 \<noteq> 0 then Inl (V5 InvalidFlags)
      else Inr \<lparr>fl_synchronized = (bits ! 1 AND 1 \<noteq> 0), fl_interleaved_mode = (bits ! 1 AND 2 \<noteq> 0),
                fl_authnak = (bits ! 1 AND 4 \<noteq> 0)\<rparr>)"

definition flags_as_bits :: "ntp_flags \<Rightarrow> bytes" where
  "flags_as_bits f =
     (let flags = 0 :: byte;
          flags = (if fl_synchronized f then flags OR 1 else flags);
          flags = (if fl_interleaved_mode f then flags OR 2 else flags);
          flags = (if fl_authnak f then flags OR 4 else flags)
      in [0, flags])"

record header_v5 =
  h5_leap :: leap_indicator
  h5_mode :: ntp_mode
  h5_stratum :: byte
  h5_poll :: poll_interval
  h5_precision :: byte
  h5_timescale :: ntp_timescale
  h5_era :: byte
  h5_flags :: ntp_flags
  h5_root_delay :: ntp_duration
  h5_root_dispersion :: ntp_duration
  h5_server_cookie :: bytes
  h5_client_cookie :: bytes
  h5_receive_timestamp :: ntp_timestamp
  h5_transmit_timestamp :: ntp_timestamp

definition cookie_from_ntp_timestamp :: "ntp_timestamp \<Rightarrow> client_cookie" where
  "cookie_from_ntp_timestamp ts = ts_to_bits ts"

definition cookie_into_ntp_timestamp :: "client_cookie \<Rightarrow> ntp_timestamp" where
  "cookie_into_ntp_timestamp c = ts_from_bits c"

definition h5_new :: header_v5 where
  "h5_new =
     \<lparr>h5_leap = NoWarning, h5_mode = V5Request, h5_stratum = 0, h5_poll = poll_from_byte 0,
      h5_precision = 0, h5_timescale = Utc, h5_era = 0,
      h5_flags = \<lparr>fl_synchronized = False, fl_interleaved_mode = False, fl_authnak = False\<rparr>,
      h5_root_delay = dur_ZERO, h5_root_dispersion = dur_ZERO,
      h5_server_cookie = replicate 8 0, h5_client_cookie = replicate 8 0,
      h5_receive_timestamp = NtpTimestamp 0, h5_transmit_timestamp = NtpTimestamp 0\<rparr>"

text \<open>The random server cookie of a response is the first argument.\<close>

definition h5_timestamp_response ::
  "bytes \<Rightarrow> ntp_server_info \<Rightarrow> header_v5 \<Rightarrow> ntp_timestamp \<Rightarrow> ntp_timestamp \<Rightarrow> header_v5" where
  "h5_timestamp_response rnd info input recv now =
     \<lparr>h5_leap = ts_leap_indicator (time_snapshot_of info), h5_mode = V5Response,
      h5_stratum = snap_stratum (ntp_snapshot_of info), h5_poll = h5_poll input,
      h5_precision = dur_log2 (ts_precision (time_snapshot_of info)), h5_timescale = Utc, h5_era = 0,
      h5_flags = \<lparr>fl_synchronized = (snap_stratum (ntp_snapshot_of info) < 16),
                  fl_interleaved_mode = False, fl_authnak = False\<rparr>,
      h5_root_delay = ts_root_delay (time_snapshot_of info),
      h5_root_dispersion = ts_root_dispersion (time_snapshot_of info) recv,
      h5_server_cookie = rnd, h5_client_cookie = h5_client_cookie input,
      h5_receive_timestamp = recv, h5_transmit_timestamp = now\<rparr>"

definition h5_kiss_response :: "bytes \<Rightarrow> header_v5 \<Rightarrow> header_v5" where
  "h5_kiss_response rnd p =
     h5_new\<lparr>h5_mode := V5Response,
            h5_flags := \<lparr>fl_synchronized = False, fl_interleaved_mode = False, fl_authnak = False\<rparr>,
            h5_server_cookie := rnd, h5_client_cookie := h5_client_cookie p, h5_stratum := 0\<rparr>"

definition h5_rate_limit_response :: "bytes \<Rightarrow> header_v5 \<Rightarrow> header_v5" where
  "h5_rate_limit_response rnd p = (h5_kiss_response rnd p)\<lparr>h5_poll := poll_force_inc (h5_poll p)\<rparr>"

definition h5_deny_response :: "bytes \<Rightarrow> header_v5 \<Rightarrow> header_v5" where
  "h5_deny_response rnd p = (h5_kiss_response rnd p)\<lparr>h5_poll := poll_NEVER\<rparr>"

definition h5_nts_nak_response :: "bytes \<Rightarrow> header_v5 \<Rightarrow> header_v5" where
  "h5_nts_nak_response rnd p = (h5_kiss_response rnd p)
     \<lparr>h5_flags := \<lparr>fl_synchronized = False, fl_interleaved_mode = False, fl_authnak = True\<rparr>\<rparr>"

definition fix_leap_indicator :: "header_v5 \<Rightarrow> header_v5" where
  "fix_leap_indicator h =
     (if fl_synchronized (h5_flags h) \<and> h5_leap h = Unsynchronized then h\<lparr>h5_leap := Unknown\<rparr>
      else if \<not> fl_synchronized (h5_flags h) then h\<lparr>h5_leap := Unsynchronized\<rparr>
      else h)"

definition h5_deserialize :: "bytes \<Rightarrow> 't parsing_error + (header_v5 \<times> nat)" where
  "h5_deserialize data =
     (if length data < WIRE_LENGTH then Inl IncorrectLength
      else let version = drop_bit 3 (data ! 0) AND 7
      in if version \<noteq> 5 then Inl (InvalidVersion version)
      else
        bindR (leap_from_bits (drop_bit 6 (data ! 0 AND 0xC0))) (\<lambda>leap.
        bindR (ntp_mode_from_bits (data ! 0 AND 0x07)) (\<lambda>mode.
        bindR (timescale_from_bits (data ! 12)) (\<lambda>scale.
        bindR (flags_from_bits (slice 14 16 data)) (\<lambda>flags.
        Inr (fix_leap_indicator
              \<lparr>h5_leap = leap, h5_mode = mode, h5_stratum = data ! 1,
               h5_poll = poll_from_byte (data ! 2), h5_precision = data ! 3,
               h5_timescale = scale, h5_era = data ! 13, h5_flags = flags,
               h5_root_delay = dur_from_bits_time32 (slice 4 8 data),
               h5_root_dispersion = dur_from_bits_time32 (slice 8 12 data),
               h5_server_cookie = slice 16 24 data, h5_client_cookie = slice 24 32 data,
               h5_receive_timestamp = ts_from_bits (slice 32 40 data),
               h5_transmit_timestamp = ts_from_bits (slice 40 48 data)\<rparr>,
             WIRE_LENGTH))))))"

definition h5_serialize :: "header_v5 \<Rightarrow> writer" where
  "h5_serialize h = write_seq
     [write_all [push_bit 6 (leap_to_bits (h5_leap h)) OR push_bit 3 5 OR
                 ntp_mode_to_bits (h5_mode h)],
      write_all [h5_stratum h, poll_as_byte (h5_poll h), h5_precision h],
      write_or_panic (dur_to_bits_time32 (h5_root_delay h)),
      write_or_panic (dur_to_bits_time32 (h5_root_dispersion h)),
      write_all [timescale_to_bits (h5_timescale h)],
      write_all [h5_era h],
      write_all (flags_as_bits (h5_flags h)),
      write_all (h5_server_cookie h),
      write_all (h5_client_cookie h),
      write_all (ts_to_bits (h5_receive_timestamp h)),
      write_all (ts_to_bits (h5_transmit_timestamp h))]"

definition h5_poll_message :: "client_cookie \<Rightarrow> poll_interval \<Rightarrow> header_v5 \<times> request_identifier" where
  "h5_poll_message rnd poll =
     (h5_new\<lparr>h5_poll := poll, h5_mode := V5Request, h5_client_cookie := rnd\<rparr>,
      \<lparr>expected_origin_timestamp = cookie_into_ntp_timestamp rnd, rqid_uid = None\<rparr>)"

section \<open>Bit fields of the first byte\<close>

lemma and_7: "b AND 7 = take_bit 3 (b :: byte)"
  by (simp add: take_bit_eq_mask mask_eq_exp_minus_1)

lemma unat_and_7: "unat (b AND 7 :: byte) < 8"
  by (simp add: and_7 unsigned_take_bit_eq take_bit_eq_mod [where ?'a = nat])

lemma top_two_bits: "drop_bit 6 (b AND 0xC0) = drop_bit 6 (b :: byte)"
proof -
  have "drop_bit 6 (b AND 0xC0) = take_bit 2 (drop_bit 6 b)"
    by (simp add: take_bit_eq_mask mask_eq_exp_minus_1)
  then show ?thesis by (auto simp: bit_eq_iff bit_simps dest: bit_imp_le_length)
qed

lemma unat_top_two_bits: "unat (drop_bit 6 b :: byte) < 4"
proof -
  have "unat (drop_bit 6 b) = take_bit 8 (unat b) div 64"
    by (simp add: unsigned_drop_bit_eq drop_bit_eq_div [where ?'a = nat])
  moreover have "unat b < 256" using unat_lt2p [of b] by simp
  ultimately show ?thesis by (simp add: take_bit_nat_eq_self less_mult_imp_div_less)
qed

lemma first_byte_split:
  "push_bit 6 (drop_bit 6 (b AND 0xC0)) OR push_bit 3 (drop_bit 3 b AND 7) OR (b AND 7) = (b :: byte)"
proof (rule bit_eqI)
  fix n
  show "bit (push_bit 6 (drop_bit 6 (b AND 0xC0)) OR push_bit 3 (drop_bit 3 b AND 7) OR (b AND 7)) n =
      bit b n"
    unfolding top_two_bits and_7
    by (cases "n < 3"; cases "n < 6") (auto simp: bit_simps dest: bit_imp_le_length)
qed

lemma byte_cases4: "unat (b :: byte) < 4 \<Longrightarrow> b = 0 \<or> b = 1 \<or> b = 2 \<or> b = 3"
  by (simp add: word_unat_eq_iff) arith

lemma byte_cases8:
  "unat (b :: byte) < 8 \<Longrightarrow> b = 0 \<or> b = 1 \<or> b = 2 \<or> b = 3 \<or> b = 4 \<or> b = 5 \<or> b = 6 \<or> b = 7"
  by (simp add: word_unat_eq_iff) arith

lemma leap_bits: "leap_from_bits b = Inr l \<Longrightarrow> leap_to_bits l = b"
  by (auto simp: leap_from_bits_def split: if_splits)

lemma leap_from_two_bits: "\<exists>l. leap_from_bits (drop_bit 6 (b AND 0xC0)) = Inr l"
  using byte_cases4 [OF unat_top_two_bits, of b] by (auto simp: leap_from_bits_def top_two_bits)

lemma mode_bits: "mode_from_bits b = Inr m \<Longrightarrow> mode_to_bits m = b"
  by (auto simp: mode_from_bits_def split: if_splits)

lemma mode_from_three_bits: "\<exists>m. mode_from_bits (b AND 7) = Inr m"
  using byte_cases8 [OF unat_and_7, of b] by (auto simp: mode_from_bits_def)

lemma ntp_mode_bits: "ntp_mode_from_bits b = Inr m \<Longrightarrow> ntp_mode_to_bits m = b"
  by (auto simp: ntp_mode_from_bits_def split: if_splits)

lemma timescale_bits: "timescale_from_bits b = Inr s \<Longrightarrow> timescale_to_bits s = b"
  by (auto simp: timescale_from_bits_def split: if_splits)

lemma mode_roundtrip [simp]: "mode_from_bits (mode_to_bits m) = Inr m"
  by (cases m) (simp_all add: mode_from_bits_def)

lemma ntp_mode_roundtrip [simp]: "ntp_mode_from_bits (ntp_mode_to_bits m) = Inr m"
  by (cases m) (simp_all add: ntp_mode_from_bits_def)

lemma timescale_roundtrip [simp]: "timescale_from_bits (timescale_to_bits s) = Inr s"
  by (cases s) (simp_all add: timescale_from_bits_def)

lemma leap_roundtrip:
  "leap_from_bits (leap_to_bits l) = Inr (if l = Unknown then Unsynchronized else l)"
  by (cases l) (simp_all add: leap_from_bits_def)

lemma flags_roundtrip [simp]: "flags_from_bits (flags_as_bits f) = Inr f"
  by (cases f) (simp add: flags_from_bits_def flags_as_bits_def Let_def)

lemma length_flags_as_bits [simp]: "length (flags_as_bits f) = 2"
  by (simp add: flags_as_bits_def Let_def)

lemma first_byte_join:
  assumes "unat l < 4" "unat v < 8" "unat m < 8"
  shows "drop_bit 6 ((push_bit 6 l OR push_bit 3 v OR m) AND 0xC0) = (l :: byte)"
    "drop_bit 3 (push_bit 6 l OR push_bit 3 v OR m) AND 7 = (v :: byte)"
    "(push_bit 6 l OR push_bit 3 v OR m) AND 7 = (m :: byte)"
proof -
  have b: "uint w < 2 ^ k \<longleftrightarrow> unat w < 2 ^ k" for w :: byte and k
    using of_nat_less_iff [of "unat w" "2 ^ k", where ?'a = int] by simp
  have l: "\<not> bit l n" if "2 \<le> n" for n using bit_bounded [of l 2 n] that assms(1) b [of l 2] by simp
  have v: "\<not> bit v n" if "3 \<le> n" for n using bit_bounded [of v 3 n] that assms(2) b [of v 3] by simp
  have m: "\<not> bit m n" if "3 \<le> n" for n using bit_bounded [of m 3 n] that assms(3) b [of m 3] by simp
  show "drop_bit 6 ((push_bit 6 l OR push_bit 3 v OR m) AND 0xC0) = l"
    unfolding top_two_bits by (rule bit_eqI) (use l v m in \<open>auto simp: bit_simps \<close>, meson leI)
  show "drop_bit 3 (push_bit 6 l OR push_bit 3 v OR m) AND 7 = v"
    unfolding and_7 by (rule bit_eqI) (use v m in \<open>auto simp: bit_simps not_less\<close>)
  show "(push_bit 6 l OR push_bit 3 v OR m) AND 7 = m"
    unfolding and_7 by (rule bit_eqI) (use m in \<open>auto simp: bit_simps not_less\<close>)
qed

lemma field_bounds [simp]:
  "unat (leap_to_bits l) < 4" "unat (mode_to_bits m) < 8" "unat (ntp_mode_to_bits n) < 8"
  by (cases l, simp_all) (cases m, simp_all, cases n, simp_all)

section \<open>Durations on the wire\<close>

lemma push_ucast_u32:
  "n \<le> 16 \<Longrightarrow> uint (push_bit n (ucast (x :: u32)) :: u64) = uint x * 2 ^ n"
proof -
  assume n: "n \<le> 16"
  have "uint x < 2 ^ 32" using uint_lt2p [of x] by simp
  moreover from this have "take_bit 64 (uint x) = uint x" by (simp add: take_bit_int_eq_self)
  moreover have "(2 :: int) ^ n \<le> 2 ^ 16" using n by (intro power_increasing) auto
  moreover from calculation have "uint x * 2 ^ n < 2 ^ 32 * 2 ^ 16"
    by (intro mult_less_le_imp_less) auto
  ultimately show ?thesis
    by (simp add: unsigned_push_bit_eq unsigned_ucast_eq push_bit_eq_mult [where ?'a = int]
        take_bit_int_eq_self)
qed


lemma wire_duration_inj:
  assumes "length bs = 4" "length cs = 4" "n \<le> 16"
    "push_bit n (ucast (from_be bs :: u32) :: u64) = push_bit n (ucast (from_be cs :: u32))"
  shows "bs = cs"
proof -
  have "uint (from_be bs :: u32) * 2 ^ n = uint (from_be cs :: u32) * 2 ^ n"
    using assms(4) push_ucast_u32 [OF assms(3), of "from_be bs"] push_ucast_u32 [OF assms(3), of "from_be cs"]
    by simp
  then have "(from_be bs :: u32) = from_be cs" by (simp add: word_uint_eq_iff)
  then have "u32_to_be (from_be bs) = u32_to_be (from_be cs)" by simp
  with assms(1,2) show ?thesis by (simp only: to_be_from_be_full)
qed

lemma wire_duration_val:
  assumes "n \<le> 16"
  shows "sint (push_bit n (ucast (x :: u32)) :: u64) = uint x * 2 ^ n" "uint x * 2 ^ n < 2 ^ (32 + n)"
proof -
  have x: "uint x < 2 ^ 32" using uint_lt2p [of x] by simp
  then show b: "uint x * 2 ^ n < 2 ^ (32 + n)" by (simp add: power_add)
  have "(2 :: int) ^ (32 + n) \<le> 2 ^ 48" using assms by (intro power_increasing) auto
  with b have "uint x * 2 ^ n < 2 ^ 63" by simp
  then show "sint (push_bit n (ucast x) :: u64) = uint x * 2 ^ n"
    using push_ucast_u32 [OF assms, of x] by (simp add: sint_eq_uint_small)
qed

lemma dur_short_exact:
  assumes "length bs = 4" shows "dur_to_bits_short (dur_from_bits_short bs) = Some bs"
proof -
  let ?x = "from_be bs :: u32"
  have v: "dur_val (dur_from_bits_short bs) = uint ?x * 2 ^ 16" "uint ?x * 2 ^ 16 < 2 ^ 48"
    using wire_duration_val [of 16 ?x] by (simp_all add: dur_from_bits_short_def)
  then obtain cs where cs: "dur_to_bits_short (dur_from_bits_short bs) = Some cs" "length cs = 4"
    "dur_val (dur_from_bits_short cs) = dur_val (dur_from_bits_short bs) div 2 ^ 16 * 2 ^ 16"
    by (elim dur_short_roundtrip [of "dur_from_bits_short bs", rotated 2]) simp_all
  then have "dur_from_bits_short cs = dur_from_bits_short bs" using v(1) by (simp add: dur_eq_iff)
  then show ?thesis
    using wire_duration_inj [OF cs(2) assms, of 16] cs(1) by (simp add: dur_from_bits_short_def)
qed

lemma dur_time32_exact:
  assumes "length bs = 4" shows "dur_to_bits_time32 (dur_from_bits_time32 bs) = Some bs"
proof -
  let ?x = "from_be bs :: u32"
  have v: "dur_val (dur_from_bits_time32 bs) = uint ?x * 2 ^ 4" "uint ?x * 2 ^ 4 < 2 ^ 36"
    using wire_duration_val [of 4 ?x] by (simp_all add: dur_from_bits_time32_def)
  then obtain cs where cs: "dur_to_bits_time32 (dur_from_bits_time32 bs) = Some cs" "length cs = 4"
    "dur_val (dur_from_bits_time32 cs) = dur_val (dur_from_bits_time32 bs) div 2 ^ 4 * 2 ^ 4"
    by (elim dur_time32_roundtrip [of "dur_from_bits_time32 bs", rotated 2]) simp_all
  then have "dur_from_bits_time32 cs = dur_from_bits_time32 bs" using v(1) by (simp add: dur_eq_iff)
  then show ?thesis
    using wire_duration_inj [OF cs(2) assms, of 4] cs(1) by (simp add: dur_from_bits_time32_def)
qed

section \<open>Header layouts\<close>

definition h4_wire :: "header_v3v4 \<Rightarrow> byte \<Rightarrow> bytes \<Rightarrow> bytes \<Rightarrow> bytes" where
  "h4_wire h version rdelay rdisp =
     [push_bit 6 (leap_to_bits (h4_leap h)) OR push_bit 3 version OR mode_to_bits (h4_mode h),
      h4_stratum h, poll_as_byte (h4_poll h), h4_precision h] @ rdelay @ rdisp @
     refid_to_bytes (h4_reference_id h) @ ts_to_bits (h4_reference_timestamp h) @
     ts_to_bits (h4_origin_timestamp h) @ ts_to_bits (h4_receive_timestamp h) @
     ts_to_bits (h4_transmit_timestamp h)"

lemma write_or_panic_Some [simp]: "write_or_panic (Some d) = write_all d"
  by (simp add: write_or_panic_def)

lemma write_seq_map_write_all: "writes (write_seq (map write_all ds)) (concat ds)"
proof (induction ds)
  case Nil
  show ?case by (rule writesI) simp
next
  case (Cons d ds)
  show ?case using writes_seq_Cons [OF writes_write_all Cons, of d] by (simp del: write_seq.simps)
qed

lemma h4_serialize_writes:
  assumes "dur_to_bits_short (h4_root_delay h) = Some rdelay"
    "dur_to_bits_short (h4_root_dispersion h) = Some rdisp"
  shows "writes (h4_serialize h version) (h4_wire h version rdelay rdisp)"
proof -
  let ?ds = "[[push_bit 6 (leap_to_bits (h4_leap h)) OR push_bit 3 version OR mode_to_bits (h4_mode h)],
    [h4_stratum h, poll_as_byte (h4_poll h), h4_precision h], rdelay, rdisp,
    refid_to_bytes (h4_reference_id h), ts_to_bits (h4_reference_timestamp h),
    ts_to_bits (h4_origin_timestamp h), ts_to_bits (h4_receive_timestamp h),
    ts_to_bits (h4_transmit_timestamp h)]"
  have "h4_serialize h version = write_seq (map write_all ?ds)"
    by (simp add: h4_serialize_def assms)
  moreover have "concat ?ds = h4_wire h version rdelay rdisp" by (simp add: h4_wire_def)
  ultimately show ?thesis using write_seq_map_write_all [of ?ds] by simp
qed

lemma length_dur_to_bits:
  "dur_to_bits_short d = Some bs \<Longrightarrow> length bs = 4"
  "dur_to_bits_time32 d = Some bs \<Longrightarrow> length bs = 4"
  by (auto simp: dur_to_bits_short_def dur_to_bits_time32_def Let_def split: if_splits)

lemma drop_append_exact: "length xs = n \<Longrightarrow> n \<le> m \<Longrightarrow> drop m (xs @ ys) = drop (m - n) ys"
  by simp

lemma h4_deserialize_wire:
  assumes "length rdelay = 4" "length rdisp = 4" "unat version < 8"
  shows "(h4_deserialize (h4_wire h version rdelay rdisp @ rest) :: 't parsing_error + _) =
    Inr (h\<lparr>h4_leap := if h4_leap h = Unknown then Unsynchronized else h4_leap h,
           h4_root_delay := dur_from_bits_short rdelay,
           h4_root_dispersion := dur_from_bits_short rdisp\<rparr>, 48)"
proof -
  define b where "b = push_bit 6 (leap_to_bits (h4_leap h)) OR push_bit 3 version OR mode_to_bits (h4_mode h)"
  define l where "l = (if h4_leap h = Unknown then Unsynchronized else h4_leap h)"
  have w: "h4_wire h version rdelay rdisp = [b, h4_stratum h, poll_as_byte (h4_poll h), h4_precision h] @
      rdelay @ rdisp @ refid_to_bytes (h4_reference_id h) @ ts_to_bits (h4_reference_timestamp h) @
      ts_to_bits (h4_origin_timestamp h) @ ts_to_bits (h4_receive_timestamp h) @
      ts_to_bits (h4_transmit_timestamp h)"
    by (simp only: h4_wire_def b_def)
  have "leap_from_bits (drop_bit 6 (b AND 0xC0)) = (Inr l :: 't parsing_error + _)"
    "mode_from_bits (b AND 7) = (Inr (h4_mode h) :: 't parsing_error + _)"
    unfolding b_def l_def first_byte_join [OF field_bounds(1) assms(3) field_bounds(2)] leap_roundtrip
    by simp_all
  then have "(h4_deserialize (h4_wire h version rdelay rdisp @ rest) :: 't parsing_error + _) =
      Inr (h\<lparr>h4_leap := l, h4_root_delay := dur_from_bits_short rdelay,
             h4_root_dispersion := dur_from_bits_short rdisp\<rparr>, 48)"
    unfolding w by (cases h) (simp add: h4_deserialize_def WIRE_LENGTH_def assms slice_def
      poll_from_byte_def poll_as_byte_def)
  then show ?thesis unfolding l_def .
qed

text \<open>Reading any 48 bytes and writing the header again gives the bytes back.\<close>

lemma take48_split:
  assumes "48 \<le> length data"
  shows "take 48 data = [data ! 0, data ! 1, data ! 2, data ! 3] @ slice 4 8 data @ slice 8 12 data @
    slice 12 16 data @ slice 16 24 data @ slice 24 32 data @ slice 32 40 data @ slice 40 48 data"
proof -
  have a: "take b data = take a data @ slice a b data" if "a \<le> b" for a b
    using that by (metis le_add_diff_inverse slice_def take_add)
  have "take 4 data = [data ! 0, data ! 1, data ! 2, data ! 3]"
    by (rule nth_equalityI) (use assms in \<open>auto simp: nth_Cons' less_Suc_eq numeral_eq_Suc\<close>)
  with a [of 40 48] a [of 32 40] a [of 24 32] a [of 16 24] a [of 12 16] a [of 8 12] a [of 4 8]
  show ?thesis by simp
qed

lemma h4_reserialize:
  assumes "(h4_deserialize data :: 't parsing_error + _) = Inr (h, n)"
  shows "n = 48 \<and> writes (h4_serialize h (drop_bit 3 (data ! 0) AND 7)) (take 48 data)"
proof -
  from assms have len: "48 \<le> length data" and n: "n = 48"
    by (auto simp: h4_deserialize_def WIRE_LENGTH_def result_simps split: if_splits)
  from assms len have h:
    "leap_from_bits (drop_bit 6 (data ! 0 AND 0xC0)) = (Inr (h4_leap h) :: 't parsing_error + _)"
    "mode_from_bits (data ! 0 AND 7) = (Inr (h4_mode h) :: 't parsing_error + _)"
    "h4_stratum h = data ! 1" "h4_poll h = poll_from_byte (data ! 2)" "h4_precision h = data ! 3"
    "h4_root_delay h = dur_from_bits_short (slice 4 8 data)"
    "h4_root_dispersion h = dur_from_bits_short (slice 8 12 data)"
    "h4_reference_id h = refid_from_bytes (slice 12 16 data)"
    "h4_reference_timestamp h = ts_from_bits (slice 16 24 data)"
    "h4_origin_timestamp h = ts_from_bits (slice 24 32 data)"
    "h4_receive_timestamp h = ts_from_bits (slice 32 40 data)"
    "h4_transmit_timestamp h = ts_from_bits (slice 40 48 data)"
    unfolding h4_deserialize_def WIRE_LENGTH_def by (auto simp: result_simps)
  have l: "length (slice 4 8 data) = 4" "length (slice 8 12 data) = 4" "length (slice 12 16 data) = 4"
    "length (slice 16 24 data) = 8" "length (slice 24 32 data) = 8" "length (slice 32 40 data) = 8"
    "length (slice 40 48 data) = 8"
    using len by simp_all
  have "writes (h4_serialize h (drop_bit 3 (data ! 0) AND 7))
      (h4_wire h (drop_bit 3 (data ! 0) AND 7) (slice 4 8 data) (slice 8 12 data))"
    by (intro h4_serialize_writes) (simp_all only: h dur_short_exact l)
  moreover have "h4_wire h (drop_bit 3 (data ! 0) AND 7) (slice 4 8 data) (slice 8 12 data) = take 48 data"
    unfolding take48_split [OF len] h4_wire_def h(3-) leap_bits [OF h(1)] mode_bits [OF h(2)] first_byte_split
    using l by (simp add: poll_as_byte_def poll_from_byte_def)
  ultimately show ?thesis using n by simp
qed

definition h5_wire :: "header_v5 \<Rightarrow> bytes \<Rightarrow> bytes \<Rightarrow> bytes" where
  "h5_wire h rdelay rdisp =
     [push_bit 6 (leap_to_bits (h5_leap h)) OR push_bit 3 5 OR ntp_mode_to_bits (h5_mode h),
      h5_stratum h, poll_as_byte (h5_poll h), h5_precision h] @ rdelay @ rdisp @
     [timescale_to_bits (h5_timescale h), h5_era h] @ flags_as_bits (h5_flags h) @
     h5_server_cookie h @ h5_client_cookie h @
     ts_to_bits (h5_receive_timestamp h) @ ts_to_bits (h5_transmit_timestamp h)"

definition h5_wf :: "header_v5 \<Rightarrow> bool" where
  "h5_wf h \<longleftrightarrow> length (h5_server_cookie h) = 8 \<and> length (h5_client_cookie h) = 8"

lemma h5_serialize_writes:
  assumes "dur_to_bits_time32 (h5_root_delay h) = Some rdelay"
    "dur_to_bits_time32 (h5_root_dispersion h) = Some rdisp"
  shows "writes (h5_serialize h) (h5_wire h rdelay rdisp)"
proof -
  let ?ds = "[[push_bit 6 (leap_to_bits (h5_leap h)) OR push_bit 3 5 OR ntp_mode_to_bits (h5_mode h)],
    [h5_stratum h, poll_as_byte (h5_poll h), h5_precision h], rdelay, rdisp,
    [timescale_to_bits (h5_timescale h)], [h5_era h], flags_as_bits (h5_flags h),
    h5_server_cookie h, h5_client_cookie h,
    ts_to_bits (h5_receive_timestamp h), ts_to_bits (h5_transmit_timestamp h)]"
  have "h5_serialize h = write_seq (map write_all ?ds)"
    by (simp add: h5_serialize_def assms)
  moreover have "concat ?ds = h5_wire h rdelay rdisp" by (simp add: h5_wire_def)
  ultimately show ?thesis using write_seq_map_write_all [of ?ds] by simp
qed

lemma h5_deserialize_wire:
  assumes "length rdelay = 4" "length rdisp = 4" "h5_wf h"
  shows "(h5_deserialize (h5_wire h rdelay rdisp @ rest) :: 't parsing_error + _) =
    Inr (fix_leap_indicator
      (h\<lparr>h5_leap := if h5_leap h = Unknown then Unsynchronized else h5_leap h,
         h5_root_delay := dur_from_bits_time32 rdelay,
         h5_root_dispersion := dur_from_bits_time32 rdisp\<rparr>), 48)"
proof -
  define b where "b = push_bit 6 (leap_to_bits (h5_leap h)) OR push_bit 3 5 OR ntp_mode_to_bits (h5_mode h)"
  define l where "l = (if h5_leap h = Unknown then Unsynchronized else h5_leap h)"
  have w: "h5_wire h rdelay rdisp = [b, h5_stratum h, poll_as_byte (h5_poll h), h5_precision h] @
      rdelay @ rdisp @ [timescale_to_bits (h5_timescale h), h5_era h] @ flags_as_bits (h5_flags h) @
      h5_server_cookie h @ h5_client_cookie h @
      ts_to_bits (h5_receive_timestamp h) @ ts_to_bits (h5_transmit_timestamp h)"
    by (simp only: h5_wire_def b_def)
  have five: "unat (5 :: byte) < 8" by simp
  have "leap_from_bits (drop_bit 6 (b AND 0xC0)) = (Inr l :: 't parsing_error + _)"
    "ntp_mode_from_bits (b AND 7) = (Inr (h5_mode h) :: 't parsing_error + _)"
    "drop_bit 3 b AND 7 = 5"
    unfolding b_def l_def first_byte_join [OF field_bounds(1) five field_bounds(3)] leap_roundtrip
    by simp_all
  then have "(h5_deserialize (h5_wire h rdelay rdisp @ rest) :: 't parsing_error + _) =
      Inr (fix_leap_indicator (h\<lparr>h5_leap := l, h5_root_delay := dur_from_bits_time32 rdelay,
             h5_root_dispersion := dur_from_bits_time32 rdisp\<rparr>), 48)"
    using assms
    unfolding w by (cases h) (simp add: h5_deserialize_def WIRE_LENGTH_def slice_def h5_wf_def nth_append
      poll_from_byte_def poll_as_byte_def Let_def)
  then show ?thesis unfolding l_def .
qed

lemma h5_deserialize_cases:
  assumes "(h5_deserialize data :: 't parsing_error + _) = Inr (h, n)"
  shows "n = 48" "48 \<le> length data" "h5_wf h" "fix_leap_indicator h = h"
proof -
  from assms show "n = 48" "48 \<le> length data"
    by (auto simp: h5_deserialize_def WIRE_LENGTH_def result_simps Let_def split: if_splits)
  with assms show "h5_wf h"
    by (auto simp: h5_deserialize_def WIRE_LENGTH_def result_simps Let_def h5_wf_def
        fix_leap_indicator_def split: if_splits)
  have "fix_leap_indicator (fix_leap_indicator g) = fix_leap_indicator g" for g
    by (simp add: fix_leap_indicator_def)
  with assms show "fix_leap_indicator h = h"
    by (auto simp: h5_deserialize_def result_simps Let_def split: if_splits)
qed

section \<open>Properties\<close>

text \<open>
  NTPv3 and NTPv4 headers are read without loss. Every buffer of at least 48 bytes parses, a
  shorter one is refused for its length, no input reaches an unreachable branch, and writing the
  parsed header with the version of the input gives the first 48 bytes back.
\<close>
lemma header_v3v4_is_lossless:
  "(case (h4_deserialize data :: 't parsing_error + _) of
      Inl e \<Rightarrow> length data < 48 \<and> e = IncorrectLength
    | Inr (h, n) \<Rightarrow> 48 \<le> length data \<and> n = 48 \<and>
        writes (h4_serialize h (drop_bit 3 (data ! 0) AND 7)) (take 48 data))"
proof (cases "length data < 48")
  case True
  then show ?thesis by (simp add: h4_deserialize_def WIRE_LENGTH_def)
next
  case False
  obtain l where l: "leap_from_bits (drop_bit 6 (data ! 0 AND 0xC0)) = (Inr l :: 't parsing_error + _)"
    using leap_from_two_bits by blast
  obtain m where m: "mode_from_bits (data ! 0 AND 7) = (Inr m :: 't parsing_error + _)"
    using mode_from_three_bits by blast
  obtain h where h: "(h4_deserialize data :: 't parsing_error + _) = Inr (h, 48)"
    unfolding h4_deserialize_def WIRE_LENGTH_def l m using False by simp
  from h4_reserialize [OF h] False show ?thesis by (simp add: h)
qed

text \<open>
  C30: an NTPv5 header reads back as it was written, with the two delays rounded down to the
  resolution of the wire format. This holds for every header whose leap indicator is consistent
  with its synchronised flag, as it is for every header that was itself read from the network.
\<close>
theorem header_v5_roundtrip:
  assumes "h5_wf h" "fix_leap_indicator h = h"
    "0 \<le> dur_val (h5_root_delay h)" "dur_val (h5_root_delay h) < 2 ^ 36"
    "0 \<le> dur_val (h5_root_dispersion h)" "dur_val (h5_root_dispersion h) < 2 ^ 36"
  shows "\<exists>bs rd rdisp. writes (h5_serialize h) bs \<and> length bs = 48 \<and>
    (h5_deserialize (bs @ rest) :: 't parsing_error + _) =
      Inr (h\<lparr>h5_root_delay := rd, h5_root_dispersion := rdisp\<rparr>, 48) \<and>
    dur_val rd = dur_val (h5_root_delay h) div 16 * 16 \<and>
    dur_val rdisp = dur_val (h5_root_dispersion h) div 16 * 16"
proof -
  obtain d where d: "dur_to_bits_time32 (h5_root_delay h) = Some d" "length d = 4"
    "dur_val (dur_from_bits_time32 d) = dur_val (h5_root_delay h) div 2 ^ 4 * 2 ^ 4"
    using assms(3,4) by (rule dur_time32_roundtrip)
  obtain e where e: "dur_to_bits_time32 (h5_root_dispersion h) = Some e" "length e = 4"
    "dur_val (dur_from_bits_time32 e) = dur_val (h5_root_dispersion h) div 2 ^ 4 * 2 ^ 4"
    using assms(5,6) by (rule dur_time32_roundtrip)
  have "fix_leap_indicator
      (h\<lparr>h5_leap := if h5_leap h = Unknown then Unsynchronized else h5_leap h,
         h5_root_delay := dur_from_bits_time32 d, h5_root_dispersion := dur_from_bits_time32 e\<rparr>) =
      h\<lparr>h5_root_delay := dur_from_bits_time32 d, h5_root_dispersion := dur_from_bits_time32 e\<rparr>"
    using assms(2) by (cases h) (auto simp: fix_leap_indicator_def split: if_splits)
  moreover have "length (h5_wire h d e) = 48" using assms(1) d e by (simp add: h5_wire_def h5_wf_def)
  ultimately show ?thesis
    using h5_serialize_writes [OF d(1) e(1)] h5_deserialize_wire [OF d(2) e(2) assms(1), of rest] d(3) e(3)
    by (intro exI [of _ "h5_wire h d e"] exI [of _ "dur_from_bits_time32 d"]
        exI [of _ "dur_from_bits_time32 e"]) simp
qed

theorem header_v5_roundtrip_witness:
  "\<exists>bs rd rdisp. writes (h5_serialize (fix_leap_indicator h5_new)) bs \<and>
     (h5_deserialize (bs @ [1]) :: unit parsing_error + _) =
       Inr ((fix_leap_indicator h5_new)\<lparr>h5_root_delay := rd, h5_root_dispersion := rdisp\<rparr>, 48) \<and>
     dur_val rd = 0 \<and> dur_val rdisp = 0"
  using header_v5_roundtrip [of "fix_leap_indicator h5_new" "[1]"]
  by (fastforce simp: h5_new_def h5_wf_def fix_leap_indicator_def)

end
