(* ===== verification/Crypto.thy ===== *)
theory Crypto
  imports Ntp_Prelude
begin

text \<open>
  Authenticated encryption: the ciphers of \<^verbatim>\<open>ntp-proto/src/packet/crypto.rs\<close> and the algorithm
  identifiers of \<^verbatim>\<open>ntp-proto/src/nts/mod.rs\<close>. AES-SIV itself is third-party code and is a
  parameter: a pair of functions that seal a plaintext (the result is the tag followed by the
  encrypted text) and open it again, for a cipher, a nonce and associated data. What the program
  relies on is \<open>aead_correct\<close> and \<open>aead_overhead\<close>; what its security rests on is that opening
  anything that was not sealed fails, which is stated where a property needs it.
\<close>

datatype cipher = AesSivCmac256 bytes | AesSivCmac512 bytes

record aead =
  siv_seal :: "cipher \<Rightarrow> bytes \<Rightarrow> bytes \<Rightarrow> bytes \<Rightarrow> bytes"
  siv_open :: "cipher \<Rightarrow> bytes \<Rightarrow> bytes \<Rightarrow> bytes \<Rightarrow> bytes option"

definition aead_correct :: "aead \<Rightarrow> bool" where
  "aead_correct A \<longleftrightarrow> (\<forall>c nonce aad p. siv_open A c nonce aad (siv_seal A c nonce aad p) = Some p)"

definition aead_overhead :: "aead \<Rightarrow> bool" where
  "aead_overhead A \<longleftrightarrow> (\<forall>c nonce aad p. length (siv_seal A c nonce aad p) = length p + 16)"

fun key_bytes :: "cipher \<Rightarrow> bytes" where
  "key_bytes (AesSivCmac256 k) = k"
| "key_bytes (AesSivCmac512 k) = k"

definition cmac256_try_from :: "bytes \<Rightarrow> cipher option" where
  "cmac256_try_from bs = (if length bs = 32 then Some (AesSivCmac256 bs) else None)"

definition cmac512_try_from :: "bytes \<Rightarrow> cipher option" where
  "cmac512_try_from bs = (if length bs = 64 then Some (AesSivCmac512 bs) else None)"

section \<open>Encryption in a buffer\<close>

definition copy_within :: "nat \<Rightarrow> nat \<Rightarrow> nat \<Rightarrow> bytes \<Rightarrow> bytes" where
  "copy_within a b dest buf = splice dest (slice a b buf) buf"

definition prepend_slice :: "bytes \<Rightarrow> nat \<Rightarrow> bytes \<Rightarrow> io_error + bytes" where
  "prepend_slice buffer len nonce =
     (if length buffer < length nonce + len then Inl WriteZero
      else Inr (splice 0 nonce (copy_within 0 len (length nonce) buffer)))"

text \<open>
  \<^verbatim>\<open>Cipher::encrypt\<close> returns the buffer, the length of the nonce and the length of the ciphertext.
  The library grows the wrapped buffer with \<^verbatim>\<open>Buffer::extend_from_slice\<close>, which fails when
  the ciphertext does not fit. The random nonce is an argument.
\<close>

definition cipher_encrypt ::
  "aead \<Rightarrow> cipher \<Rightarrow> bytes \<Rightarrow> bytes \<Rightarrow> nat \<Rightarrow> bytes \<Rightarrow> io_error + bytes \<times> nat \<times> nat" where
  "cipher_encrypt A c nonce buffer plaintext_length aad =
     bindR (prepend_slice buffer plaintext_length nonce) (\<lambda>buffer.
     let n = length nonce;
         ct = siv_seal A c nonce aad (slice n (n + plaintext_length) buffer)
     in if n + length ct > length buffer then Inl OtherError
        else Inr (splice n ct buffer, n, length ct))"

definition cipher_decrypt :: "aead \<Rightarrow> cipher \<Rightarrow> bytes \<Rightarrow> bytes \<Rightarrow> bytes \<Rightarrow> bytes option" where
  "cipher_decrypt A c nonce ciphertext aad = siv_open A c nonce aad ciphertext"

lemma slice_splice_same: "length d = n \<Longrightarrow> p + n \<le> length buf \<Longrightarrow> slice p (p + n) (splice p d buf) = d"
  by (simp add: slice_def splice_def)

lemma take_splice_before: "p \<le> q \<Longrightarrow> q \<le> length buf \<Longrightarrow> take p (splice q d buf) = take p buf"
  by (simp add: splice_def)

lemma slice_splice_after:
  "p + length d \<le> a \<Longrightarrow> p + length d \<le> length buf \<Longrightarrow> slice a b (splice p d buf) = slice a b buf"
  by (auto simp: slice_def splice_def add.commute)

text \<open>What encryption leaves in the buffer: the nonce, the sealed plaintext, and the old contents behind.\<close>

lemma cipher_encrypt_result:
  assumes "plen \<le> length buffer"
    and fits: "length nonce + length (siv_seal A c nonce aad (take plen buffer)) \<le> length buffer"
    and room: "length nonce + plen \<le> length buffer"
  shows "\<exists>rest. cipher_encrypt A c nonce buffer plen aad =
    Inr (nonce @ siv_seal A c nonce aad (take plen buffer) @ rest, length nonce,
         length (siv_seal A c nonce aad (take plen buffer))) \<and>
    length (nonce @ siv_seal A c nonce aad (take plen buffer) @ rest) = length buffer"
proof -
  let ?n = "length nonce" and ?ct = "siv_seal A c nonce aad (take plen buffer)"
  define b1 where "b1 = copy_within 0 plen ?n buffer"
  define b2 where "b2 = splice 0 nonce b1"
  have l1: "length b1 = length buffer" using room by (simp add: b1_def copy_within_def slice_def)
  then have l2: "length b2 = length buffer" using room by (simp add: b2_def)
  have "slice ?n (?n + plen) b1 = take plen buffer"
    using room slice_splice_same [of "take plen buffer" plen ?n buffer]
    by (simp add: b1_def copy_within_def slice_def)
  then have p: "slice ?n (?n + plen) b2 = take plen buffer"
    using room l1 slice_splice_after [of 0 nonce ?n b1 "?n + plen"] by (simp add: b2_def)
  have enc: "cipher_encrypt A c nonce buffer plen aad = Inr (splice ?n ?ct b2, ?n, length ?ct)"
    using room fits l2 p by (simp add: cipher_encrypt_def prepend_slice_def b1_def b2_def Let_def not_less)
  have "take ?n b2 = nonce" using room l1 by (simp add: b2_def splice_def)
  then have "splice ?n ?ct b2 = nonce @ ?ct @ drop (?n + length ?ct) b2" by (simp add: splice_def)
  with enc fits l2 show ?thesis
    by (intro exI [of _ "drop (?n + length ?ct) b2"]) simp
qed

lemma cipher_encrypt_Inr:
  assumes "cipher_encrypt A c nonce buffer plen aad = Inr (buf', nlen, clen)"
  obtains rest where "nlen = length nonce" "clen = length (siv_seal A c nonce aad (take plen buffer))"
    "buf' = nonce @ siv_seal A c nonce aad (take plen buffer) @ rest" "length buf' = length buffer"
proof -
  have room: "length nonce + plen \<le> length buffer"
    using assms by (auto simp: cipher_encrypt_def prepend_slice_def split: if_splits)
  define b2 where "b2 = splice 0 nonce (copy_within 0 plen (length nonce) buffer)"
  have l: "length (copy_within 0 plen (length nonce) buffer) = length buffer"
    using room by (simp add: copy_within_def slice_def)
  then have l2: "length b2 = length buffer" using room by (simp add: b2_def)
  have "slice (length nonce) (length nonce + plen) (copy_within 0 plen (length nonce) buffer) = take plen buffer"
    using room slice_splice_same [of "take plen buffer" plen "length nonce" buffer]
    by (simp add: copy_within_def slice_def)
  then have p: "slice (length nonce) (length nonce + plen) b2 = take plen buffer"
    using room l slice_splice_after [of 0 nonce "length nonce" _ "length nonce + plen"]
    by (simp add: b2_def)
  then have fits: "length nonce + length (siv_seal A c nonce aad (take plen buffer)) \<le> length buffer"
    using assms room l2
    by (auto simp: cipher_encrypt_def prepend_slice_def Let_def b2_def split: if_splits)
  from cipher_encrypt_result [OF _ fits room] room assms that show thesis by fastforce
qed

section \<open>Algorithms and the keys of a connection\<close>

datatype aead_algorithm = AeadAesSivCmac256 | AeadAesSivCmac512 | UnknownAead u16

definition aead_from_u16 :: "u16 \<Rightarrow> aead_algorithm" where
  "aead_from_u16 v =
     (if v = 15 then AeadAesSivCmac256 else if v = 17 then AeadAesSivCmac512 else UnknownAead v)"

fun aead_to_u16 :: "aead_algorithm \<Rightarrow> u16" where
  "aead_to_u16 AeadAesSivCmac256 = 15"
| "aead_to_u16 AeadAesSivCmac512 = 17"
| "aead_to_u16 (UnknownAead v) = v"

record decoded_server_cookie =
  dsc_algorithm :: aead_algorithm
  dsc_s2c :: cipher
  dsc_c2s :: cipher

datatype cipher_holder = HDecodedServerCookie decoded_server_cookie | HOther cipher

fun holder_cipher :: "cipher_holder \<Rightarrow> cipher" where
  "holder_cipher (HDecodedServerCookie cookie) = dsc_c2s cookie"
| "holder_cipher (HOther c) = c"

end
