(* ===== verification/Extension_Fields.thy ===== *)
theory Extension_Fields
  imports Packet_Header Crypto
begin

text \<open>
  Extension fields: \<^verbatim>\<open>ntp-proto/src/packet/extension_fields.rs\<close>, the serialisation of
  \<^verbatim>\<open>packet/v5/extension_fields.rs\<close> and the message authentication code of \<^verbatim>\<open>packet/mac.rs\<close>. A cipher
  provider is a function from the fields read so far to the cipher to use.
\<close>

section \<open>Field types\<close>

datatype ext_type_id =
    TUniqueIdentifier | TNtsCookie | TNtsCookiePlaceholder | TNtsEncryptedField
  | TUnknown u16 | TDraftIdentification | TPadding | TReferenceIdRequest | TReferenceIdResponse

definition from_type_id :: "u16 \<Rightarrow> ext_type_id" where
  "from_type_id t =
     (if t = 0x104 then TUniqueIdentifier else if t = 0x204 then TNtsCookie
      else if t = 0x304 then TNtsCookiePlaceholder else if t = 0x404 then TNtsEncryptedField
      else if t = 0xF5FF then TDraftIdentification else if t = 0xF501 then TPadding
      else if t = 0xF503 then TReferenceIdRequest else if t = 0xF504 then TReferenceIdResponse
      else TUnknown t)"

fun to_type_id :: "ext_type_id \<Rightarrow> u16" where
  "to_type_id TUniqueIdentifier = 0x104"
| "to_type_id TNtsCookie = 0x204"
| "to_type_id TNtsCookiePlaceholder = 0x304"
| "to_type_id TNtsEncryptedField = 0x404"
| "to_type_id TDraftIdentification = 0xF5FF"
| "to_type_id TPadding = 0xF501"
| "to_type_id TReferenceIdRequest = 0xF503"
| "to_type_id TReferenceIdResponse = 0xF504"
| "to_type_id (TUnknown t) = t"

datatype ext_field =
    UniqueIdentifier bytes
  | NtsCookie bytes
  | NtsCookiePlaceholder u16
  | InvalidNtsEncryptedField
  | DraftIdentification bytes
  | Padding nat
  | RefIdRequest reference_id_request
  | RefIdResponse reference_id_response
  | UnknownField u16 bytes

datatype ext_version = EfV4 | EfV5

type_synonym cipher_provider = "ext_field list \<Rightarrow> cipher_holder option"

definition no_cipher :: cipher_provider where
  "no_cipher context = None"

definition the_cipher :: "cipher \<Rightarrow> cipher_provider" where
  "the_cipher c context = Some (HOther c)"

definition opt_cipher :: "cipher option \<Rightarrow> cipher_provider" where
  "opt_cipher c context = map_option HOther c"

definition HEADER_LENGTH :: nat where
  "HEADER_LENGTH = 4"

definition next_multiple_of_u16 :: "u16 \<Rightarrow> u16 \<Rightarrow> u16" where
  "next_multiple_of_u16 l r = (if l mod r = 0 then l else l + (r - l mod r))"

definition next_multiple_of_usize :: "nat \<Rightarrow> nat \<Rightarrow> nat" where
  "next_multiple_of_usize l r = (if l mod r = 0 then l else l + (r - l mod r))"

section \<open>Writing a field\<close>

definition encode_framing :: "ext_type_id \<Rightarrow> nat \<Rightarrow> u16 \<Rightarrow> ext_version \<Rightarrow> writer" where
  "encode_framing ef_id data_length minimum_size version =
     (if data_length > 65535 - HEADER_LENGTH then fail_with OtherError
      else let actual = max (of_nat data_length + of_nat HEADER_LENGTH) minimum_size;
               actual = (if version = EfV4 then next_multiple_of_u16 actual 4 else actual)
           in write_seq [write_all (u16_to_be (to_type_id ef_id)), write_all (u16_to_be actual)])"

fun write_zeros :: "nat \<Rightarrow> writer" where
  "write_zeros n w =
     (if n = 0 then Inr w
      else bindR (write_all (replicate (min n 32) 0) w) (write_zeros (n - min n 32)))"

declare write_zeros.simps [simp del]

definition encode_padding :: "nat \<Rightarrow> u16 \<Rightarrow> writer" where
  "encode_padding data_length minimum_size =
     (if data_length > 65535 - HEADER_LENGTH then fail_with OtherError
      else let actual = next_multiple_of_usize (max (data_length + HEADER_LENGTH) (unat minimum_size)) 4
           in write_zeros (actual - data_length - HEADER_LENGTH))"

definition encode_unique_identifier :: "bytes \<Rightarrow> u16 \<Rightarrow> ext_version \<Rightarrow> writer" where
  "encode_unique_identifier identifier minimum_size version = write_seq
     [encode_framing TUniqueIdentifier (length identifier) minimum_size version,
      write_all identifier, encode_padding (length identifier) minimum_size]"

definition encode_nts_cookie :: "bytes \<Rightarrow> u16 \<Rightarrow> ext_version \<Rightarrow> writer" where
  "encode_nts_cookie cookie minimum_size version = write_seq
     [encode_framing TNtsCookie (length cookie) minimum_size version,
      write_all cookie, encode_padding (length cookie) minimum_size]"

definition encode_nts_cookie_placeholder :: "u16 \<Rightarrow> u16 \<Rightarrow> ext_version \<Rightarrow> writer" where
  "encode_nts_cookie_placeholder cookie_length minimum_size version = write_seq
     [encode_framing TNtsCookiePlaceholder (unat cookie_length) minimum_size version,
      write_zeros (unat cookie_length), encode_padding (unat cookie_length) minimum_size]"

definition encode_unknown :: "u16 \<Rightarrow> bytes \<Rightarrow> u16 \<Rightarrow> ext_version \<Rightarrow> writer" where
  "encode_unknown type_id data minimum_size version = write_seq
     [encode_framing (TUnknown type_id) (length data) minimum_size version,
      write_all data, encode_padding (length data) minimum_size]"

definition encode_draft_identification :: "bytes \<Rightarrow> u16 \<Rightarrow> ext_version \<Rightarrow> writer" where
  "encode_draft_identification data minimum_size version = write_seq
     [encode_framing TDraftIdentification (length data) minimum_size version,
      write_all data, encode_padding (length data) minimum_size]"

text \<open>A length below four wraps to a huge data length, which the framing refuses.\<close>

definition encode_padding_field :: "nat \<Rightarrow> u16 \<Rightarrow> ext_version \<Rightarrow> writer" where
  "encode_padding_field len minimum_size version =
     (if len < HEADER_LENGTH then fail_with OtherError
      else write_seq
        [encode_framing TPadding (len - HEADER_LENGTH) minimum_size version,
         write_zeros (len - HEADER_LENGTH), encode_padding (len - HEADER_LENGTH) minimum_size])"

definition rid_request_serialize :: "reference_id_request \<Rightarrow> writer" where
  "rid_request_serialize r =
     (let plen = rid_payload_len r; ef_len = plen + 4; words = plen div 4
      in write_seq
        ([write_all (u16_to_be (to_type_id TReferenceIdRequest)), write_all (u16_to_be ef_len),
          write_all (u16_to_be (rid_offset r)), write_all [0, 0]] @
         (if plen mod 4 \<noteq> 0 then [fail_with Panicked]
          else replicate (unat words - 1) (write_all [0, 0, 0, 0]))))"

definition rid_response_serialize :: "reference_id_response \<Rightarrow> writer" where
  "rid_response_serialize r =
     (if length (response_bytes r) > 65535 then fail_with Panicked
      else let len = of_nat (length (response_bytes r)) + 4 :: u16
      in write_seq
        ([write_all (u16_to_be (to_type_id TReferenceIdResponse)), write_all (u16_to_be len),
          write_all (response_bytes r)] @
         (if len mod 4 \<noteq> 0 then [write_all (replicate (unat (4 - len mod 4)) 0)] else [])))"

fun ef_serialize :: "ext_field \<Rightarrow> u16 \<Rightarrow> ext_version \<Rightarrow> writer" where
  "ef_serialize (UnknownField type_id data) minimum_size version =
     encode_unknown type_id data minimum_size version"
| "ef_serialize (UniqueIdentifier identifier) minimum_size version =
     encode_unique_identifier identifier minimum_size version"
| "ef_serialize (NtsCookie cookie) minimum_size version =
     encode_nts_cookie cookie minimum_size version"
| "ef_serialize (NtsCookiePlaceholder body_length) minimum_size version =
     encode_nts_cookie_placeholder body_length minimum_size version"
| "ef_serialize InvalidNtsEncryptedField minimum_size version = fail_with OtherError"
| "ef_serialize (DraftIdentification data) minimum_size version =
     encode_draft_identification data minimum_size version"
| "ef_serialize (Padding len) minimum_size version =
     encode_padding_field len minimum_size version"
| "ef_serialize (RefIdRequest req) minimum_size version = rid_request_serialize req"
| "ef_serialize (RefIdResponse res) minimum_size version = rid_response_serialize res"

text \<open>The encrypted field, written in place over the plaintext of its fields.\<close>

definition set_position :: "nat \<Rightarrow> cursor \<Rightarrow> cursor" where
  "set_position p w = w\<lparr>cur_pos := p\<rparr>"

definition encode_encrypted :: "aead \<Rightarrow> bytes \<Rightarrow> ext_field list \<Rightarrow> cipher \<Rightarrow> ext_version \<Rightarrow> writer" where
  "encode_encrypted A nonce efs c version w =
     (let header_start = cur_pos w;
          type_id = u16_to_be (to_type_id TNtsEncryptedField) in
      bindR (write_seq [write_all type_id, write_all [0, 0], write_all [0, 0], write_all [0, 0]] w) (\<lambda>w.
      let plaintext_start = cur_pos w in
      bindR (write_seq (map (\<lambda>f. ef_serialize f 0 version) efs) w) (\<lambda>w.
      let plaintext_length = cur_pos w - plaintext_start;
          packet_so_far = take header_start (cur_buf w);
          cur = drop header_start (cur_buf w);
          header_size = plaintext_start - header_start in
      bindR (cipher_encrypt A c nonce (drop header_size cur) plaintext_length packet_so_far)
        (\<lambda>(buffer, nonce_length, ciphertext_length).
      let cur = take header_size cur @ buffer;
          padded_nonce_length = next_multiple_of_usize nonce_length 4;
          padded_ciphertext_length = next_multiple_of_usize ciphertext_length 4 in
      if length cur < header_size + padded_ciphertext_length + padded_nonce_length
      then Inl WriteZero
      else
        let cur = copy_within (header_size + nonce_length)
                    (header_size + nonce_length + ciphertext_length)
                    (header_size + padded_nonce_length) cur;
            cur = splice (header_size + nonce_length)
                    (replicate (padded_nonce_length - nonce_length) 0) cur;
            cur = splice (header_size + padded_nonce_length + ciphertext_length)
                    (replicate (padded_ciphertext_length - ciphertext_length) 0) cur;
            signature_length = header_size + padded_nonce_length + padded_ciphertext_length in
        bindR (write_seq [write_all type_id, write_all (u16_to_be (of_nat signature_length)),
                          write_all (u16_to_be (of_nat nonce_length)),
                          write_all (u16_to_be (of_nat ciphertext_length))]
                 \<lparr>cur_buf = packet_so_far @ cur, cur_pos = header_start\<rparr>) (\<lambda>w.
        Inr (set_position (header_start + signature_length) w))))))"

section \<open>Reading a field\<close>

definition decode_nts_cookie_placeholder :: "bytes \<Rightarrow> 't parsing_error + ext_field" where
  "decode_nts_cookie_placeholder message =
     (if list_ex (\<lambda>b. b \<noteq> 0) message then Inl MalformedCookiePlaceholder
      else Inr (NtsCookiePlaceholder (of_nat (length message))))"

text \<open>Valid UTF-8 that is ASCII is a sequence of bytes below 128.\<close>

definition trim_end_nul :: "bytes \<Rightarrow> bytes" where
  "trim_end_nul s = rev (dropWhile (\<lambda>b. b = 0) (rev s))"

definition decode_draft_identification :: "bytes \<Rightarrow> ext_version \<Rightarrow> 't parsing_error + ext_field" where
  "decode_draft_identification message version =
     (if \<not> list_all (\<lambda>b. b < 128) message then Inl (V5 InvalidDraftIdentification)
      else Inr (DraftIdentification
        (case version of EfV4 \<Rightarrow> trim_end_nul message | EfV5 \<Rightarrow> message)))"

definition rid_request_decode :: "bytes \<Rightarrow> 't parsing_error + reference_id_request" where
  "rid_request_decode msg =
     (if length msg > 65535 then Inl Unreachable
      else bindR (ok_or IncorrectLength (get_range 0 2 msg)) (\<lambda>bs.
        Inr \<lparr>rid_payload_len = of_nat (length msg), rid_offset = from_be bs\<rparr>))"

record raw_ext_field =
  raw_type_id :: ext_type_id
  message_bytes :: bytes

definition ef_decode :: "raw_ext_field \<Rightarrow> ext_version \<Rightarrow> 't parsing_error + ext_field" where
  "ef_decode raw version =
     (let message = message_bytes raw in
      case raw_type_id raw of
        TUniqueIdentifier \<Rightarrow> Inr (UniqueIdentifier message)
      | TNtsCookie \<Rightarrow> Inr (NtsCookie message)
      | TNtsCookiePlaceholder \<Rightarrow> decode_nts_cookie_placeholder message
      | TDraftIdentification \<Rightarrow>
          if version = EfV5 then decode_draft_identification message version
          else Inr (UnknownField (to_type_id (raw_type_id raw)) message)
      | TReferenceIdRequest \<Rightarrow>
          if version = EfV5 then bindR (rid_request_decode message) (\<lambda>r. Inr (RefIdRequest r))
          else Inr (UnknownField (to_type_id (raw_type_id raw)) message)
      | TReferenceIdResponse \<Rightarrow>
          if version = EfV5 then Inr (RefIdResponse (ReferenceIdResponse message))
          else Inr (UnknownField (to_type_id (raw_type_id raw)) message)
      | _ \<Rightarrow> Inr (UnknownField (to_type_id (raw_type_id raw)) message))"

definition raw_wire_length :: "raw_ext_field \<Rightarrow> nat" where
  "raw_wire_length f = next_multiple_of_usize (2 + 2 + length (message_bytes f)) 4"

definition raw_deserialize :: "bytes \<Rightarrow> nat \<Rightarrow> ext_version \<Rightarrow> 't parsing_error + raw_ext_field" where
  "raw_deserialize data minimum_size version =
     (if length data < 4 then Inl IncorrectLength
      else let type_id = from_be (slice 0 2 data);
               field_length = unat (from_be (slice 2 4 data) :: u16)
      in if field_length < minimum_size then Inl IncorrectLength
      else if version = EfV4 \<and> field_length mod 4 \<noteq> 0 then Inl IncorrectLength
      else
        bindR (ok_or IncorrectLength (get_range 4 (next_multiple_of_usize field_length 4) data)) (\<lambda>_.
        bindR (ok_or IncorrectLength (get_range 4 field_length data)) (\<lambda>message.
        Inr \<lparr>raw_type_id = from_type_id type_id, message_bytes = message\<rparr>)))"

text \<open>The items \<^verbatim>\<open>ExtensionFieldStreamer\<close> yields from an offset on.\<close>

function raw_sequence ::
  "bytes \<Rightarrow> nat \<Rightarrow> nat \<Rightarrow> ext_version \<Rightarrow> nat \<Rightarrow> ('t parsing_error + nat \<times> raw_ext_field) list" where
  "raw_sequence buffer cutoff minimum_size version off =
     (if off > length buffer \<or> length (drop off buffer) \<le> cutoff then []
      else case raw_deserialize (drop off buffer) minimum_size version of
             Inr field \<Rightarrow>
               Inr (off, field) #
                 raw_sequence buffer cutoff minimum_size version (off + raw_wire_length field)
           | Inl e \<Rightarrow> [Inl e])"
  by pat_completeness auto
termination
  by (relation "measure (\<lambda>(buffer, _, _, _, off). length buffer - off)")
    (auto simp: raw_wire_length_def next_multiple_of_usize_def)

declare raw_sequence.simps [simp del]

section \<open>The encrypted field\<close>

record raw_encrypted_field =
  enc_nonce :: bytes
  enc_ciphertext :: bytes

definition from_message_bytes :: "bytes \<Rightarrow> 't parsing_error + raw_encrypted_field" where
  "from_message_bytes message =
     (if length message < 4 then Inl IncorrectLength
      else let nonce_length = unat (from_be (slice 0 2 message) :: u16);
               ciphertext_length = unat (from_be (slice 2 4 message) :: u16);
               rest = drop 4 message
      in bindR (ok_or IncorrectLength (get_range 0 nonce_length rest)) (\<lambda>nonce.
         let ciphertext_start = 4 + unat (next_multiple_of_u16 (of_nat nonce_length) 4)
         in bindR (ok_or IncorrectLength
                     (get_range ciphertext_start (ciphertext_start + ciphertext_length) message))
              (\<lambda>ciphertext. Inr \<lparr>enc_nonce = nonce, enc_ciphertext = ciphertext\<rparr>)))"

text \<open>\<^verbatim>\<open>collect\<close> into a \<^verbatim>\<open>Result<Vec<_>, _>\<close>: the first error, or all values.\<close>

fun collectR :: "('e + 'a) list \<Rightarrow> 'e + 'a list" where
  "collectR [] = Inr []"
| "collectR (x # xs) = bindR x (\<lambda>y. bindR (collectR xs) (\<lambda>ys. Inr (y # ys)))"

definition decrypt_field ::
  "ext_version \<Rightarrow> ('t parsing_error + nat \<times> raw_ext_field) \<Rightarrow> 't parsing_error + ext_field" where
  "decrypt_field version item =
     bindR item (\<lambda>(_, raw).
       if raw_type_id raw = TNtsEncryptedField then Inl MalformedNtsExtensionFields
       else ef_decode raw version)"

definition raw_decrypt ::
  "aead \<Rightarrow> raw_encrypted_field \<Rightarrow> cipher \<Rightarrow> bytes \<Rightarrow> ext_version \<Rightarrow>
   ext_field parsing_error + ext_field list" where
  "raw_decrypt A enc c aad version =
     (case cipher_decrypt A c (enc_nonce enc) (enc_ciphertext enc) aad of
        None \<Rightarrow> Inl (DecryptError InvalidNtsEncryptedField)
      | Some plaintext \<Rightarrow>
          collectR (map (decrypt_field version) (raw_sequence plaintext 0 4 version 0)))"

section \<open>All fields of a packet\<close>

record ext_field_data =
  authenticated :: "ext_field list"
  encrypted :: "ext_field list"
  untrusted :: "ext_field list"

definition ext_field_data_default :: ext_field_data where
  "ext_field_data_default = \<lparr>authenticated = [], encrypted = [], untrusted = []\<rparr>"

record deserialized_ext_field =
  def_efdata :: ext_field_data
  def_remaining :: bytes
  def_cookie :: "decoded_server_cookie option"

record invalid_nts_ext_field =
  inv_efdata :: ext_field_data
  inv_remaining :: bytes

fun serialize_untrusted :: "ext_field list \<Rightarrow> ext_version \<Rightarrow> writer" where
  "serialize_untrusted [] version w = Inr w"
| "serialize_untrusted (f # fs) version w =
     (let minimum_size = (case version of EfV4 \<Rightarrow> if fs = [] then 28 else 16 | EfV5 \<Rightarrow> 4)
      in bindR (ef_serialize f minimum_size version w) (serialize_untrusted fs version))"

definition efdata_serialize ::
  "aead \<Rightarrow> bytes \<Rightarrow> ext_field_data \<Rightarrow> cipher_provider \<Rightarrow> ext_version \<Rightarrow> writer" where
  "efdata_serialize A nonce ef provider version w =
     bindR
       (if authenticated ef \<noteq> [] \<or> encrypted ef \<noteq> []
        then case provider (authenticated ef) of
               None \<Rightarrow> Inl OtherError
             | Some holder \<Rightarrow>
                 bindR (write_seq (map (\<lambda>f. ef_serialize f 16 version) (authenticated ef)) w)
                   (encode_encrypted A nonce (encrypted ef) (holder_cipher holder) version)
        else Inr w)
       (serialize_untrusted (untrusted ef) version)"

record ef_loop_state =
  lp_efdata :: ext_field_data
  lp_size :: nat
  lp_valid_nts :: bool
  lp_cookie :: "decoded_server_cookie option"

text \<open>One field of \<^verbatim>\<open>ExtensionFieldData::deserialize\<close>; an error is its early return.\<close>

definition ef_push :: "ext_field \<Rightarrow> ef_loop_state \<Rightarrow> ef_loop_state" where
  "ef_push f st = st\<lparr>lp_efdata := (lp_efdata st)\<lparr>untrusted := untrusted (lp_efdata st) @ [f]\<rparr>\<rparr>"

definition ef_loop_step ::
  "aead \<Rightarrow> cipher_provider \<Rightarrow> bytes \<Rightarrow> nat \<Rightarrow> ext_version \<Rightarrow> nat \<times> raw_ext_field \<Rightarrow> ef_loop_state \<Rightarrow>
   't parsing_error + ef_loop_state" where
  "ef_loop_step A provider data header_size version item st =
     (case item of (off, field) \<Rightarrow>
      let st = st\<lparr>lp_size := off + raw_wire_length field\<rparr> in
      if raw_type_id field = TNtsEncryptedField then
        bindR (from_message_bytes (message_bytes field)) (\<lambda>enc.
        case provider (untrusted (lp_efdata st)) of
          None \<Rightarrow> Inr ((ef_push InvalidNtsEncryptedField st)\<lparr>lp_valid_nts := False\<rparr>)
        | Some holder \<Rightarrow>
            (case raw_decrypt A enc (holder_cipher holder) (take (header_size + off) data) version of
               Inl e \<Rightarrow>
                 bindR (get_decrypt_error e) (\<lambda>_.
                 Inr ((ef_push InvalidNtsEncryptedField st)\<lparr>lp_valid_nts := False\<rparr>))
             | Inr fields' \<Rightarrow>
                 let ef = lp_efdata st in
                 Inr (st\<lparr>lp_efdata :=
                           \<lparr>authenticated = authenticated ef @ untrusted ef,
                            encrypted = encrypted ef @ fields', untrusted = []\<rparr>,
                         lp_cookie := (case holder of
                                         HDecodedServerCookie cookie \<Rightarrow> Some cookie
                                       | HOther _ \<Rightarrow> None)\<rparr>)))
      else bindR (ef_decode field version) (\<lambda>f. Inr (ef_push f st)))"

fun ef_loop ::
  "aead \<Rightarrow> cipher_provider \<Rightarrow> bytes \<Rightarrow> nat \<Rightarrow> ext_version \<Rightarrow> ('t parsing_error + nat \<times> raw_ext_field) list \<Rightarrow>
   ef_loop_state \<Rightarrow> 't parsing_error + ef_loop_state" where
  "ef_loop A provider data header_size version [] st = Inr st"
| "ef_loop A provider data header_size version (item # items) st =
     bindR item (\<lambda>it.
     bindR (ef_loop_step A provider data header_size version it st)
       (ef_loop A provider data header_size version items))"

definition MAC_MAXIMUM_SIZE :: nat where
  "MAC_MAXIMUM_SIZE = 24"

definition efdata_deserialize ::
  "aead \<Rightarrow> bytes \<Rightarrow> nat \<Rightarrow> cipher_provider \<Rightarrow> ext_version \<Rightarrow>
   invalid_nts_ext_field parsing_error + deserialized_ext_field" where
  "efdata_deserialize A data header_size provider version =
     (let mac_size = (case version of EfV4 \<Rightarrow> MAC_MAXIMUM_SIZE | EfV5 \<Rightarrow> 0) in
      bindR (ef_loop A provider data header_size version
               (raw_sequence (drop header_size data) mac_size 4 version 0)
               \<lparr>lp_efdata = ext_field_data_default, lp_size = 0, lp_valid_nts = True, lp_cookie = None\<rparr>)
        (\<lambda>st.
      let remaining = drop (header_size + lp_size st) data in
      if lp_valid_nts st
      then Inr \<lparr>def_efdata = lp_efdata st, def_remaining = remaining, def_cookie = lp_cookie st\<rparr>
      else Inl (DecryptError \<lparr>inv_efdata = lp_efdata st, inv_remaining = remaining\<rparr>)))"

section \<open>Message authentication code\<close>

record mac =
  mac_keyid :: u32
  mac_bytes :: bytes

definition mac_serialize :: "mac \<Rightarrow> writer" where
  "mac_serialize m = write_seq [write_all (u32_to_be (mac_keyid m)), write_all (mac_bytes m)]"

definition mac_deserialize :: "bytes \<Rightarrow> 't parsing_error + mac" where
  "mac_deserialize data =
     (if length data < 4 \<or> length data > MAC_MAXIMUM_SIZE then Inl IncorrectLength
      else Inr \<lparr>mac_keyid = from_be (slice 0 4 data), mac_bytes = drop 4 data\<rparr>)"

section \<open>Layout of a field\<close>

lemma writes_write_zeros: "writes (write_zeros n) (replicate n 0)"
proof (induction n rule: less_induct)
  case (less n)
  show ?case
  proof (cases "n = 0")
    case True
    then show ?thesis by (auto intro!: writesI simp: write_zeros.simps [of 0])
  next
    case False
    let ?k = "min n 32"
    have "writes (write_zeros (n - ?k)) (replicate (n - ?k) 0)" using False by (intro less) simp
    from writes_bindR [OF writes_write_all this, of "replicate ?k 0"]
    have "writes (\<lambda>w. bindR (write_all (replicate ?k 0) w) (write_zeros (n - ?k)))
        (replicate ?k 0 @ replicate (n - ?k) 0)" .
    moreover have "replicate ?k 0 @ replicate (n - ?k) 0 = (replicate n 0 :: bytes)"
      by (simp flip: replicate_add)
    moreover have "write_zeros n = (\<lambda>w. bindR (write_all (replicate ?k 0) w) (write_zeros (n - ?k)))"
      using False by (simp add: fun_eq_iff write_zeros.simps [of n])
    ultimately show ?thesis by simp
  qed
qed

lemma next_multiple_bounds:
  "l \<le> next_multiple_of_usize l 4" "next_multiple_of_usize l 4 \<le> l + 3"
  "next_multiple_of_usize l 4 mod 4 = 0"
proof -
  have "(l + (4 - l mod 4)) mod 4 = 0" by presburger
  then show "next_multiple_of_usize l 4 mod 4 = 0" by (simp add: next_multiple_of_usize_def)
qed (auto simp: next_multiple_of_usize_def)

lemma next_multiple_u16:
  assumes "n \<le> 65532"
  shows "unat (next_multiple_of_u16 (of_nat n) 4) = next_multiple_of_usize n 4"
proof -
  have n: "unat (of_nat n :: u16) = n" using assms by (simp add: unsigned_of_nat take_bit_nat_eq_self)
  then have m: "unat (of_nat n mod 4 :: u16) = n mod 4" by (simp add: unat_mod_distrib)
  then have z: "(of_nat n mod 4 :: u16) = 0 \<longleftrightarrow> n mod 4 = 0" by (simp flip: unat_eq_0)
  show ?thesis
  proof (cases "n mod 4 = 0")
    case True
    then show ?thesis using z n by (simp add: next_multiple_of_u16_def next_multiple_of_usize_def)
  next
    case False
    have "unat (4 - of_nat n mod 4 :: u16) = 4 - n mod 4"
      using m by (simp add: unat_sub_if' )
    moreover have "n + (4 - n mod 4) \<le> 65532"
      using assms False by presburger
    ultimately show ?thesis
      using False z n by (simp add: next_multiple_of_u16_def next_multiple_of_usize_def unat_word_ariths)
  qed
qed

text \<open>The type, length and payload a field is written with, and the padding behind it.\<close>

fun ef_type :: "ext_field \<Rightarrow> ext_type_id" where
  "ef_type (UniqueIdentifier d) = TUniqueIdentifier"
| "ef_type (NtsCookie d) = TNtsCookie"
| "ef_type (NtsCookiePlaceholder n) = TNtsCookiePlaceholder"
| "ef_type InvalidNtsEncryptedField = TNtsEncryptedField"
| "ef_type (DraftIdentification d) = TDraftIdentification"
| "ef_type (Padding n) = TPadding"
| "ef_type (RefIdRequest r) = TReferenceIdRequest"
| "ef_type (RefIdResponse r) = TReferenceIdResponse"
| "ef_type (UnknownField t d) = TUnknown t"

fun ef_payload :: "ext_field \<Rightarrow> bytes" where
  "ef_payload (UniqueIdentifier d) = d"
| "ef_payload (NtsCookie d) = d"
| "ef_payload (NtsCookiePlaceholder n) = replicate (unat n) 0"
| "ef_payload InvalidNtsEncryptedField = []"
| "ef_payload (DraftIdentification d) = d"
| "ef_payload (Padding n) = replicate (n - 4) 0"
| "ef_payload (RefIdRequest r) = u16_to_be (rid_offset r) @ replicate (unat (rid_payload_len r) - 2) 0"
| "ef_payload (RefIdResponse r) = response_bytes r"
| "ef_payload (UnknownField t d) = d"

text \<open>Fields the serialiser accepts; the bound keeps the padded length within its 16 bits.\<close>

definition ef_ok :: "ext_version \<Rightarrow> ext_field \<Rightarrow> bool" where
  "ef_ok version f \<longleftrightarrow> length (ef_payload f) \<le> 65528 \<and>
     (case f of
        InvalidNtsEncryptedField \<Rightarrow> False
      | Padding n \<Rightarrow> 4 \<le> n
      | RefIdRequest r \<Rightarrow> 4 \<le> unat (rid_payload_len r) \<and> unat (rid_payload_len r) mod 4 = 0
      | RefIdResponse r \<Rightarrow> version = EfV5 \<or> length (response_bytes r) mod 4 = 0
      | _ \<Rightarrow> True)"

fun ef_minimum :: "ext_field \<Rightarrow> nat \<Rightarrow> nat" where
  "ef_minimum (RefIdRequest r) m = 0"
| "ef_minimum (RefIdResponse r) m = 0"
| "ef_minimum _ m = m"

definition ef_total :: "ext_field \<Rightarrow> nat \<Rightarrow> nat" where
  "ef_total f m = next_multiple_of_usize (max (length (ef_payload f) + 4) (ef_minimum f m)) 4"

definition ef_length :: "ext_field \<Rightarrow> nat \<Rightarrow> ext_version \<Rightarrow> nat" where
  "ef_length f m version =
     (if version = EfV4 then ef_total f m else max (length (ef_payload f) + 4) (ef_minimum f m))"

definition ef_wire :: "ext_field \<Rightarrow> nat \<Rightarrow> ext_version \<Rightarrow> bytes" where
  "ef_wire f m version =
     u16_to_be (to_type_id (ef_type f)) @ u16_to_be (of_nat (ef_length f m version)) @
     ef_payload f @ replicate (ef_total f m - length (ef_payload f) - 4) 0"

lemma ef_total_bounds:
  "length (ef_payload f) + 4 \<le> ef_total f m" "ef_total f m mod 4 = 0"
  "ef_ok v f \<Longrightarrow> m \<le> 65532 \<Longrightarrow> ef_total f m \<le> 65532"
  "ef_length f m version \<le> ef_total f m" "length (ef_payload f) + 4 \<le> ef_length f m version"
proof -
  let ?l = "max (length (ef_payload f) + 4) (ef_minimum f m)"
  show "length (ef_payload f) + 4 \<le> ef_total f m" "ef_total f m mod 4 = 0"
    "ef_length f m version \<le> ef_total f m" "length (ef_payload f) + 4 \<le> ef_length f m version"
    using next_multiple_bounds [of ?l] by (auto simp: ef_total_def ef_length_def)
  assume "ef_ok v f" "m \<le> 65532"
  then have "?l \<le> 65532" by (cases f) (auto simp: ef_ok_def)
  then show "ef_total f m \<le> 65532"
    unfolding ef_total_def next_multiple_of_usize_def by presburger
qed

lemma length_ef_wire [simp]: "length (ef_wire f m version) = ef_total f m"
  using ef_total_bounds(1) [of f m] by (simp add: ef_wire_def)

lemma framing_writes:
  assumes "n \<le> 65528" "m \<le> 65532"
  shows "writes (encode_framing t n (of_nat m) version)
    (u16_to_be (to_type_id t) @ u16_to_be (of_nat
      (if version = EfV4 then next_multiple_of_usize (max (n + 4) m) 4 else max (n + 4) m)))"
proof -
  have "max (of_nat a) (of_nat b) = (of_nat (max a b) :: u16)" if "a < 65536" "b < 65536" for a b
    using that by (simp add: max_def word_le_nat_alt unsigned_of_nat take_bit_nat_eq_self)
  from this [of "n + 4" m] have mx: "max (of_nat n + 4) (of_nat m) = (of_nat (max (n + 4) m) :: u16)"
    using assms by (simp add: add.commute)
  have l: "max (n + 4) m \<le> 65532" using assms by simp
  then have "next_multiple_of_usize (max (n + 4) m) 4 \<le> 65532"
    unfolding next_multiple_of_usize_def by presburger
  then have "next_multiple_of_u16 (of_nat (max (n + 4) m)) 4 = of_nat (next_multiple_of_usize (max (n + 4) m) 4)"
    using next_multiple_u16 [OF l] by (simp add: word_unat_eq_iff unsigned_of_nat take_bit_nat_eq_self)
  then show ?thesis
    using assms writes_seq_Cons [OF writes_write_all writes_seq_single [OF writes_write_all]]
    by (simp add: encode_framing_def mx HEADER_LENGTH_def Let_def del: write_seq.simps)
qed

lemma framed_writes:
  assumes "length d \<le> 65528" "m \<le> 65532" "writes g d"
  shows "writes (write_seq [encode_framing t (length d) (of_nat m) version, g, encode_padding (length d) (of_nat m)])
    (u16_to_be (to_type_id t) @ u16_to_be (of_nat
        (if version = EfV4 then next_multiple_of_usize (max (length d + 4) m) 4 else max (length d + 4) m)) @
     d @ replicate (next_multiple_of_usize (max (length d + 4) m) 4 - length d - 4) 0)"
proof -
  have "unat (of_nat m :: u16) = m" using assms(2) by (simp add: unsigned_of_nat take_bit_nat_eq_self)
  then have "writes (encode_padding (length d) (of_nat m))
      (replicate (next_multiple_of_usize (max (length d + 4) m) 4 - length d - 4) 0)"
    using assms writes_write_zeros by (simp add: encode_padding_def HEADER_LENGTH_def Let_def)
  from writes_seq_Cons [OF framing_writes [OF assms(1,2)]
      writes_seq_Cons [OF assms(3) writes_seq_single [OF this]]]
  show ?thesis by simp
qed

lemma rid_request_writes:
  assumes "ef_ok version (RefIdRequest r)"
  shows "writes (rid_request_serialize r) (ef_wire (RefIdRequest r) m version)"
proof -
  let ?p = "rid_payload_len r"
  have p: "4 \<le> unat ?p" "unat ?p mod 4 = 0" "unat ?p \<le> 65528" using assms by (auto simp: ef_ok_def)
  have z: "?p mod 4 = 0" using p(2) by (simp add: word_unat_eq_iff unat_mod_distrib)
  have w: "unat (?p div 4) = unat ?p div 4" by (simp add: unat_div_distrib)
  have t: "ef_total (RefIdRequest r) m = unat ?p + 4"
    using p by (simp add: ef_total_def next_multiple_of_usize_def mod_add_eq [symmetric])
  have l: "of_nat (ef_length (RefIdRequest r) m version) = ?p + 4"
    using p t by (simp add: ef_length_def)
  have zs: "[0, 0] @ concat (replicate k [0, 0, 0, 0]) = (replicate (4 * k + 2) 0 :: bytes)" for k
    by (induction k) (simp_all add: numeral_eq_Suc)
  have e: "unat ?p - 2 = Suc (Suc (4 * (unat ?p div 4 - Suc 0)))" using p by presburger
  have le: "unat ?p \<le> 4 * (unat ?p div 4 - Suc 0) + 4" using p by presburger
  have "writes (rid_request_serialize r) (concat ([u16_to_be (to_type_id TReferenceIdRequest),
      u16_to_be (?p + 4), u16_to_be (rid_offset r), [0, 0]] @ replicate (unat ?p div 4 - 1) [0, 0, 0, 0]))"
    using write_seq_map_write_all [of "[u16_to_be (to_type_id TReferenceIdRequest),
      u16_to_be (?p + 4), u16_to_be (rid_offset r), [0, 0]] @ replicate (unat ?p div 4 - 1) [0, 0, 0, 0]"]
    by (simp add: rid_request_serialize_def z w Let_def del: write_seq.simps)
  moreover have "concat ([u16_to_be (to_type_id TReferenceIdRequest),
      u16_to_be (?p + 4), u16_to_be (rid_offset r), [0, 0]] @ replicate (unat ?p div 4 - 1) [0, 0, 0, 0]) =
      ef_wire (RefIdRequest r) m version"
    using zs [of "unat ?p div 4 - 1"] p le
    by (simp add: ef_wire_def l t e del: to_be.simps)
  ultimately show ?thesis by simp
qed


lemma rid_response_writes:
  assumes "ef_ok version (RefIdResponse r)"
  shows "writes (rid_response_serialize r) (ef_wire (RefIdResponse r) m version)" 
proof -
  let ?d = "response_bytes r" and ?n = "length (response_bytes r)"
  have n: "?n \<le> 65528" using assms by (simp add: ef_ok_def)
  have len: "unat (of_nat ?n + 4 :: u16) = ?n + 4"
    using n by (simp add: unat_word_ariths unsigned_of_nat take_bit_nat_eq_self)
  then have m4: "unat ((of_nat ?n + 4 :: u16) mod 4) = (?n + 4) mod 4" by (simp add: unat_mod_distrib)
  have t: "ef_total (RefIdResponse r) m = next_multiple_of_usize (?n + 4) 4" by (simp add: ef_total_def)
  have l: "of_nat (ef_length (RefIdResponse r) m version) = (of_nat ?n + 4 :: u16)"
    using assms by (auto simp: ef_length_def ef_ok_def t next_multiple_of_usize_def)
  show ?thesis
  proof (cases "?n mod 4 = 0")
    case True
    then have "(of_nat ?n + 4 :: u16) mod 4 = 0" using m4 by (simp add: word_unat_eq_iff)
    with True n show ?thesis
      using write_seq_map_write_all [of "[u16_to_be (to_type_id TReferenceIdResponse),
        u16_to_be (of_nat ?n + 4), ?d]"]
      by (simp add: rid_response_serialize_def ef_wire_def l t next_multiple_of_usize_def Let_def
          del: write_seq.simps to_be.simps)
  next
    case False
    then have z: "(of_nat ?n + 4 :: u16) mod 4 \<noteq> 0" using m4 by (simp add: word_unat_eq_iff)
    have "unat (4 - (of_nat ?n + 4 :: u16) mod 4) = 4 - ?n mod 4"
      using m4 by (simp add: unat_sub_if')
    then have p: "replicate (unat (4 - (of_nat ?n + 4 :: u16) mod 4)) 0 =
        (replicate (ef_total (RefIdResponse r) m - ?n - 4) 0 :: bytes)"
      using False by (simp add: t next_multiple_of_usize_def)
    have "writes (rid_response_serialize r) (concat [u16_to_be (to_type_id TReferenceIdResponse),
        u16_to_be (of_nat ?n + 4), ?d, replicate (ef_total (RefIdResponse r) m - ?n - 4) 0])"
      using z n write_seq_map_write_all [of "[u16_to_be (to_type_id TReferenceIdResponse),
        u16_to_be (of_nat ?n + 4), ?d, replicate (ef_total (RefIdResponse r) m - ?n - 4) 0]"]
      by (simp only: rid_response_serialize_def Let_def p) (simp del: write_seq.simps to_be.simps)
    then show ?thesis by (simp add: ef_wire_def l del: to_be.simps)
  qed
qed

lemma ef_serialize_writes:
  assumes "ef_ok version f" "m \<le> 65532"
  shows "writes (ef_serialize f (of_nat m) version) (ef_wire f m version)"
proof -
  have w: "writes (write_seq [encode_framing (ef_type f) (length (ef_payload f)) (of_nat m) version, g,
      encode_padding (length (ef_payload f)) (of_nat m)]) (ef_wire f m version)"
    if "writes g (ef_payload f)" "ef_minimum f m = m" for g
    using framed_writes [OF _ assms(2) that(1), of "ef_type f" version] assms(1) that(2)
    by (cases version) (simp_all add: ef_ok_def ef_wire_def ef_total_def ef_length_def
        del: write_seq.simps to_be.simps)
  show ?thesis
  proof (cases f)
    case (NtsCookiePlaceholder n)
    then show ?thesis
      using w [of "write_zeros (unat n)"] writes_write_zeros
      by (simp add: encode_nts_cookie_placeholder_def del: write_seq.simps)
  next
    case (Padding n)
    then show ?thesis
      using w [of "write_zeros (n - 4)"] writes_write_zeros assms(1)
      by (simp add: encode_padding_field_def HEADER_LENGTH_def ef_ok_def del: write_seq.simps)
  next
    case (RefIdRequest r)
    then show ?thesis using rid_request_writes assms(1) by simp
  next
    case (RefIdResponse r)
    then show ?thesis using rid_response_writes assms(1) by simp
  qed (use assms(1) w [OF writes_write_all] in \<open>simp_all add: encode_unique_identifier_def encode_nts_cookie_def
      encode_draft_identification_def encode_unknown_def ef_ok_def del: write_seq.simps\<close>)
qed

section \<open>Reading what was written\<close>

definition ef_message :: "ext_field \<Rightarrow> nat \<Rightarrow> ext_version \<Rightarrow> bytes" where
  "ef_message f m version = ef_payload f @ replicate (ef_length f m version - length (ef_payload f) - 4) 0"

definition ef_raw :: "ext_field \<Rightarrow> nat \<Rightarrow> ext_version \<Rightarrow> raw_ext_field" where
  "ef_raw f m version =
     \<lparr>raw_type_id = from_type_id (to_type_id (ef_type f)), message_bytes = ef_message f m version\<rparr>"

lemma next_multiple_idem: "l mod 4 = 0 \<Longrightarrow> next_multiple_of_usize l 4 = l"
  by (simp add: next_multiple_of_usize_def)

lemma ef_total_length: "next_multiple_of_usize (ef_length f m version) 4 = ef_total f m"
  using ef_total_bounds(2) [of f m] by (auto simp: ef_length_def next_multiple_idem ef_total_def)

lemma length_ef_message: "length (ef_message f m version) = ef_length f m version - 4"
  using ef_total_bounds(5) [of f m version] by (simp add: ef_message_def)

lemma raw_wire_length_ef_raw: "raw_wire_length (ef_raw f m version) = ef_total f m"
  using ef_total_bounds(5) [of f m version] ef_total_length [of f m version]
  by (simp add: raw_wire_length_def ef_raw_def length_ef_message)

lemma raw_deserialize_wire:
  assumes "ef_ok version f" "m \<le> 65532"
  shows "raw_deserialize (ef_wire f m version @ rest) 4 version = Inr (ef_raw f m version)"
proof -
  let ?l = "ef_length f m version" and ?p = "ef_payload f" and ?t = "ef_total f m"
  let ?data = "ef_wire f m version @ rest"
  note b = ef_total_bounds [where f = f and m = m]
  have t: "?t \<le> 65532" using b(3) assms by blast
  then have l: "unat (of_nat ?l :: u16) = ?l" 
    using b(4) [where version = version] by (simp add: unsigned_of_nat take_bit_nat_eq_self)
  have s0: "from_be (slice 0 2 ?data) = to_type_id (ef_type f)"
    by (simp add: ef_wire_def slice_def del: to_be.simps)
  have s2: "from_be (slice 2 4 ?data) = (of_nat ?l :: u16)"
    by (simp add: ef_wire_def slice_def del: to_be.simps)
  have len: "length ?data = ?t + length rest" by simp
  have "slice 4 ?l ?data = take (?l - 4) (?p @ replicate (?t - length ?p - 4) 0 @ rest)"
    by (simp add: ef_wire_def slice_def del: to_be.simps)
  also have "\<dots> = ef_message f m version"
    using b(1) b(4,5) [where version = version] by (auto simp: ef_message_def min_def add.commute)
  finally have msg: "slice 4 ?l ?data = ef_message f m version" .
  have v4: "\<not> (version = EfV4 \<and> ?l mod 4 \<noteq> 0)" using b(2) by (simp add: ef_length_def)
  have "4 \<le> ?l" using b(5) [where version = version] by simp
  then show ?thesis
    using v4 b(1) b(4) [where version = version] len
    by (simp add: raw_deserialize_def s0 s2 l Let_def get_range_def ef_total_length msg ef_raw_def
        del: slice_append_left)
qed

lemma raw_sequence_end:
  "length buffer \<le> off + cutoff \<Longrightarrow> raw_sequence buffer cutoff minimum version off = []"
  by (subst raw_sequence.simps) auto

lemma raw_sequence_wire:
  assumes "ef_ok version f" "m \<le> 65532" "cutoff < length (ef_wire f m version @ rest)"
  shows "(raw_sequence (pre @ ef_wire f m version @ rest) cutoff 4 version (length pre) ::
      ('t parsing_error + _) list) =
    Inr (length pre, ef_raw f m version) #
    raw_sequence (pre @ ef_wire f m version @ rest) cutoff 4 version (length (pre @ ef_wire f m version))"
  using assms raw_deserialize_wire [OF assms(1,2), of rest, where ?'a = 't]
  by (subst raw_sequence.simps) (simp add: raw_wire_length_ef_raw)

text \<open>The field a reader gets for a field that was written with a minimum size.\<close>

definition ef_reads :: "nat \<Rightarrow> ext_version \<Rightarrow> ext_field \<Rightarrow> ext_field \<Rightarrow> bool" where
  "ef_reads m version f g \<longleftrightarrow>
     ef_ok version f \<and> raw_type_id (ef_raw f m version) \<noteq> TNtsEncryptedField \<and>
     ef_decode (ef_raw f m version) version = (Inr g :: unit parsing_error + ext_field)"

text \<open>Decoding does not depend on the type of the decryption errors.\<close>

lemma ef_decode_poly:
  "ef_decode raw version = (Inr g :: 't parsing_error + ext_field) \<longleftrightarrow>
   ef_decode raw version = (Inr g :: 'u parsing_error + ext_field)"
  by (auto simp: ef_decode_def decode_nts_cookie_placeholder_def decode_draft_identification_def
      rid_request_decode_def Let_def result_simps split: ext_type_id.splits if_splits)

lemma type_id_roundtrip: "t \<noteq> TUnknown u \<Longrightarrow> (\<And>v. t \<noteq> TUnknown v) \<Longrightarrow> from_type_id (to_type_id t) = t"
  by (cases t) (simp_all add: from_type_id_def)

text \<open>An NTPv5 field that is not shorter than the minimum reads back exactly.\<close>

definition ef_exact :: "ext_field \<Rightarrow> bool" where
  "ef_exact f \<longleftrightarrow> ef_ok EfV5 f \<and>
     (case f of
        Padding n \<Rightarrow> False
      | DraftIdentification d \<Rightarrow> list_all (\<lambda>b. b < 128) d
      | UnknownField t d \<Rightarrow> from_type_id t = TUnknown t
      | _ \<Rightarrow> True)"

lemma ef_reads_exact:
  assumes "ef_exact f" "ef_minimum f m \<le> length (ef_payload f) + 4"
  shows "ef_reads m EfV5 f f"
proof -
  have msg: "ef_message f m EfV5 = ef_payload f" using assms(2) by (simp add: ef_message_def ef_length_def)
  have raw: "ef_raw f m EfV5 =
      \<lparr>raw_type_id = from_type_id (to_type_id (ef_type f)), message_bytes = ef_payload f\<rparr>"
    by (simp add: ef_raw_def msg)
  show ?thesis
    unfolding ef_reads_def raw using assms(1)
    by (cases f) (auto simp: ef_exact_def ef_decode_def from_type_id_def
        decode_nts_cookie_placeholder_def decode_draft_identification_def rid_request_decode_def
        list_ex_iff get_range_def slice_def ef_ok_def Let_def result_simps split: if_splits)
qed

section \<open>What the parser authenticates\<close>

fun plain_field :: "ext_version \<Rightarrow> nat \<times> raw_ext_field \<Rightarrow> ext_field list" where
  "plain_field version (off, raw) =
     (if raw_type_id raw = TNtsEncryptedField then []
      else case ef_decode raw version of Inl (_ :: unit parsing_error) \<Rightarrow> [] | Inr f \<Rightarrow> [f])"

definition plain_fields :: "ext_version \<Rightarrow> (nat \<times> raw_ext_field) list \<Rightarrow> ext_field list" where
  "plain_fields version items = concat (map (plain_field version) items)"

lemma plain_fields_simps [simp]:
  "plain_fields version [] = []"
  "plain_fields version (it # items) = plain_field version it @ plain_fields version items"
  by (simp_all add: plain_fields_def)

text \<open>The item at \<open>off\<close> is an encrypted field that opens with the packet up to it as associated data.\<close>

definition opens_at :: "aead \<Rightarrow> cipher_provider \<Rightarrow> bytes \<Rightarrow> nat \<Rightarrow> nat \<times> raw_ext_field \<Rightarrow> cipher_holder \<Rightarrow> bool" where
  "opens_at A provider data header_size item holder \<longleftrightarrow>
     (case item of (off, raw) \<Rightarrow>
        raw_type_id raw = TNtsEncryptedField \<and> (\<exists>context. provider context = Some holder) \<and>
        (\<exists>enc plaintext. from_message_bytes (message_bytes raw) = (Inr enc :: unit parsing_error + _) \<and>
           cipher_decrypt A (holder_cipher holder) (enc_nonce enc) (enc_ciphertext enc)
             (take (header_size + off) data) = Some plaintext))"

lemma from_message_bytes_poly:
  "from_message_bytes m = (Inr e :: 't parsing_error + _) \<longleftrightarrow>
   from_message_bytes m = (Inr e :: 'u parsing_error + _)"
  by (auto simp: from_message_bytes_def result_simps Let_def split: if_splits)

lemma ef_loop_step_valid:
  assumes "ef_loop_step A provider data hs version (off, raw) st = (Inr st' :: 't parsing_error + _)" "lp_valid_nts st'"
  shows "lp_valid_nts st \<and>
    (if raw_type_id raw = TNtsEncryptedField
     then \<exists>holder. opens_at A provider data hs (off, raw) holder \<and>
       authenticated (lp_efdata st') = authenticated (lp_efdata st) @ untrusted (lp_efdata st) \<and>
       untrusted (lp_efdata st') = [] \<and>
       lp_cookie st' = (case holder of HDecodedServerCookie c \<Rightarrow> Some c | HOther _ \<Rightarrow> None)
     else lp_efdata st' = (lp_efdata st)\<lparr>untrusted := untrusted (lp_efdata st) @ plain_field version (off, raw)\<rparr> \<and>
       lp_cookie st' = lp_cookie st)"
proof (cases "raw_type_id raw = TNtsEncryptedField")
  case False
  with assms(1) obtain g where "ef_decode raw version = (Inr g :: 't parsing_error + _)"
    by (auto simp: ef_loop_step_def Let_def result_simps)
  moreover from this have "ef_decode raw version = (Inr g :: unit parsing_error + _)"
    by (simp add: ef_decode_poly [where ?'t = unit and ?'u = 't])
  ultimately show ?thesis
    using False assms by (auto simp: ef_loop_step_def Let_def ef_push_def)
next
  case True
  with assms(1) obtain enc where enc: "from_message_bytes (message_bytes raw) = (Inr enc :: 't parsing_error + _)"
    by (auto simp: ef_loop_step_def Let_def result_simps)
  show ?thesis
    using assms True enc from_message_bytes_poly [of "message_bytes raw" enc, where ?'t = unit and ?'u = 't]
    by (auto simp: ef_loop_step_def Let_def result_simps ef_push_def opens_at_def raw_decrypt_def
        split: option.splits sum.splits)
qed

lemma ef_loop_valid:
  assumes "ef_loop A provider data hs version (map Inr items) st = (Inr st' :: 't parsing_error + _)" "lp_valid_nts st'"
  shows "lp_valid_nts st \<and>
    (lp_efdata st' = (lp_efdata st)\<lparr>untrusted := untrusted (lp_efdata st) @ plain_fields version items\<rparr> \<and>
       lp_cookie st' = lp_cookie st \<or>
     (\<exists>items1 item items2 holder. items = items1 @ item # items2 \<and>
        opens_at A provider data hs item holder \<and>
        authenticated (lp_efdata st') =
          authenticated (lp_efdata st) @ untrusted (lp_efdata st) @ plain_fields version items1 \<and>
        untrusted (lp_efdata st') = plain_fields version items2 \<and>
        lp_cookie st' = (case holder of HDecodedServerCookie c \<Rightarrow> Some c | HOther _ \<Rightarrow> None)))"
  using assms(1)
proof (induction items arbitrary: st)
  case Nil
  with assms(2) show ?case by auto
next
  case (Cons item items)
  obtain off raw where item: "item = (off, raw)" by (cases item)
  obtain st1 where st1: "ef_loop_step A provider data hs version (off, raw) st = (Inr st1 :: 't parsing_error + _)"
    "ef_loop A provider data hs version (map Inr items) st1 = (Inr st' :: 't parsing_error + _)"
    using Cons.prems by (auto simp: result_simps item)
  note IH = Cons.IH [OF st1(2)]
  then have "lp_valid_nts st1" by simp
  note step = ef_loop_step_valid [OF st1(1) this]
  show ?case
  proof (cases "raw_type_id raw = TNtsEncryptedField")
    case True
    with step obtain holder where h: "lp_valid_nts st" "opens_at A provider data hs (off, raw) holder"
      "authenticated (lp_efdata st1) = authenticated (lp_efdata st) @ untrusted (lp_efdata st)"
      "untrusted (lp_efdata st1) = []"
      "lp_cookie st1 = (case holder of HDecodedServerCookie c \<Rightarrow> Some c | HOther _ \<Rightarrow> None)"
      by auto
    from IH show ?thesis
    proof (elim conjE disjE exE)
      assume "lp_efdata st' = (lp_efdata st1)\<lparr>untrusted := untrusted (lp_efdata st1) @ plain_fields version items\<rparr>"
        "lp_cookie st' = lp_cookie st1"
      with h item show ?thesis
        by (intro conjI disjI2 exI [of _ "[]"] exI [of _ item] exI [of _ items] exI [of _ holder]) simp_all
    next
      fix items1 it items2 hd
      assume "items = items1 @ it # items2" "opens_at A provider data hs it hd"
        "authenticated (lp_efdata st') =
          authenticated (lp_efdata st1) @ untrusted (lp_efdata st1) @ plain_fields version items1"
        "untrusted (lp_efdata st') = plain_fields version items2"
        "lp_cookie st' = (case hd of HDecodedServerCookie c \<Rightarrow> Some c | HOther _ \<Rightarrow> None)"
      with h item True show ?thesis
        by (intro conjI disjI2 exI [of _ "item # items1"] exI [of _ it] exI [of _ items2] exI [of _ hd]) simp_all
    qed
  next
    case False
    with step have h: "lp_valid_nts st"
      "lp_efdata st1 = (lp_efdata st)\<lparr>untrusted := untrusted (lp_efdata st) @ plain_field version (off, raw)\<rparr>"
      "lp_cookie st1 = lp_cookie st" by auto
    from IH show ?thesis
    proof (elim conjE disjE exE)
      assume "lp_efdata st' = (lp_efdata st1)\<lparr>untrusted := untrusted (lp_efdata st1) @ plain_fields version items\<rparr>"
        "lp_cookie st' = lp_cookie st1"
      with h item show ?thesis by simp
    next
      fix items1 it items2 hd
      assume "items = items1 @ it # items2" "opens_at A provider data hs it hd"
        "authenticated (lp_efdata st') =
          authenticated (lp_efdata st1) @ untrusted (lp_efdata st1) @ plain_fields version items1"
        "untrusted (lp_efdata st') = plain_fields version items2"
        "lp_cookie st' = (case hd of HDecodedServerCookie c \<Rightarrow> Some c | HOther _ \<Rightarrow> None)"
      with h item show ?thesis
        by (intro conjI disjI2 exI [of _ "item # items1"] exI [of _ it] exI [of _ items2] exI [of _ hd]) simp_all
    qed
  qed
qed

lemma ef_loop_all_Inr:
  "ef_loop A provider data hs version items st = Inr st' \<Longrightarrow> \<exists>its. items = map Inr its"
proof (induction items arbitrary: st)
  case (Cons item items)
  then obtain it st1 where "item = Inr it" "ef_loop A provider data hs version items st1 = Inr st'"
    by (auto simp: result_simps)
  with Cons.IH obtain its where "items = map Inr its" by blast
  with \<open>item = Inr it\<close> show ?case by (intro exI [of _ "it # its"]) simp
qed simp

text \<open>Fields lie one behind the other, and an item is read from the bytes at its offset.\<close>

lemma raw_sequence_Cons:
  assumes "raw_sequence b cutoff m version off = (Inr (o1, r) # rest :: ('t parsing_error + _) list)"
  shows "o1 = off \<and> raw_deserialize (drop off b) m version = (Inr r :: 't parsing_error + _) \<and>
    rest = raw_sequence b cutoff m version (off + raw_wire_length r)"
  using assms raw_sequence.simps [of b cutoff m version off, where ?'a = 't]
  by (auto split: if_splits sum.splits)

lemma raw_sequence_offset_ge:
  assumes "raw_sequence b cutoff m version off = (map Inr items :: ('t parsing_error + _) list)"
    "(o1, r) \<in> set items"
  shows "off \<le> o1 \<and> raw_deserialize (drop o1 b) m version = (Inr r :: 't parsing_error + _)"
  using assms
proof (induction items arbitrary: off)
  case (Cons item items)
  obtain o2 r2 where item: "item = (o2, r2)" by (cases item)
  from Cons.prems(1) have s: "o2 = off" "raw_deserialize (drop off b) m version = (Inr r2 :: 't parsing_error + _)"
    "raw_sequence b cutoff m version (off + raw_wire_length r2) = (map Inr items :: ('t parsing_error + _) list)"
    using raw_sequence_Cons [of b cutoff m version off o2 r2, where ?'t = 't] by (simp_all add: item)
  with Cons.IH [OF s(3)] Cons.prems(2) item show ?case by auto
qed simp

lemma raw_sequence_offsets:
  assumes "raw_sequence b cutoff m version off = (map Inr (items1 @ (o2, r2) # items2) :: ('t parsing_error + _) list)"
    "(o1, r1) \<in> set items1"
  shows "o1 + raw_wire_length r1 \<le> o2"
  using assms
proof (induction items1 arbitrary: off)
  case (Cons item items1)
  obtain o3 r3 where item: "item = (o3, r3)" by (cases item)
  from Cons.prems(1) have s: "o3 = off"
    "raw_sequence b cutoff m version (off + raw_wire_length r3) =
      (map Inr (items1 @ (o2, r2) # items2) :: ('t parsing_error + _) list)"
    using raw_sequence_Cons [of b cutoff m version off o3 r3, where ?'t = 't] by (simp_all add: item)
  show ?case
  proof (cases "(o1, r1) \<in> set items1")
    case True
    with Cons.IH [OF s(2)] show ?thesis by simp
  next
    case False
    with Cons.prems(2) item s(1) have "o1 = off" "r1 = r3" by auto
    with raw_sequence_offset_ge [OF s(2), of o2 r2] show ?thesis by simp
  qed
qed simp

lemma covered_fields:
  assumes "efdata_deserialize A data hs provider version = Inr r"
    "authenticated (def_efdata r) \<noteq> [] \<or> encrypted (def_efdata r) \<noteq> [] \<or> def_cookie r \<noteq> None"
  shows "\<exists>items1 off raw items2 holder.
    raw_sequence (drop hs data) (case version of EfV4 \<Rightarrow> 24 | EfV5 \<Rightarrow> 0) 4 version 0 =
      (map Inr (items1 @ (off, raw) # items2) :: (invalid_nts_ext_field parsing_error + _) list) \<and>
    opens_at A provider data hs (off, raw) holder \<and>
    authenticated (def_efdata r) = plain_fields version items1 \<and>
    untrusted (def_efdata r) = plain_fields version items2 \<and>
    (\<forall>(o1, r1) \<in> set items1. o1 + raw_wire_length r1 \<le> off) \<and>
    def_cookie r = (case holder of HDecodedServerCookie c \<Rightarrow> Some c | HOther _ \<Rightarrow> None)"
proof -
  let ?seq = "raw_sequence (drop hs data) (case version of EfV4 \<Rightarrow> 24 | EfV5 \<Rightarrow> 0) 4 version 0 ::
    (invalid_nts_ext_field parsing_error + _) list"
  let ?st0 = "\<lparr>lp_efdata = ext_field_data_default, lp_size = 0, lp_valid_nts = True, lp_cookie = None\<rparr>"
  obtain st where st: "ef_loop A provider data hs version ?seq ?st0 = Inr st" "lp_valid_nts st"
    "def_efdata r = lp_efdata st" "def_cookie r = lp_cookie st"
    using assms(1)
    by (cases version)
      (auto simp: efdata_deserialize_def Let_def result_simps MAC_MAXIMUM_SIZE_def split: if_splits)
  obtain items where items: "?seq = map Inr items" using ef_loop_all_Inr [OF st(1)] by blast
  note v = ef_loop_valid [OF st(1) [unfolded items] st(2)]
  then obtain items1 item items2 holder where i: "items = items1 @ item # items2"
    "opens_at A provider data hs item holder"
    "authenticated (lp_efdata st) = plain_fields version items1"
    "untrusted (lp_efdata st) = plain_fields version items2"
    "lp_cookie st = (case holder of HDecodedServerCookie c \<Rightarrow> Some c | HOther _ \<Rightarrow> None)"
    using assms(2) st(3,4) by (auto simp: ext_field_data_default_def)
  obtain off raw where item: "item = (off, raw)" by (cases item)
  show ?thesis
    using i st(3,4) items raw_sequence_offsets [OF items [unfolded i(1) item]] item
    by (intro exI [of _ items1] exI [of _ off] exI [of _ raw] exI [of _ items2] exI [of _ holder]) auto
qed

text \<open>
  C11: nothing counts as authenticated without the cipher's consent. When the parser accepts the
  fields of a packet and reports authenticated or encrypted ones (or a decoded cookie), the packet
  contains an encrypted field that the cipher of some provider answer opened with every byte of the
  packet before it as associated data; the authenticated fields are exactly the plain fields in
  front of it, all of which lie within that associated data, and the untrusted ones are exactly
  the plain fields behind it.
\<close>
theorem authenticated_fields_are_covered:
  assumes "efdata_deserialize A data hs provider version = Inr r"
    "authenticated (def_efdata r) \<noteq> [] \<or> encrypted (def_efdata r) \<noteq> [] \<or> def_cookie r \<noteq> None"
  shows "\<exists>items1 off raw items2 holder.
    raw_sequence (drop hs data) (case version of EfV4 \<Rightarrow> 24 | EfV5 \<Rightarrow> 0) 4 version 0 =
      (map Inr (items1 @ (off, raw) # items2) :: (invalid_nts_ext_field parsing_error + _) list) \<and>
    opens_at A provider data hs (off, raw) holder \<and>
    authenticated (def_efdata r) = plain_fields version items1 \<and>
    untrusted (def_efdata r) = plain_fields version items2 \<and>
    (\<forall>(o1, r1) \<in> set items1. o1 + raw_wire_length r1 \<le> off) \<and>
    def_cookie r = (case holder of HDecodedServerCookie c \<Rightarrow> Some c | HOther _ \<Rightarrow> None)"
  using assms by (rule covered_fields)

section \<open>Writing the encrypted field\<close>

definition appends :: "cursor \<Rightarrow> cursor \<Rightarrow> bytes \<Rightarrow> bool" where
  "appends w w' d \<longleftrightarrow> cur_pos w' = cur_pos w + length d \<and> length (cur_buf w') = length (cur_buf w) \<and>
     cur_pos w' \<le> length (cur_buf w') \<and> take (cur_pos w') (cur_buf w') = take (cur_pos w) (cur_buf w) @ d"

lemma writes_appends:
  "writes f d \<Longrightarrow> f w = Inr w' \<Longrightarrow> cur_pos w \<le> length (cur_buf w) \<Longrightarrow> appends w w' d"
  using writes_success [of f d w w'] by (simp add: appends_def)

lemma appends_trans: "appends w w1 d \<Longrightarrow> appends w1 w2 e \<Longrightarrow> appends w w2 (d @ e)"
  unfolding appends_def by auto

lemma appends_le: "appends w w' d \<Longrightarrow> cur_pos w' \<le> length (cur_buf w')"
  by (simp add: appends_def)

lemma writes_seq_map:
  "(\<And>x. x \<in> set xs \<Longrightarrow> writes (f x) (d x)) \<Longrightarrow> writes (write_seq (map f xs)) (concat (map d xs))"
proof (induction xs)
  case Nil
  show ?case by (rule writesI) simp
next
  case (Cons x xs)
  then show ?case using writes_seq_Cons [of "f x" "d x" "map f xs"] by (simp del: write_seq.simps)
qed

lemma take_prefix_eq: "take n xs = take m ys @ d \<Longrightarrow> m \<le> n \<Longrightarrow> m \<le> length ys \<Longrightarrow> take m xs = take m ys"
  by (metis append_eq_conv_conj length_take min.absorb2 take_take min_def)

definition encrypted_wire :: "bytes \<Rightarrow> bytes \<Rightarrow> bytes" where
  "encrypted_wire nonce ct =
     u16_to_be 0x404 @ u16_to_be (of_nat (8 + length nonce + length ct)) @
     u16_to_be (of_nat (length nonce)) @ u16_to_be (of_nat (length ct)) @ nonce @ ct"

lemma length_encrypted_wire [simp]: "length (encrypted_wire nonce ct) = 8 + length nonce + length ct"
  by (simp add: encrypted_wire_def)

lemma wire_multiple_4: "length (concat (map (\<lambda>f. ef_wire f m version) fs)) mod 4 = 0"
proof (induction fs)
  case (Cons f fs)
  then show ?case using ef_total_bounds(2) [of f m] by (simp add: mod_add_eq [symmetric, of "ef_total f m"])
qed simp

lemma copy_within_id: "b \<le> length xs \<Longrightarrow> a \<le> b \<Longrightarrow> copy_within a b a xs = xs"
  using splice_own_slice [of a "b - a" xs] by (simp add: copy_within_def)

lemma encode_encrypted_appends:
  assumes ok: "\<forall>f \<in> set fs. ef_ok version f" and n: "length nonce = 16" and A: "aead_overhead A"
    and w: "cur_pos w \<le> length (cur_buf w)"
    and enc: "encode_encrypted A nonce fs c version w = Inr w'"
  defines "pt \<equiv> concat (map (\<lambda>f. ef_wire f 0 version) fs)"
  defines "ct \<equiv> siv_seal A c nonce (take (cur_pos w) (cur_buf w)) pt"
  shows "appends w w' (encrypted_wire nonce ct)"
proof -
  let ?p = "cur_pos w" and ?buf = "cur_buf w"
  let ?h = "[u16_to_be (to_type_id TNtsEncryptedField), [0, 0], [0, 0], [0, 0]]"
  have wh: "writes (write_seq (map write_all ?h)) (concat ?h)" by (rule write_seq_map_write_all)
  have ws: "writes (write_seq (map (\<lambda>f. ef_serialize f 0 version) fs)) pt"
    unfolding pt_def using ok ef_serialize_writes [of version _ 0] by (intro writes_seq_map) simp
  obtain w1 where w1: "write_seq (map write_all ?h) w = Inr w1"
    using enc by (auto simp: encode_encrypted_def Let_def result_simps)
  note a1 = writes_appends [OF wh w1 w]
  then have p1: "cur_pos w1 = ?p + 8" by (simp add: appends_def)
  obtain w2 where w2: "write_seq (map (\<lambda>f. ef_serialize f 0 version) fs) w1 = Inr w2"
    using enc w1 by (auto simp: encode_encrypted_def Let_def result_simps)
  note a2 = writes_appends [OF ws w2 appends_le [OF a1]]
  then have p2: "cur_pos w2 = ?p + 8 + length pt" and l2: "length (cur_buf w2) = length ?buf"
    "?p + 8 + length pt \<le> length ?buf"
    using a1 p1 by (auto simp: appends_def)
  have so_far: "take ?p (cur_buf w2) = take ?p ?buf"
    using appends_trans [OF a1 a2] w by (intro take_prefix_eq) (auto simp: appends_def)
  have plain: "take (length pt) (drop (?p + 8) (cur_buf w2)) = pt"
    using a2 p1 l2 by (auto simp: appends_def take_drop add.commute)
  obtain buf' nl cl where e: "cipher_encrypt A c nonce (drop 8 (drop ?p (cur_buf w2))) (length pt) (take ?p ?buf) =
      Inr (buf', nl, cl)"
    using enc w1 w2 p1 p2 so_far by (auto simp: encode_encrypted_def Let_def result_simps)
  then obtain rest where r: "nl = 16" "cl = length ct" "buf' = nonce @ ct @ rest"
    "length buf' = length ?buf - ?p - 8"
    using plain l2 n by (elim cipher_encrypt_Inr) (simp add: ct_def add.commute)
  define cur where "cur = take 8 (drop ?p (cur_buf w2)) @ nonce @ ct @ rest"
  have lc: "length cur = length ?buf - ?p" "length (take 8 (drop ?p (cur_buf w2))) = 8"
    using r l2 by (auto simp: cur_def)
  have "length ct = length pt + 16" using A by (simp add: ct_def aead_overhead_def)
  moreover have "length pt mod 4 = 0" unfolding pt_def by (rule wire_multiple_4)
  ultimately have m4: "next_multiple_of_usize (length ct) 4 = length ct" "next_multiple_of_usize 16 4 = 16"
    by (simp_all add: next_multiple_of_usize_def mod_add_eq [symmetric, of "length pt"])
  have fits: "24 + length ct \<le> length cur" using lc n by (simp add: cur_def)
  let ?h' = "[u16_to_be (to_type_id TNtsEncryptedField), u16_to_be (of_nat (24 + length ct)),
    u16_to_be (of_nat 16), u16_to_be (of_nat (length ct))]"
  have c1: "copy_within (8 + 16) (8 + 16 + length ct) (8 + 16) cur = cur"
    using fits by (intro copy_within_id) auto
  have fin: "bindR (write_seq (map write_all ?h') \<lparr>cur_buf = take ?p ?buf @ cur, cur_pos = ?p\<rparr>)
      (\<lambda>w. Inr (set_position (?p + (24 + length ct)) w)) = Inr w'"
    using enc w1 w2 p1 p2 so_far e r(1,2) m4 c1 lc(2) n
    by (simp add: encode_encrypted_def Let_def r(3) cur_def)
  have wh': "writes (write_seq (map write_all ?h')) (concat ?h')" by (rule write_seq_map_write_all)
  define w3 where "w3 = \<lparr>cur_buf = take ?p ?buf @ cur, cur_pos = ?p\<rparr>"
  have w3: "cur_pos w3 = ?p" "length (cur_buf w3) = length ?buf" "cur_pos w3 \<le> length (cur_buf w3)"
    using w lc by (simp_all add: w3_def)
  obtain w4 where w4: "write_seq (map write_all ?h') w3 = Inr w4" "w' = set_position (?p + (24 + length ct)) w4"
    using fin by (auto simp: result_simps w3_def)
  have "write_all (concat ?h') w3 = Inr w4" using w4(1) writesD [OF wh'] by simp
  then have b4: "cur_buf w4 = splice ?p (concat ?h') (take ?p ?buf @ cur)"
    by (auto simp: write_all_def w3_def split: if_splits)
  have "cur_buf w4 = take ?p ?buf @ concat ?h' @ drop 8 cur"
    unfolding b4 using w by (simp add: splice_def)
  also have "drop 8 cur = nonce @ ct @ rest" using lc(2) by (simp add: cur_def)
  finally have "cur_buf w4 = take ?p ?buf @ encrypted_wire nonce ct @ rest"
    by (simp add: encrypted_wire_def n add.commute)
  moreover have "length (cur_buf w4) = length ?buf" using w4(1) w3 writes_success [OF wh' w4(1)] by simp
  ultimately show ?thesis
    using w w4(2) n by (auto simp: appends_def set_position_def)
qed

section \<open>Reading sequences of fields\<close>

fun ef_items :: "nat \<Rightarrow> nat \<Rightarrow> ext_version \<Rightarrow> ext_field list \<Rightarrow> (nat \<times> raw_ext_field) list" where
  "ef_items off m version [] = []"
| "ef_items off m version (f # fs) =
     (off, ef_raw f m version) # ef_items (off + ef_total f m) m version fs"

abbreviation ef_wires :: "nat \<Rightarrow> ext_version \<Rightarrow> ext_field list \<Rightarrow> bytes" where
  "ef_wires m version fs \<equiv> concat (map (\<lambda>f. ef_wire f m version) fs)"

lemma raw_sequence_wires:
  assumes "\<forall>f \<in> set fs. ef_ok version f" "m \<le> 65532" "cutoff \<le> length rest"
  shows "(raw_sequence (pre @ ef_wires m version fs @ rest) cutoff 4 version (length pre) ::
      ('t parsing_error + _) list) =
    map Inr (ef_items (length pre) m version fs) @
    raw_sequence (pre @ ef_wires m version fs @ rest) cutoff 4 version (length (pre @ ef_wires m version fs))"
  using assms(1)
proof (induction fs arbitrary: pre)
  case (Cons f fs)
  have "0 < ef_total f m" using ef_total_bounds(1) [of f m] by simp
  then have "(raw_sequence (pre @ ef_wire f m version @ ef_wires m version fs @ rest) cutoff 4 version (length pre) ::
      ('t parsing_error + _) list) =
    Inr (length pre, ef_raw f m version) #
    raw_sequence (pre @ ef_wire f m version @ ef_wires m version fs @ rest) cutoff 4 version
      (length (pre @ ef_wire f m version))"
    using Cons.prems assms(2,3) by (intro raw_sequence_wire) auto
  moreover have "(raw_sequence ((pre @ ef_wire f m version) @ ef_wires m version fs @ rest) cutoff 4 version
      (length (pre @ ef_wire f m version)) :: ('t parsing_error + _) list) =
    map Inr (ef_items (length (pre @ ef_wire f m version)) m version fs) @
    raw_sequence ((pre @ ef_wire f m version) @ ef_wires m version fs @ rest) cutoff 4 version
      (length ((pre @ ef_wire f m version) @ ef_wires m version fs))"
    using Cons.prems by (intro Cons.IH) simp
  ultimately show ?case by (simp add: add.assoc)
qed simp

definition pushed :: "ext_field list \<Rightarrow> nat \<Rightarrow> ef_loop_state \<Rightarrow> ef_loop_state" where
  "pushed gs sz st = st\<lparr>lp_efdata := (lp_efdata st)\<lparr>untrusted := untrusted (lp_efdata st) @ gs\<rparr>, lp_size := sz\<rparr>"

lemma ef_loop_items:
  assumes "list_all2 (ef_reads m version) fs gs" "fs \<noteq> []"
  shows "(ef_loop A provider data hs version (map Inr (ef_items off m version fs) @ items) st :: 't parsing_error + _) =
    ef_loop A provider data hs version items (pushed gs (off + length (ef_wires m version fs)) st)"
  using assms
proof (induction fs gs arbitrary: off st rule: list_all2_induct)
  case (Cons f fs g gs)
  let ?st1 = "(ef_push g (st\<lparr>lp_size := off + ef_total f m\<rparr>))"
  have "ef_decode (ef_raw f m version) version = (Inr g :: 't parsing_error + _)"
    using Cons.hyps(1) by (simp add: ef_reads_def ef_decode_poly [where ?'t = 't and ?'u = unit])
  then have step: "ef_loop_step A provider data hs version (off, ef_raw f m version) st = (Inr ?st1 :: 't parsing_error + _)"
    using Cons.hyps(1) by (simp add: ef_loop_step_def ef_reads_def raw_wire_length_ef_raw Let_def)
  show ?case
  proof (cases "fs = []")
    case True
    with Cons.hyps(2) have "gs = []" by simp
    with True step show ?thesis by (cases st) (simp add: pushed_def ef_push_def)
  next
    case False
    have "pushed gs (off + ef_total f m + length (ef_wires m version fs)) ?st1 =
        pushed (g # gs) (off + length (ef_wires m version (f # fs))) st"
      by (cases st) (simp add: pushed_def ef_push_def)
    with Cons.IH [OF False, of "off + ef_total f m" ?st1] step show ?thesis by simp
  qed
qed simp

lemma raw_deserialize_encrypted:
  assumes "length nonce = 16" "length ct \<le> 65500" "length ct mod 4 = 0"
  shows "raw_deserialize (encrypted_wire nonce ct @ rest) 4 version =
    Inr \<lparr>raw_type_id = TNtsEncryptedField,
         message_bytes = u16_to_be 16 @ u16_to_be (of_nat (length ct)) @ nonce @ ct\<rparr>"
proof -
  let ?l = "24 + length ct" and ?d = "encrypted_wire nonce ct @ rest"
  have l: "unat (of_nat ?l :: u16) = ?l" using assms by (simp only: unsigned_of_nat) (simp add: take_bit_nat_eq_self)
  have s0: "from_be (slice 0 2 ?d) = (0x404 :: u16)" by (simp add: encrypted_wire_def slice_def del: to_be.simps)
  have s2: "from_be (slice 2 4 ?d) = (of_nat ?l :: u16)"
    using assms(1) by (simp add: encrypted_wire_def slice_def add.commute del: to_be.simps)
  have msg: "slice 4 ?l ?d = u16_to_be 16 @ u16_to_be (of_nat (length ct)) @ nonce @ ct"
    using assms(1) by (simp add: encrypted_wire_def slice_def del: to_be.simps)
  have m0: "?l mod 4 = 0" using assms(3) by presburger
  then have m: "next_multiple_of_usize ?l 4 = ?l" by (rule next_multiple_idem)
  show ?thesis
    using assms(1)
    by (simp only: raw_deserialize_def s0 s2 l Let_def get_range_def m m0 msg)
      (simp add: from_type_id_def del: to_be.simps)
qed

lemma from_message_bytes_encrypted:
  assumes "length nonce = 16" "length ct \<le> 65500"
  shows "from_message_bytes (u16_to_be 16 @ u16_to_be (of_nat (length ct)) @ nonce @ ct) =
    Inr \<lparr>enc_nonce = nonce, enc_ciphertext = ct\<rparr>"
proof -
  let ?d = "u16_to_be 16 @ u16_to_be (of_nat (length ct)) @ nonce @ ct"
  have l: "unat (of_nat (length ct) :: u16) = length ct"
    using assms by (simp add: unsigned_of_nat take_bit_nat_eq_self)
  have s0: "from_be (slice 0 2 ?d) = (16 :: u16)" by (simp add: slice_def del: to_be.simps)
  have s2: "from_be (slice 2 4 ?d) = (of_nat (length ct) :: u16)" by (simp add: slice_def del: to_be.simps)
  have d: "drop 4 ?d = nonce @ ct" by (simp del: to_be.simps)
  have n: "unat (next_multiple_of_u16 (of_nat 16) 4) = 16" by (simp add: next_multiple_of_u16_def)
  show ?thesis
    using assms(1)
    by (simp only: from_message_bytes_def s0 s2 l d Let_def n)
      (simp add: get_range_def slice_def next_multiple_of_u16_def del: to_be.simps)
qed

lemma collectR_items:
  assumes "list_all2 (ef_reads m version) fs gs"
  shows "collectR (map (decrypt_field version) (map Inr (ef_items off m version fs))) = (Inr gs :: 't parsing_error + _)"
  using assms
proof (induction fs gs arbitrary: off rule: list_all2_induct)
  case (Cons f fs g gs)
  have "ef_decode (ef_raw f m version) version = (Inr g :: 't parsing_error + _)"
    using Cons.hyps(1) by (simp add: ef_reads_def ef_decode_poly [where ?'t = 't and ?'u = unit])
  with Cons show ?case by (simp add: decrypt_field_def ef_reads_def)
qed simp

lemma raw_sequence_encrypted:
  assumes "length nonce = 16" "length ct \<le> 65500" "length ct mod 4 = 0" "cutoff \<le> 24" "16 \<le> length ct"
  shows "raw_sequence (pre @ encrypted_wire nonce ct) cutoff 4 version (length pre) =
    [Inr (length pre, \<lparr>raw_type_id = TNtsEncryptedField,
         message_bytes = u16_to_be 16 @ u16_to_be (of_nat (length ct)) @ nonce @ ct\<rparr>) ::
       't parsing_error + _]"
proof -
  let ?raw = "\<lparr>raw_type_id = TNtsEncryptedField,
    message_bytes = u16_to_be 16 @ u16_to_be (of_nat (length ct)) @ nonce @ ct\<rparr>"
  have "(24 + length ct) mod 4 = 0" using assms(3) by presburger
  then have wl: "raw_wire_length ?raw = 24 + length ct"
    using assms(1) by (simp add: raw_wire_length_def next_multiple_of_usize_def)
  have "raw_sequence (pre @ encrypted_wire nonce ct) cutoff 4 version (length pre + (24 + length ct)) =
      ([] :: ('t parsing_error + _) list)"
    using assms(1) by (intro raw_sequence_end) simp
  then show ?thesis
    using assms raw_deserialize_encrypted [OF assms(1-3), of "[]" version, where ?'a = 't]
    by (subst raw_sequence.simps) (simp add: wl)
qed

definition holder_cookie :: "cipher_holder \<Rightarrow> decoded_server_cookie option" where
  "holder_cookie h = (case h of HDecodedServerCookie c \<Rightarrow> Some c | HOther _ \<Rightarrow> None)"

lemma raw_decrypt_sealed:
  assumes "aead_correct A" "list_all2 (ef_reads 0 version) fs gs"
  shows "raw_decrypt A \<lparr>enc_nonce = nonce, enc_ciphertext = siv_seal A c nonce aad (ef_wires 0 version fs)\<rparr>
    c aad version = Inr gs"
proof -
  have ok: "\<forall>f \<in> set fs. ef_ok version f"
    using assms(2) by (auto simp: list_all2_conv_all_nth in_set_conv_nth ef_reads_def)
  have "(raw_sequence (ef_wires 0 version fs) 0 4 version 0 :: (ext_field parsing_error + _) list) =
      map Inr (ef_items 0 0 version fs)"
    using raw_sequence_wires [OF ok, of 0 0 "[]" "[]", where ?'t = ext_field]
      raw_sequence_end [of "ef_wires 0 version fs" "length (ef_wires 0 version fs)" 0 4 version, where ?'a = ext_field]
    by simp
  then show ?thesis
    using assms(1) collectR_items [OF assms(2), of 0, where ?'t = ext_field]
    by (simp add: raw_decrypt_def cipher_decrypt_def aead_correct_def)
qed

lemma efdata_deserialize_sealed:
  fixes hdr :: bytes
  assumes A: "aead_correct A" and n: "length nonce = 16"
    and auth: "list_all2 (ef_reads 16 version) auth auth'" and enc: "list_all2 (ef_reads 0 version) enc enc'"
    and p: "provider auth' = Some h" "holder_cipher h = c"
  defines "aad \<equiv> hdr @ ef_wires 16 version auth"
  defines "ct \<equiv> siv_seal A c nonce aad (ef_wires 0 version enc)"
  assumes ct: "length ct \<le> 65500" "length ct mod 4 = 0" "16 \<le> length ct"
  shows "efdata_deserialize A (aad @ encrypted_wire nonce ct) (length hdr) provider version =
    Inr \<lparr>def_efdata = \<lparr>authenticated = auth', encrypted = enc', untrusted = []\<rparr>,
         def_remaining = [], def_cookie = holder_cookie h\<rparr>"
proof -
  let ?w = "ef_wires 16 version auth" and ?e = "encrypted_wire nonce ct"
  let ?cut = "case version of EfV4 \<Rightarrow> MAC_MAXIMUM_SIZE | EfV5 \<Rightarrow> 0"
  let ?st0 = "\<lparr>lp_efdata = ext_field_data_default, lp_size = 0, lp_valid_nts = True, lp_cookie = None\<rparr>"
  let ?raw = "\<lparr>raw_type_id = TNtsEncryptedField,
    message_bytes = u16_to_be 16 @ u16_to_be (of_nat (length ct)) @ nonce @ ct\<rparr>"
  have cut: "?cut \<le> 24" by (cases version) (simp_all add: MAC_MAXIMUM_SIZE_def)
  have ok: "\<forall>f \<in> set auth. ef_ok version f"
    using auth by (auto simp: list_all2_conv_all_nth in_set_conv_nth ef_reads_def)
  have seq: "(raw_sequence (?w @ ?e) ?cut 4 version 0 :: (invalid_nts_ext_field parsing_error + _) list) =
      map Inr (ef_items 0 16 version auth) @ [Inr (length ?w, ?raw)]"
    using raw_sequence_wires [OF ok, of 16 ?cut ?e "[]", where ?'t = invalid_nts_ext_field]
      raw_sequence_encrypted [OF n ct(1,2) cut ct(3), of ?w version, where ?'t = invalid_nts_ext_field] n cut
    by simp
  let ?st1 = "pushed auth' (length ?w) ?st0"
  have loop: "(ef_loop A provider (aad @ ?e) (length hdr) version
      (map Inr (ef_items 0 16 version auth) @ [Inr (length ?w, ?raw)]) ?st0 :: invalid_nts_ext_field parsing_error + _) =
    ef_loop A provider (aad @ ?e) (length hdr) version [Inr (length ?w, ?raw)] ?st1"
  proof (cases "auth = []")
    case True
    with auth show ?thesis by (simp add: pushed_def ext_field_data_default_def)
  next
    case False
    from ef_loop_items [OF auth this, of A provider "aad @ ?e" "length hdr" 0, where ?'t = invalid_nts_ext_field]
    show ?thesis by (simp only: add_0)
  qed
  have u: "untrusted (lp_efdata ?st1) = auth'" by (simp add: pushed_def ext_field_data_default_def)
  have "(24 + length ct) mod 4 = 0" using ct(2) by presburger
  then have wl: "raw_wire_length ?raw = 24 + length ct"
    using n by (simp add: raw_wire_length_def next_multiple_of_usize_def)
  have aad: "take (length hdr + length ?w) aad = aad" "length hdr + length ?w - length aad = 0"
    by (simp_all add: aad_def)
  have dec: "raw_decrypt A \<lparr>enc_nonce = nonce, enc_ciphertext = ct\<rparr> (holder_cipher h) aad version = Inr enc'"
    unfolding ct_def p(2) by (rule raw_decrypt_sealed [OF A enc])
  have "ef_loop_step A provider (aad @ ?e) (length hdr) version (length ?w, ?raw) ?st1 =
      (Inr \<lparr>lp_efdata = \<lparr>authenticated = auth', encrypted = enc', untrusted = []\<rparr>,
           lp_size = length ?w + (24 + length ct), lp_valid_nts = True, lp_cookie = holder_cookie h\<rparr> ::
       invalid_nts_ext_field parsing_error + _)"
    using p(1) dec
    by (simp add: ef_loop_step_def Let_def from_message_bytes_encrypted [OF n ct(1)] u wl aad
        del: to_be.simps length_map length_concat)
      (simp add: pushed_def ext_field_data_default_def holder_cookie_def)
  with seq loop show ?thesis
    using n by (simp add: efdata_deserialize_def Let_def aad_def)
qed

lemma nts_fields_read_back:
  assumes "aead_correct A" "aead_overhead A" "length nonce = 16"
    and "list_all2 (ef_reads 16 version) auth auth'" "list_all2 (ef_reads 0 version) enc enc'"
    and "auth \<noteq> [] \<or> enc \<noteq> []"
    and "sender auth = Some h" "receiver auth' = Some h'" "holder_cipher h' = holder_cipher h"
    and "cur_pos w \<le> length (cur_buf w)" "length (cur_buf w) \<le> 65500"
    and "efdata_serialize A nonce \<lparr>authenticated = auth, encrypted = enc, untrusted = []\<rparr> sender version w = Inr w'"
  shows "efdata_deserialize A (take (cur_pos w') (cur_buf w')) (cur_pos w) receiver version =
    Inr \<lparr>def_efdata = \<lparr>authenticated = auth', encrypted = enc', untrusted = []\<rparr>,
         def_remaining = [], def_cookie = holder_cookie h'\<rparr>"
proof -
  let ?c = "holder_cipher h" and ?hdr = "take (cur_pos w) (cur_buf w)"
  have ok: "\<forall>f \<in> set auth. ef_ok version f" "\<forall>f \<in> set enc. ef_ok version f"
    using assms(4,5) by (auto simp: list_all2_conv_all_nth in_set_conv_nth ef_reads_def)
  obtain w1 where w1: "write_seq (map (\<lambda>f. ef_serialize f 16 version) auth) w = Inr w1"
    "encode_encrypted A nonce enc ?c version w1 = Inr w'"
    using assms(6,7,12) by (auto simp: efdata_serialize_def result_simps)
  have "writes (write_seq (map (\<lambda>f. ef_serialize f 16 version) auth)) (ef_wires 16 version auth)"
    using ok(1) ef_serialize_writes [of version _ 16] by (intro writes_seq_map) simp
  note a1 = writes_appends [OF this w1(1) assms(10)]
  let ?ct = "siv_seal A ?c nonce (take (cur_pos w1) (cur_buf w1)) (ef_wires 0 version enc)"
  note a2 = encode_encrypted_appends [OF ok(2) assms(3,2) appends_le [OF a1] w1(2)]
  have aad: "take (cur_pos w1) (cur_buf w1) = ?hdr @ ef_wires 16 version auth" using a1 by (auto simp: appends_def)
  have l: "length ?hdr = cur_pos w" using assms(10) by simp
  have out: "take (cur_pos w') (cur_buf w') = (?hdr @ ef_wires 16 version auth) @ encrypted_wire nonce ?ct"
    using a2 aad by (auto simp: appends_def)
  have "length ?ct = length (ef_wires 0 version enc) + 16" using assms(2) by (simp add: aead_overhead_def)
  moreover have "length (ef_wires 0 version enc) mod 4 = 0" by (rule wire_multiple_4)
  ultimately have m4: "length ?ct mod 4 = 0" "16 \<le> length ?ct" by (simp_all add: mod_add_eq [symmetric, of "length (ef_wires 0 version enc)"])
  have "length ?ct \<le> 65500" using a1 a2 assms(11) by (auto simp: appends_def)
  with m4 show ?thesis
    using efdata_deserialize_sealed [where provider = receiver, OF assms(1,3,4,5,8,9), where hdr = ?hdr] out l aad
    by simp
qed


lemma efdata_deserialize_plain_v5:
  assumes "list_all2 (ef_reads 4 EfV5) fs gs"
  shows "efdata_deserialize A (hdr @ ef_wires 4 EfV5 fs) (length hdr) provider EfV5 =
    Inr \<lparr>def_efdata = \<lparr>authenticated = [], encrypted = [], untrusted = gs\<rparr>,
         def_remaining = [], def_cookie = None\<rparr>"
proof -
  let ?st0 = "\<lparr>lp_efdata = ext_field_data_default, lp_size = 0, lp_valid_nts = True, lp_cookie = None\<rparr>"
  let ?w = "ef_wires 4 EfV5 fs"
  have ok: "\<forall>f \<in> set fs. ef_ok EfV5 f"
    using assms by (auto simp: list_all2_conv_all_nth in_set_conv_nth ef_reads_def)
  have seq: "(raw_sequence ?w 0 4 EfV5 0 :: (invalid_nts_ext_field parsing_error + _) list) =
      map Inr (ef_items 0 4 EfV5 fs)"
    using raw_sequence_wires [OF ok, of 4 0 "[]" "[]", where ?'t = invalid_nts_ext_field]
      raw_sequence_end [of ?w "length ?w" 0 4 EfV5, where ?'a = invalid_nts_ext_field]
    by simp
  have "(ef_loop A provider (hdr @ ?w) (length hdr) EfV5 (map Inr (ef_items 0 4 EfV5 fs)) ?st0 ::
      invalid_nts_ext_field parsing_error + _) = Inr (pushed gs (length ?w) ?st0)"
  proof (cases "fs = []")
    case True
    with assms show ?thesis by (simp add: pushed_def ext_field_data_default_def)
  next
    case False
    from ef_loop_items [OF assms this, of A provider "hdr @ ?w" "length hdr" 0
        "[] :: (invalid_nts_ext_field parsing_error + _) list"]
    show ?thesis by (simp only: add_0 append_Nil2 ef_loop.simps)
  qed
  with seq show ?thesis
    by (simp add: efdata_deserialize_def Let_def pushed_def ext_field_data_default_def)
qed

lemma efdata_deserialize_none:
  "length data \<le> hs + (case version of EfV4 \<Rightarrow> 24 | EfV5 \<Rightarrow> 0) \<Longrightarrow>
   efdata_deserialize A data hs provider version =
     Inr \<lparr>def_efdata = ext_field_data_default, def_remaining = drop hs data, def_cookie = None\<rparr>"
  by (cases version)
    (simp_all add: efdata_deserialize_def Let_def raw_sequence_end MAC_MAXIMUM_SIZE_def)

lemma serialize_untrusted_v5_writes:
  assumes "\<forall>f \<in> set fs. ef_ok EfV5 f"
  shows "writes (serialize_untrusted fs EfV5) (ef_wires 4 EfV5 fs)"
  using assms
proof (induction fs)
  case Nil
  show ?case by (rule writesI) simp
next
  case (Cons f fs)
  then have "writes (ef_serialize f (of_nat 4) EfV5) (ef_wire f 4 EfV5)"
    by (intro ef_serialize_writes) auto
  from writes_bindR [OF this Cons.IH] Cons.prems show ?case by (simp add: writes_def)
qed

text \<open>A large enough buffer is all that sealing needs.\<close>

lemma writes_fits:
  "writes f d \<Longrightarrow> cur_pos w + length d \<le> length (cur_buf w) \<Longrightarrow> \<exists>w'. f w = Inr w' \<and> appends w w' d"
proof -
  assume f: "writes f d" and fits: "cur_pos w + length d \<le> length (cur_buf w)"
  then obtain w' where "f w = Inr w'" by (auto simp: writes_def write_all_def)
  with f fits show ?thesis using writes_appends by fastforce
qed

lemma encode_encrypted_fits:
  assumes ok: "\<forall>f \<in> set fs. ef_ok version f" and n: "length nonce = 16" and A: "aead_overhead A"
    and room: "cur_pos w + 40 + length (ef_wires 0 version fs) \<le> length (cur_buf w)"
  shows "\<exists>w'. encode_encrypted A nonce fs c version w = Inr w'"
proof -
  let ?p = "cur_pos w" and ?pt = "ef_wires 0 version fs"
  let ?h = "[u16_to_be (to_type_id TNtsEncryptedField), [0, 0], [0, 0], [0, 0]]"
  have wh: "writes (write_seq (map write_all ?h)) (concat ?h)" by (rule write_seq_map_write_all)
  have ws: "writes (write_seq (map (\<lambda>f. ef_serialize f 0 version) fs)) ?pt"
    using ok ef_serialize_writes [of version _ 0] by (intro writes_seq_map) simp
  obtain w1 where w1: "write_seq (map write_all ?h) w = Inr w1" "appends w w1 (concat ?h)"
    using writes_fits [OF wh, of w] room by auto
  then have p1: "cur_pos w1 = ?p + 8" "length (cur_buf w1) = length (cur_buf w)" by (auto simp: appends_def)
  obtain w2 where w2: "write_seq (map (\<lambda>f. ef_serialize f 0 version) fs) w1 = Inr w2" "appends w1 w2 ?pt"
    using writes_fits [OF ws, of w1] room p1 by auto
  then have p2: "cur_pos w2 = ?p + 8 + length ?pt" "length (cur_buf w2) = length (cur_buf w)"
    using p1 by (auto simp: appends_def)
  let ?b = "drop 8 (drop ?p (cur_buf w2))" and ?aad = "take ?p (cur_buf w2)"
  have lct: "length (siv_seal A c nonce ?aad (take (length ?pt) ?b)) = length ?pt + 16"
    using A room p2 by (auto simp: aead_overhead_def)
  have r: "length nonce + length (siv_seal A c nonce ?aad (take (length ?pt) ?b)) \<le> length ?b" "length ?pt \<le> length ?b"
    "length nonce + length ?pt \<le> length ?b"
    using room p2 n lct by auto
  obtain ct rest where e: "cipher_encrypt A c nonce ?b (length ?pt) ?aad = Inr (nonce @ ct @ rest, 16, length ct)"
    and ct: "length ct = length ?pt + 16" and le: "length (nonce @ ct @ rest) = length ?b"
    using cipher_encrypt_result [of "length ?pt" ?b nonce A c ?aad] r lct n by metis
  have "length ?pt mod 4 = 0" by (rule wire_multiple_4)
  then have m4: "next_multiple_of_usize (length ct) 4 = length ct" "next_multiple_of_usize 16 4 = 16"
    by (simp_all add: ct next_multiple_of_usize_def mod_add_eq [symmetric, of "length ?pt"])
  define cur where "cur = take 8 (drop ?p (cur_buf w2)) @ nonce @ ct @ rest"
  have lc: "length cur = length (cur_buf w) - ?p" "length (take 8 (drop ?p (cur_buf w2))) = 8"
    using le room p2 ct n by (auto simp: cur_def)
  let ?h' = "[u16_to_be (to_type_id TNtsEncryptedField), u16_to_be (of_nat (24 + length ct)),
    u16_to_be (of_nat 16), u16_to_be (of_nat (length ct))]"
  have c1: "copy_within (8 + 16) (8 + 16 + length ct) (8 + 16) cur = cur"
    using lc n by (intro copy_within_id) (auto simp: cur_def)
  have "encode_encrypted A nonce fs c version w =
      bindR (write_seq (map write_all ?h') \<lparr>cur_buf = ?aad @ cur, cur_pos = ?p\<rparr>)
        (\<lambda>w. Inr (set_position (?p + (24 + length ct)) w))"
    using w1(1) w2(1) p1 p2 e n lc(2) m4 c1
    by (simp add: encode_encrypted_def Let_def cur_def)
  moreover have "\<exists>w4. write_seq (map write_all ?h') \<lparr>cur_buf = ?aad @ cur, cur_pos = ?p\<rparr> = Inr w4"
    using writes_fits [OF write_seq_map_write_all [of ?h'], of "\<lparr>cur_buf = ?aad @ cur, cur_pos = ?p\<rparr>"]
      room p2 lc ct n by auto
  ultimately show ?thesis by auto
qed

lemma efdata_serialize_fits:
  assumes "\<forall>f \<in> set auth. ef_ok version f" "\<forall>f \<in> set enc. ef_ok version f"
    "length nonce = 16" "aead_overhead A" "provider auth = Some h"
    "cur_pos w + length (ef_wires 16 version auth) + 40 + length (ef_wires 0 version enc) \<le> length (cur_buf w)"
  shows "\<exists>w'. efdata_serialize A nonce \<lparr>authenticated = auth, encrypted = enc, untrusted = []\<rparr> provider version w = Inr w'"
proof (cases "auth \<noteq> [] \<or> enc \<noteq> []")
  case True
  have wa: "writes (write_seq (map (\<lambda>f. ef_serialize f 16 version) auth)) (ef_wires 16 version auth)"
    using assms(1) ef_serialize_writes [of version _ 16] by (intro writes_seq_map) simp
  obtain w1 where w1: "write_seq (map (\<lambda>f. ef_serialize f 16 version) auth) w = Inr w1"
    "appends w w1 (ef_wires 16 version auth)"
    using writes_fits [OF wa, of w] assms(6) by auto
  then have "cur_pos w1 + 40 + length (ef_wires 0 version enc) \<le> length (cur_buf w1)"
    using assms(6) by (auto simp: appends_def)
  from encode_encrypted_fits [OF assms(2-4) this, of "holder_cipher h"] w1(1) True assms(5)
  show ?thesis by (auto simp: efdata_serialize_def)
qed (simp add: efdata_serialize_def)

text \<open>A stand-in for AES-SIV with the properties the program relies on, for the examples.\<close>

definition example_aead :: aead where
  "example_aead = \<lparr>siv_seal = (\<lambda>c nonce aad p. replicate 16 0 @ p),
     siv_open = (\<lambda>c nonce aad t. if take 16 t = replicate 16 0 then Some (drop 16 t) else None)\<rparr>"

lemma example_aead_ok: "aead_correct example_aead" "aead_overhead example_aead"
  by (simp_all add: aead_correct_def aead_overhead_def example_aead_def)

definition example_efdata :: ext_field_data where
  "example_efdata = \<lparr>authenticated = [UniqueIdentifier (replicate 12 1)],
     encrypted = [NtsCookie [1, 2, 3, 4]], untrusted = []\<rparr>"

lemma example_reads:
  "list_all2 (ef_reads 16 EfV5) [UniqueIdentifier (replicate 12 1)] [UniqueIdentifier (replicate 12 1)]"
  "list_all2 (ef_reads 0 EfV5) [NtsCookie [1, 2, 3, 4]] [NtsCookie [1, 2, 3, 4]]"
  by (simp_all add: ef_reads_exact ef_exact_def ef_ok_def)

lemma example_serialize: 
  "\<exists>w'. efdata_serialize example_aead (replicate 16 0) example_efdata (the_cipher (AesSivCmac256 [])) EfV5
     (new_cursor (replicate 100 0)) = Inr w'"
  unfolding example_efdata_def
  by (rule efdata_serialize_fits [of _ _ _ _ _ _ "HOther (AesSivCmac256 [])"])
    (simp_all add: example_aead_ok the_cipher_def ef_ok_def new_cursor_def ef_total_def next_multiple_of_usize_def)

lemma example_reads_back:
  assumes "efdata_serialize example_aead (replicate 16 0) example_efdata (the_cipher (AesSivCmac256 [])) EfV5
     (new_cursor (replicate 100 0)) = Inr w'"
  shows "efdata_deserialize example_aead (take (cur_pos w') (cur_buf w')) 0 (the_cipher (AesSivCmac256 [])) EfV5 =
       Inr \<lparr>def_efdata = example_efdata, def_remaining = [], def_cookie = None\<rparr>"
  using nts_fields_read_back [where w = "new_cursor (replicate 100 0)" and h = "HOther (AesSivCmac256 [])"
      and h' = "HOther (AesSivCmac256 [])" and receiver = "the_cipher (AesSivCmac256 [])",
      OF example_aead_ok _ example_reads _ _ _ _ _ _ assms [unfolded example_efdata_def]]
  by (simp add: the_cipher_def new_cursor_def holder_cookie_def example_efdata_def)


theorem authenticated_fields_are_covered_witness:
  "\<exists>(w' :: cursor) items1 off raw items2 holder.
     raw_sequence (take (cur_pos w') (cur_buf w')) 0 4 EfV5 0 =
       (map Inr (items1 @ (off, raw) # items2) :: (invalid_nts_ext_field parsing_error + _) list) \<and>
     opens_at example_aead (the_cipher (AesSivCmac256 [])) (take (cur_pos w') (cur_buf w')) 0 (off, raw) holder \<and>
     plain_fields EfV5 items1 = [UniqueIdentifier (replicate 12 1)]"
proof -
  obtain w' where w': "efdata_serialize example_aead (replicate 16 0) example_efdata
      (the_cipher (AesSivCmac256 [])) EfV5 (new_cursor (replicate 100 0)) = Inr w'"
    using example_serialize by blast
  from authenticated_fields_are_covered [OF example_reads_back [OF w']]
  obtain items1 off raw items2 holder where
    "raw_sequence (take (cur_pos w') (cur_buf w')) 0 4 EfV5 0 =
       (map Inr (items1 @ (off, raw) # items2) :: (invalid_nts_ext_field parsing_error + _) list)"
    "opens_at example_aead (the_cipher (AesSivCmac256 [])) (take (cur_pos w') (cur_buf w')) 0 (off, raw) holder"
    "plain_fields EfV5 items1 = [UniqueIdentifier (replicate 12 1)]"
    by (auto simp: example_efdata_def)
  then show ?thesis by blast
qed

end
