(* ===== verification/Key_Set.thy ===== *)
theory Key_Set
  imports Extension_Fields
begin

text \<open>
  The server's cookie keys: \<^verbatim>\<open>ntp-proto/src/keyset.rs\<close>. A \<open>key_set\<close> seals the keys of an NTS
  connection into a cookie under its primary key and opens cookies under any key it still holds; a
  \<open>key_set_provider\<close> rotates keys in and out and is stored in a file. An index out of range and an
  \<^verbatim>\<open>unwrap\<close> of an error abort the process and are the result \<open>None\<close> of the operations that can
  do so. The random keys and nonces are arguments.
\<close>

section \<open>Cookies\<close>

definition dsc_plaintext :: "decoded_server_cookie \<Rightarrow> bytes" where
  "dsc_plaintext cookie =
     u16_to_be (aead_to_u16 (dsc_algorithm cookie)) @ key_bytes (dsc_s2c cookie) @ key_bytes (dsc_c2s cookie)"

record key_set =
  ks_keys :: "cipher list"
  ks_id_offset :: u32
  ks_primary :: u32

definition encode_cookie :: "aead \<Rightarrow> bytes \<Rightarrow> key_set \<Rightarrow> decoded_server_cookie \<Rightarrow> bytes option" where
  "encode_cookie A nonce ks cookie =
     (let plaintext = dsc_plaintext cookie;
          plaintext_length = length plaintext;
          output = plaintext @ replicate (2 + 4 + 16 + 16) 0;
          output = copy_within 0 plaintext_length 6 output
      in if unat (ks_primary ks) < length (ks_keys ks) then
           (case cipher_encrypt A (ks_keys ks ! unat (ks_primary ks)) nonce (drop 6 output) plaintext_length [] of
              Inl _ \<Rightarrow> None
            | Inr (buffer, nonce_length, ciphertext_length) \<Rightarrow>
                let output = take 6 output @ buffer;
                    output = splice 0 (u32_to_be (ks_primary ks + ks_id_offset ks)) output;
                    output = splice 4 (u16_to_be (of_nat ciphertext_length)) output
                in Some output)
         else None)"

text \<open>
  A cookie that does not decode is \<open>None\<close>. The keys of a decoded cookie are cut to the width their
  \<^verbatim>\<open>try_from\<close> expects, so that its \<^verbatim>\<open>unwrap\<close> does not fail.
\<close>

definition decode_cookie :: "aead \<Rightarrow> key_set \<Rightarrow> bytes \<Rightarrow> decoded_server_cookie option" where
  "decode_cookie A ks cookie =
     (if length cookie < 4 + 2 + 16 then None
      else
        let index = unat (from_be (slice 0 4 cookie) - ks_id_offset ks) in
        if length (ks_keys ks) \<le> index then None
        else
          let key = ks_keys ks ! index;
              cipher_text_length = unat (from_be (slice 4 6 cookie) :: u16);
              nonce = slice 6 22 cookie in
          case get_range 0 cipher_text_length (drop 22 cookie) of
            None \<Rightarrow> None
          | Some ciphertext \<Rightarrow>
              (case cipher_decrypt A key nonce ciphertext [] of
                 None \<Rightarrow> None
               | Some plaintext \<Rightarrow>
                   if length plaintext < 2 then None
                   else
                     let algorithm = aead_from_u16 (from_be (slice 0 2 plaintext));
                         kb = drop 2 plaintext in
                     case algorithm of
                       AeadAesSivCmac256 \<Rightarrow>
                         if length kb \<noteq> 2 * 32 then None
                         else Some \<lparr>dsc_algorithm = algorithm,
                                    dsc_s2c = AesSivCmac256 (take 32 kb), dsc_c2s = AesSivCmac256 (drop 32 kb)\<rparr>
                     | AeadAesSivCmac512 \<Rightarrow>
                         if length kb \<noteq> 2 * 64 then None
                         else Some \<lparr>dsc_algorithm = algorithm,
                                    dsc_s2c = AesSivCmac512 (take 64 kb), dsc_c2s = AesSivCmac512 (drop 64 kb)\<rparr>
                     | UnknownAead _ \<Rightarrow> None))"

text \<open>The cipher for a request: the keys in its only cookie.\<close>

fun keyset_get_from :: "aead \<Rightarrow> key_set \<Rightarrow> decoded_server_cookie option \<Rightarrow> cipher_provider" where
  "keyset_get_from A ks decoded [] = map_option HDecodedServerCookie decoded"
| "keyset_get_from A ks decoded (NtsCookie cookie # efs) =
     (if decoded \<noteq> None then None
      else case decode_cookie A ks cookie of
             None \<Rightarrow> None
           | Some d \<Rightarrow> keyset_get_from A ks (Some d) efs)"
| "keyset_get_from A ks decoded (_ # efs) = keyset_get_from A ks decoded efs"

definition keyset_get :: "aead \<Rightarrow> key_set \<Rightarrow> cipher_provider" where
  "keyset_get A ks = keyset_get_from A ks None"

section \<open>Rotation and storage\<close>

record key_set_provider =
  ksp_current :: key_set
  ksp_history :: nat

definition ksp_new :: "bytes \<Rightarrow> nat \<Rightarrow> key_set_provider" where
  "ksp_new key history =
     \<lparr>ksp_current = \<lparr>ks_keys = [AesSivCmac512 key], ks_id_offset = 0, ks_primary = 0\<rparr>,
      ksp_history = history\<rparr>"

definition ksp_rotate :: "bytes \<Rightarrow> key_set_provider \<Rightarrow> key_set_provider option" where
  "ksp_rotate next_key p =
     (let cur = ksp_current p;
          first = length (ks_keys cur) - ksp_history p;
          copies = map (\<lambda>key. cmac512_try_from (key_bytes key)) (drop first (ks_keys cur))
      in if None \<in> set copies then None
         else
           let keys = map the copies @ [AesSivCmac512 next_key]
           in Some (p\<lparr>ksp_current :=
                \<lparr>ks_keys = keys,
                 ks_id_offset = ks_id_offset cur + of_nat first,
                 ks_primary = of_nat (length keys) - 1\<rparr>\<rparr>))"

text \<open>
  \<^verbatim>\<open>Read::read_exact\<close> on the rest of the file. The time of the file is kept as its seconds since
  the epoch; adding more than an \<^verbatim>\<open>i64\<close> of them to \<^verbatim>\<open>SystemTime::UNIX_EPOCH\<close> panics.
\<close>

definition read_exact :: "nat \<Rightarrow> bytes \<Rightarrow> io_error + bytes \<times> bytes" where
  "read_exact n bs = (if length bs < n then Inl UnexpectedEof else Inr (take n bs, drop n bs))"

fun load_keys :: "nat \<Rightarrow> bytes \<Rightarrow> io_error + cipher list \<times> bytes" where
  "load_keys 0 bs = Inr ([], bs)"
| "load_keys (Suc n) bs =
     bindR (read_exact 64 bs) (\<lambda>(buf, bs).
     bindR (load_keys n bs) (\<lambda>(keys, bs). Inr (AesSivCmac512 buf # keys, bs)))"

definition ksp_load :: "nat \<Rightarrow> bytes \<Rightarrow> io_error + (key_set_provider \<times> u64) \<times> bytes" where
  "ksp_load history bs =
     bindR (read_exact 20 bs) (\<lambda>(buf, bs).
     let time = from_be (slice 0 8 buf) :: u64 in
     if 2 ^ 63 \<le> unat time then Inl Panicked
     else
       let id_offset = from_be (slice 8 12 buf);
           primary = from_be (slice 12 16 buf) :: u32;
           len = from_be (slice 16 20 buf) :: u32 in
       if primary > len then Inl OtherError
       else
         bindR (load_keys (unat len) bs) (\<lambda>(keys, bs).
         Inr ((\<lparr>ksp_current = \<lparr>ks_keys = keys, ks_id_offset = id_offset, ks_primary = primary\<rparr>,
                ksp_history = history\<rparr>, time), bs)))"

definition ksp_store :: "u64 \<Rightarrow> key_set_provider \<Rightarrow> writer" where
  "ksp_store time p =
     (let cur = ksp_current p in
      write_seq ([write_all (u64_to_be time),
                  write_all (u32_to_be (ks_id_offset cur)),
                  write_all (u32_to_be (ks_primary cur)),
                  write_all (u32_to_be (of_nat (length (ks_keys cur))))] @
                 map (\<lambda>key. write_all (key_bytes key)) (ks_keys cur)))"

section \<open>Sealing and opening a cookie\<close>

definition keys_wf :: "cipher list \<Rightarrow> bool" where
  "keys_wf keys \<longleftrightarrow> list_all (\<lambda>key. \<exists>k. key = AesSivCmac512 k \<and> length k = 64) keys"

fun cookie_wf :: "decoded_server_cookie \<Rightarrow> bool" where
  "cookie_wf \<lparr>dsc_algorithm = AeadAesSivCmac256, dsc_s2c = AesSivCmac256 s, dsc_c2s = AesSivCmac256 c\<rparr> \<longleftrightarrow>
     length s = 32 \<and> length c = 32"
| "cookie_wf \<lparr>dsc_algorithm = AeadAesSivCmac512, dsc_s2c = AesSivCmac512 s, dsc_c2s = AesSivCmac512 c\<rparr> \<longleftrightarrow>
     length s = 64 \<and> length c = 64"
| "cookie_wf _ \<longleftrightarrow> False"

definition sealed_cookie :: "aead \<Rightarrow> bytes \<Rightarrow> cipher \<Rightarrow> u32 \<Rightarrow> decoded_server_cookie \<Rightarrow> bytes" where
  "sealed_cookie A nonce key kid cookie =
     u32_to_be kid @ u16_to_be (of_nat (length (dsc_plaintext cookie) + 16)) @ nonce @
     siv_seal A key nonce [] (dsc_plaintext cookie)"

lemma cookie_wf_cases:
  assumes "cookie_wf cookie"
  obtains (Cmac256) s c where "cookie = \<lparr>dsc_algorithm = AeadAesSivCmac256, dsc_s2c = AesSivCmac256 s, dsc_c2s = AesSivCmac256 c\<rparr>"
      "length s = 32" "length c = 32"
    | (Cmac512) s c where "cookie = \<lparr>dsc_algorithm = AeadAesSivCmac512, dsc_s2c = AesSivCmac512 s, dsc_c2s = AesSivCmac512 c\<rparr>"
      "length s = 64" "length c = 64"
  using assms by (cases cookie rule: cookie_wf.cases) simp_all

lemma length_sealed_cookie:
  "length nonce = 16 \<Longrightarrow> aead_overhead A \<Longrightarrow>
   length (sealed_cookie A nonce key kid cookie) = length (dsc_plaintext cookie) + 38"
  by (simp add: sealed_cookie_def aead_overhead_def)

lemma encode_cookie_sealed:
  assumes "unat (ks_primary ks) < length (ks_keys ks)" "length nonce = 16" "aead_overhead A"
  shows "encode_cookie A nonce ks cookie =
    Some (sealed_cookie A nonce (ks_keys ks ! unat (ks_primary ks)) (ks_primary ks + ks_id_offset ks) cookie)"
proof -
  let ?pt = "dsc_plaintext cookie" and ?key = "ks_keys ks ! unat (ks_primary ks)"
  let ?out = "copy_within 0 (length ?pt) 6 (?pt @ replicate (2 + 4 + 16 + 16) 0)"
  let ?ct = "siv_seal A ?key nonce [] ?pt"
  have out: "take (length ?pt) (drop 6 ?out) = ?pt" "length ?out = length ?pt + 38"
    by (simp_all add: copy_within_def splice_def slice_def)
  have ct: "length ?ct = length ?pt + 16" using assms(3) by (simp add: aead_overhead_def)
  obtain rest where enc: "cipher_encrypt A ?key nonce (drop 6 ?out) (length ?pt) [] =
      Inr (nonce @ ?ct @ rest, length nonce, length ?ct)"
    "length (nonce @ ?ct @ rest) = length (drop 6 ?out)"
    using cipher_encrypt_result [of "length ?pt" "drop 6 ?out" nonce A ?key "[]"] out ct assms(2) by auto
  then have "rest = []" using out(2) ct assms(2) by simp
  moreover have "splice 4 (u16_to_be v) (splice 0 (u32_to_be w) (take 6 ?out @ r)) = u32_to_be w @ u16_to_be v @ r" for v w r
    using out(2) by (simp add: splice_def del: to_be.simps)
  ultimately show ?thesis
    using assms(1) enc(1) ct by (simp add: encode_cookie_def sealed_cookie_def Let_def del: to_be.simps)
qed

lemma decode_sealed_cookie:
  assumes "aead_correct A" "length nonce = 16" "aead_overhead A" "cookie_wf cookie"
    and "unat (kid - ks_id_offset ks) < length (ks_keys ks)" "ks_keys ks ! unat (kid - ks_id_offset ks) = key"
  shows "decode_cookie A ks (sealed_cookie A nonce key kid cookie) = Some cookie"
proof -
  let ?pt = "dsc_plaintext cookie" and ?ct = "siv_seal A key nonce [] (dsc_plaintext cookie)"
  let ?s = "sealed_cookie A nonce key kid cookie"
  have ct: "length ?ct = length ?pt + 16" using assms(3) by (simp add: aead_overhead_def)
  have two: "\<not> length ?pt < 2" by (simp add: dsc_plaintext_def)
  have "length ?pt \<le> 200" using assms(4) by (cases rule: cookie_wf_cases) (simp_all add: dsc_plaintext_def)
  then have l: "unat (of_nat (length ?pt + 16) :: u16) = length ?pt + 16"
    by (simp only: unat_of_nat) (simp add: take_bit_nat_eq_self)
  have parts: "slice 0 4 ?s = u32_to_be kid" "slice 4 6 ?s = u16_to_be (of_nat (length ?pt + 16))"
    "slice 6 22 ?s = nonce" "drop 22 ?s = ?ct"
    using assms(2) by (simp_all add: sealed_cookie_def slice_def del: to_be.simps)
  have "cipher_decrypt A key nonce ?ct [] = Some ?pt"
    using assms(1) by (simp add: cipher_decrypt_def aead_correct_def)
  then have d: "decode_cookie A ks ?s =
      (case aead_from_u16 (from_be (slice 0 2 ?pt)) of
         AeadAesSivCmac256 \<Rightarrow>
           if length (drop 2 ?pt) \<noteq> 2 * 32 then None
           else Some \<lparr>dsc_algorithm = aead_from_u16 (from_be (slice 0 2 ?pt)),
             dsc_s2c = AesSivCmac256 (take 32 (drop 2 ?pt)), dsc_c2s = AesSivCmac256 (drop 32 (drop 2 ?pt))\<rparr>
       | AeadAesSivCmac512 \<Rightarrow>
           if length (drop 2 ?pt) \<noteq> 2 * 64 then None
           else Some \<lparr>dsc_algorithm = aead_from_u16 (from_be (slice 0 2 ?pt)),
             dsc_s2c = AesSivCmac512 (take 64 (drop 2 ?pt)), dsc_c2s = AesSivCmac512 (drop 64 (drop 2 ?pt))\<rparr>
       | UnknownAead _ \<Rightarrow> None)"
    using assms(5,6) parts ct l length_sealed_cookie [OF assms(2,3), of key kid cookie] two
    by (simp add: decode_cookie_def Let_def get_range_def slice_def [of 0 "Suc (Suc _)"] slice_def [of 0 "_ + 16"] del: to_be.simps)
  from assms(4) show ?thesis
    unfolding d
    by (cases rule: cookie_wf_cases) (simp_all add: dsc_plaintext_def slice_def aead_from_u16_def del: to_be.simps)
qed

lemma decode_cookie_unknown_key:
  assumes "length (ks_keys ks) \<le> unat (kid - ks_id_offset ks)"
  shows "decode_cookie A ks (sealed_cookie A nonce key kid cookie) = None"
  using assms by (simp add: decode_cookie_def Let_def sealed_cookie_def slice_def del: to_be.simps)

section \<open>Rotation\<close>

definition ksp_inv :: "key_set_provider \<Rightarrow> bool" where
  "ksp_inv p \<longleftrightarrow>
     (let cur = ksp_current p in
      keys_wf (ks_keys cur) \<and> unat (ks_primary cur) + 1 = length (ks_keys cur) \<and> ksp_history p + 1 < 2 ^ 32)"

fun ksp_rotations :: "bytes list \<Rightarrow> key_set_provider \<Rightarrow> key_set_provider option" where
  "ksp_rotations [] p = Some p"
| "ksp_rotations (k # ks) p = Option.bind (ksp_rotate k p) (ksp_rotations ks)"

lemma copies_wf:
  assumes "keys_wf keys"
  shows "map (\<lambda>key. cmac512_try_from (key_bytes key)) keys = map Some keys"
  using assms by (auto simp: keys_wf_def cmac512_try_from_def list_all_iff)

lemma keys_wf_drop: "keys_wf keys \<Longrightarrow> keys_wf (drop n keys)"
  by (auto simp: keys_wf_def list_all_iff dest: in_set_dropD)

lemma ksp_rotate_result:
  assumes inv: "ksp_inv p" and k: "length k = 64"
  obtains p' where "ksp_rotate k p = Some p'" "ksp_inv p'" "ksp_history p' = ksp_history p"
    "ks_keys (ksp_current p') =
       drop (length (ks_keys (ksp_current p)) - ksp_history p) (ks_keys (ksp_current p)) @ [AesSivCmac512 k]"
    "ks_id_offset (ksp_current p') =
       ks_id_offset (ksp_current p) + of_nat (length (ks_keys (ksp_current p)) - ksp_history p)"
proof -
  let ?cur = "ksp_current p"
  let ?first = "length (ks_keys ?cur) - ksp_history p"
  let ?keys = "drop ?first (ks_keys ?cur) @ [AesSivCmac512 k]"
  let ?p' = "p\<lparr>ksp_current := \<lparr>ks_keys = ?keys, ks_id_offset = ks_id_offset ?cur + of_nat ?first,
    ks_primary = of_nat (length ?keys) - 1\<rparr>\<rparr>"
  have wf: "keys_wf (ks_keys ?cur)" and h: "ksp_history p + 1 < 2 ^ 32"
    using inv by (simp_all add: ksp_inv_def Let_def)
  have r: "ksp_rotate k p = Some ?p'"
    unfolding ksp_rotate_def Let_def copies_wf [OF keys_wf_drop [OF wf, of ?first]] by (auto simp: comp_def)
  have n: "length ?keys \<le> ksp_history p + 1" "length ?keys = Suc (length (drop ?first (ks_keys ?cur)))" by simp_all
  have "of_nat (length ?keys) - 1 = (of_nat (length (drop ?first (ks_keys ?cur))) :: u32)" unfolding n(2) by simp
  moreover have "length (drop ?first (ks_keys ?cur)) < 2 ^ 32" using n h by linarith
  ultimately have "unat (of_nat (length ?keys) - 1 :: u32) + 1 = length ?keys"
    using n(2) by (simp only: unat_of_nat) (simp add: take_bit_nat_eq_self)
  moreover have "keys_wf ?keys" using keys_wf_drop [OF wf, of ?first] k by (simp add: keys_wf_def)
  ultimately have "ksp_inv ?p'" using h by (simp add: ksp_inv_def Let_def del: length_append)
  with r show thesis by (intro that [of ?p']) simp_all
qed

definition key_id :: "key_set \<Rightarrow> u32" where
  "key_id ks = ks_primary ks + ks_id_offset ks"

lemma ksp_rotate_ages:
  assumes inv: "ksp_inv p" and k: "length k = 64"
  obtains p' where "ksp_rotate k p = Some p'" "ksp_inv p'" "ksp_history p' = ksp_history p"
    "key_id (ksp_current p') = key_id (ksp_current p) + 1"
    "\<And>j. j < length (ks_keys (ksp_current p)) \<Longrightarrow> j < ksp_history p \<Longrightarrow>
       Suc j < length (ks_keys (ksp_current p')) \<and>
       rev (ks_keys (ksp_current p')) ! Suc j = rev (ks_keys (ksp_current p)) ! j"
    "length (ks_keys (ksp_current p')) \<le> Suc (ksp_history p)"
proof -
  let ?cur = "ksp_current p"
  let ?len = "length (ks_keys ?cur)" and ?h = "ksp_history p"
  from ksp_rotate_result [OF assms] obtain p' where r: "ksp_rotate k p = Some p'" "ksp_inv p'" "ksp_history p' = ?h"
    and ks: "ks_keys (ksp_current p') = drop (?len - ?h) (ks_keys ?cur) @ [AesSivCmac512 k]"
    and off: "ks_id_offset (ksp_current p') = ks_id_offset ?cur + of_nat (?len - ?h)" by blast
  let ?cur' = "ksp_current p'"
  have prim: "of_nat (length (ks_keys c)) = ks_primary c + 1" if "ksp_inv q" "c = ksp_current q" for c q
  proof -
    have "length (ks_keys c) = unat (ks_primary c) + 1" using that by (simp add: ksp_inv_def Let_def)
    then show ?thesis by simp
  qed
  have "?len = length (ks_keys ?cur') - 1 + (?len - ?h)" using ks by simp
  then have "(of_nat ?len :: u32) = of_nat (length (ks_keys ?cur') - 1) + of_nat (?len - ?h)"
    using of_nat_add [where ?'a = u32] by metis
  also have "length (ks_keys ?cur') - 1 = unat (ks_primary ?cur')"
    using r(2) by (auto simp: ksp_inv_def Let_def)
  finally have id: "key_id ?cur' = key_id ?cur + 1"
    using prim [OF inv refl] off by (simp add: key_id_def)
  have age: "Suc j < length (ks_keys ?cur') \<and> rev (ks_keys ?cur') ! Suc j = rev (ks_keys ?cur) ! j"
    if "j < ?len" "j < ?h" for j
    using that by (simp add: ks rev_nth)
  from that [OF r id age] ks show thesis by simp
qed

lemma ksp_rotations_age:
  assumes "ksp_inv p" "\<forall>k \<in> set ks. length k = 64"
  shows "\<exists>p'. ksp_rotations ks p = Some p' \<and> ksp_inv p' \<and> ksp_history p' = ksp_history p \<and>
    key_id (ksp_current p') = key_id (ksp_current p) + of_nat (length ks) \<and>
    (\<forall>j. j < length (ks_keys (ksp_current p)) \<longrightarrow> j + length ks \<le> ksp_history p \<longrightarrow>
       j + length ks < length (ks_keys (ksp_current p')) \<and>
       rev (ks_keys (ksp_current p')) ! (j + length ks) = rev (ks_keys (ksp_current p)) ! j) \<and>
    (ks \<noteq> [] \<longrightarrow> length (ks_keys (ksp_current p')) \<le> Suc (ksp_history p))"
  using assms
proof (induction ks arbitrary: p)
  case (Cons k ks)
  then have "length k = 64" by simp
  from ksp_rotate_ages [OF Cons.prems(1) this] obtain q where q: "ksp_rotate k p = Some q" "ksp_inv q"
    "ksp_history q = ksp_history p" "key_id (ksp_current q) = key_id (ksp_current p) + 1"
    "\<And>j. j < length (ks_keys (ksp_current p)) \<Longrightarrow> j < ksp_history p \<Longrightarrow>
       Suc j < length (ks_keys (ksp_current q)) \<and>
       rev (ks_keys (ksp_current q)) ! Suc j = rev (ks_keys (ksp_current p)) ! j"
    "length (ks_keys (ksp_current q)) \<le> Suc (ksp_history p)" by blast
  from Cons.IH [OF q(2)] Cons.prems obtain p' where p': "ksp_rotations ks q = Some p'" "ksp_inv p'"
    "ksp_history p' = ksp_history q" "key_id (ksp_current p') = key_id (ksp_current q) + of_nat (length ks)"
    "\<And>j. j < length (ks_keys (ksp_current q)) \<Longrightarrow> j + length ks \<le> ksp_history q \<Longrightarrow>
       j + length ks < length (ks_keys (ksp_current p')) \<and>
       rev (ks_keys (ksp_current p')) ! (j + length ks) = rev (ks_keys (ksp_current q)) ! j"
    "ks \<noteq> [] \<longrightarrow> length (ks_keys (ksp_current p')) \<le> Suc (ksp_history q)" by auto
  have "j + length (k # ks) < length (ks_keys (ksp_current p')) \<and>
      rev (ks_keys (ksp_current p')) ! (j + length (k # ks)) = rev (ks_keys (ksp_current p)) ! j"
    if "j < length (ks_keys (ksp_current p))" "j + length (k # ks) \<le> ksp_history p" for j
    using q(5) [of j] p'(5) [of "Suc j"] that q(3) by simp
  moreover have "length (ks_keys (ksp_current p')) \<le> Suc (ksp_history p)"
    using p'(1,6) q(3,6) by (cases "ks = []") auto
  ultimately show ?case using q(1,3,4) p'(1-4) by simp
qed simp

lemma unat_sub_of_nat:
  fixes w :: u32
  shows "n \<le> unat w \<Longrightarrow> unat (w - of_nat n) = unat w - n"
    and "unat w < n \<Longrightarrow> n < 2 ^ 32 \<Longrightarrow> unat (w - of_nat n) = 2 ^ 32 + unat w - n"
proof -
  show "unat (w - of_nat n) = unat w - n" if "n \<le> unat w"
  proof -
    have "n < 2 ^ 32" using that unat_lt2p [of w] by simp
    then have "unat (of_nat n :: u32) = n" by (simp add: unat_of_nat take_bit_nat_eq_self)
    with that show ?thesis by (simp add: unat_sub word_le_nat_alt)
  qed
  show "unat (w - of_nat n) = 2 ^ 32 + unat w - n" if "unat w < n" "n < 2 ^ 32"
  proof -
    have "(of_nat (2 ^ 32) :: u32) = 0" by simp
    moreover have "of_nat (2 ^ 32 + unat w - n) = (of_nat (2 ^ 32) + of_nat (unat w) - of_nat n :: u32)"
      using that(2) by (simp only: of_nat_diff less_imp_le trans_le_add1 of_nat_add)
    ultimately have "w - of_nat n = of_nat (2 ^ 32 + unat w - n)" by simp
    moreover have "2 ^ 32 + unat w - n < 2 ^ 32" using that by linarith
    ultimately show ?thesis by (simp only: unat_of_nat) (simp add: take_bit_nat_eq_self)
  qed
qed

lemma ksp_inv_primary: "ksp_inv p \<Longrightarrow> unat (ks_primary (ksp_current p)) < length (ks_keys (ksp_current p))"
  by (simp add: ksp_inv_def Let_def)

lemma ksp_inv_new: "length key = 64 \<Longrightarrow> history + 1 < 2 ^ 32 \<Longrightarrow> ksp_inv (ksp_new key history)"
  by (simp add: ksp_inv_def ksp_new_def keys_wf_def)

lemma primary_is_newest:
  "ksp_inv p \<Longrightarrow> rev (ks_keys (ksp_current p)) ! 0 = ks_keys (ksp_current p) ! unat (ks_primary (ksp_current p))"
  by (cases "ks_keys (ksp_current p)" rule: rev_cases) (auto simp: ksp_inv_def Let_def)

lemma index_of_old_key:
  assumes "key_id (ksp_current p') = key_id (ksp_current p) + of_nat n"
  shows "ks_primary (ksp_current p) + ks_id_offset (ksp_current p) - ks_id_offset (ksp_current p') =
    ks_primary (ksp_current p') - of_nat n"
  using assms by (simp add: key_id_def algebra_simps)

text \<open>
  C16: a cookie outlives as many key rotations as the history keeps. A provider of key sets whose
  primary key is its newest, as \<^verbatim>\<open>new\<close> and \<^verbatim>\<open>rotate\<close> leave it, makes cookies that any of the next
  \<open>history\<close> key sets opens, giving back the algorithm and both keys; neither the encoding nor a
  rotation panics.
\<close>
theorem cookies_survive_rotations:
  assumes "aead_correct A" "aead_overhead A" "length nonce = 16" "cookie_wf cookie"
    and "ksp_inv p" "\<forall>k \<in> set new_keys. length k = 64" "length new_keys \<le> ksp_history p"
  shows "\<exists>c p'. encode_cookie A nonce (ksp_current p) cookie = Some c \<and>
    ksp_rotations new_keys p = Some p' \<and> decode_cookie A (ksp_current p') c = Some cookie"
proof -
  let ?n = "length new_keys" and ?ks = "ksp_current p"
  let ?c = "sealed_cookie A nonce (ks_keys ?ks ! unat (ks_primary ?ks)) (ks_primary ?ks + ks_id_offset ?ks) cookie"
  have enc: "encode_cookie A nonce ?ks cookie = Some ?c"
    using encode_cookie_sealed [OF ksp_inv_primary [OF assms(5)] assms(3,2)] .
  obtain p' where p': "ksp_rotations new_keys p = Some p'" "ksp_inv p'"
    "key_id (ksp_current p') = key_id ?ks + of_nat ?n"
    and age: "0 + ?n < length (ks_keys (ksp_current p'))"
      "rev (ks_keys (ksp_current p')) ! (0 + ?n) = rev (ks_keys ?ks) ! 0"
    using ksp_rotations_age [OF assms(5,6)] ksp_inv_primary [OF assms(5)] assms(7)
    by (metis add_0 bot_nat_0.not_eq_extremum not_less_zero)
  have len: "length (ks_keys (ksp_current p')) = unat (ks_primary (ksp_current p')) + 1"
    using p'(2) by (simp add: ksp_inv_def Let_def)
  have i: "unat (ks_primary ?ks + ks_id_offset ?ks - ks_id_offset (ksp_current p')) =
      unat (ks_primary (ksp_current p')) - ?n"
    using index_of_old_key [OF p'(3)] unat_sub_of_nat(1) age(1) len by simp
  have "ks_keys (ksp_current p') ! (unat (ks_primary (ksp_current p')) - ?n) = ks_keys ?ks ! unat (ks_primary ?ks)"
    using age len primary_is_newest [OF assms(5)] by (simp add: rev_nth)
  then have "decode_cookie A (ksp_current p') ?c = Some cookie"
    using i len by (intro decode_sealed_cookie assms(1-4)) simp_all
  with enc p'(1) show ?thesis by blast
qed

text \<open>
  C17: a cookie is refused once its key has been rotated out. After more than \<open>history\<close> and fewer
  than \<open>2 ^ 32\<close> rotations the identifier in the cookie names no key, so that the cookie is rejected
  without trying any other key.
\<close>
theorem cookies_expire:
  assumes "aead_overhead A" "length nonce = 16" "ksp_inv p" "\<forall>k \<in> set new_keys. length k = 64"
    and "ksp_history p < length new_keys" "length new_keys < 2 ^ 32"
  shows "\<exists>c p'. encode_cookie A nonce (ksp_current p) cookie = Some c \<and>
    ksp_rotations new_keys p = Some p' \<and> decode_cookie A (ksp_current p') c = None"
proof -
  let ?n = "length new_keys" and ?ks = "ksp_current p"
  let ?c = "sealed_cookie A nonce (ks_keys ?ks ! unat (ks_primary ?ks)) (ks_primary ?ks + ks_id_offset ?ks) cookie"
  have enc: "encode_cookie A nonce ?ks cookie = Some ?c"
    using encode_cookie_sealed [OF ksp_inv_primary [OF assms(3)] assms(2,1)] .
  obtain p' where p': "ksp_rotations new_keys p = Some p'" "ksp_inv p'"
    "key_id (ksp_current p') = key_id ?ks + of_nat ?n"
    "length (ks_keys (ksp_current p')) \<le> Suc (ksp_history p)"
    using ksp_rotations_age [OF assms(3,4)] assms(5) by (metis list.size(3) not_less_zero)
  have len: "length (ks_keys (ksp_current p')) = unat (ks_primary (ksp_current p')) + 1"
    using p'(2) by (simp add: ksp_inv_def Let_def)
  have "unat (ks_primary ?ks + ks_id_offset ?ks - ks_id_offset (ksp_current p')) =
      2 ^ 32 + unat (ks_primary (ksp_current p')) - ?n"
    using index_of_old_key [OF p'(3)] unat_sub_of_nat(2) assms(5,6) p'(4) len by simp
  then have "decode_cookie A (ksp_current p') ?c = None"
    using len assms(6) by (intro decode_cookie_unknown_key) simp
  with enc p'(1) show ?thesis by blast
qed

definition example_cookie :: decoded_server_cookie where
  "example_cookie = \<lparr>dsc_algorithm = AeadAesSivCmac256, dsc_s2c = AesSivCmac256 (replicate 32 1),
     dsc_c2s = AesSivCmac256 (replicate 32 2)\<rparr>"

theorem cookies_survive_rotations_witness:
  "\<exists>c p'. encode_cookie example_aead (replicate 16 7) (ksp_current (ksp_new (replicate 64 3) 2)) example_cookie = Some c \<and>
    ksp_rotations [replicate 64 4, replicate 64 5] (ksp_new (replicate 64 3) 2) = Some p' \<and>
    decode_cookie example_aead (ksp_current p') c = Some example_cookie"
  by (rule cookies_survive_rotations [OF example_aead_ok])
    (simp_all add: ksp_inv_new example_cookie_def, simp add: ksp_new_def)

theorem cookies_expire_witness:
  "\<exists>c p'. encode_cookie example_aead (replicate 16 7) (ksp_current (ksp_new (replicate 64 3) 1)) example_cookie = Some c \<and>
    ksp_rotations [replicate 64 4, replicate 64 5] (ksp_new (replicate 64 3) 1) = Some p' \<and>
    decode_cookie example_aead (ksp_current p') c = None"
  by (rule cookies_expire [OF example_aead_ok(2)])
    (simp_all add: ksp_inv_new, simp add: ksp_new_def)

section \<open>Which cookie a request is read with\<close>

fun cookie_field :: "ext_field \<Rightarrow> bytes option" where
  "cookie_field (NtsCookie c) = Some c"
| "cookie_field _ = None"

definition cookie_fields :: "ext_field list \<Rightarrow> bytes list" where
  "cookie_fields efs = List.map_filter cookie_field efs"

lemma cookie_fields_simps [simp]:
  "cookie_fields [] = []"
  "cookie_fields (ef # efs) = (case cookie_field ef of None \<Rightarrow> cookie_fields efs | Some c \<Rightarrow> c # cookie_fields efs)"
  by (simp_all add: cookie_fields_def List.map_filter_def split: option.split)

lemma keyset_get_from_Some:
  "keyset_get_from A ks (Some d) efs =
     (if cookie_fields efs = [] then Some (HDecodedServerCookie d) else None)"
proof (induction efs)
  case (Cons ef efs)
  then show ?case by (cases ef) simp_all
qed simp

lemma keyset_get_only_cookie:
  "keyset_get A ks efs =
     (case cookie_fields efs of
        [c] \<Rightarrow> map_option HDecodedServerCookie (decode_cookie A ks c)
      | _ \<Rightarrow> None)"
proof -
  have "keyset_get_from A ks None efs =
     (case cookie_fields efs of
        [c] \<Rightarrow> map_option HDecodedServerCookie (decode_cookie A ks c)
      | _ \<Rightarrow> None)"
  proof (induction efs)
    case (Cons ef efs)
    then show ?case
      by (cases ef) (auto simp: keyset_get_from_Some split: option.split list.split)
  qed simp
  then show ?thesis by (simp add: keyset_get_def)
qed

text \<open>
  A request is decrypted with the keys of its only cookie. The key set offers a cipher exactly
  when there is one cookie among the fields in front of the encrypted field and that cookie opens;
  with no cookie, with two, or with one that does not open it offers none.
\<close>
lemma keyset_uses_the_only_cookie:
  "keyset_get A ks efs =
     (case cookie_fields efs of
        [c] \<Rightarrow> map_option HDecodedServerCookie (decode_cookie A ks c)
      | _ \<Rightarrow> None)"
  by (rule keyset_get_only_cookie)

section \<open>The key file\<close>

lemma read_exact_append [simp]: "length xs = n \<Longrightarrow> read_exact n (xs @ ys) = Inr (xs, ys)"
  by (simp add: read_exact_def)

definition ksp_file :: "key_set_provider \<times> u64 \<Rightarrow> bytes" where
  "ksp_file = (\<lambda>(p, time). let cur = ksp_current p in
     u64_to_be time @ u32_to_be (ks_id_offset cur) @ u32_to_be (ks_primary cur) @
     u32_to_be (of_nat (length (ks_keys cur))) @ concat (map key_bytes (ks_keys cur)))"

definition ksp_storable :: "nat \<Rightarrow> key_set_provider \<times> u64 \<Rightarrow> bool" where
  "ksp_storable history = (\<lambda>(p, time). let cur = ksp_current p in
     ksp_history p = history \<and> keys_wf (ks_keys cur) \<and> length (ks_keys cur) < 2 ^ 32 \<and>
     unat (ks_primary cur) \<le> length (ks_keys cur) \<and> unat time < 2 ^ 63)"

lemma ksp_store_writes: "writes (ksp_store time p) (ksp_file (p, time))"
proof -
  let ?cur = "ksp_current p"
  let ?ds = "[u64_to_be time, u32_to_be (ks_id_offset ?cur), u32_to_be (ks_primary ?cur),
    u32_to_be (of_nat (length (ks_keys ?cur)))] @ map key_bytes (ks_keys ?cur)"
  have "writes (write_seq (map write_all ?ds)) (concat ?ds)" by (rule write_seq_map_write_all)
  then show ?thesis
    by (simp add: ksp_store_def ksp_file_def Let_def writes_def comp_def del: write_seq.simps to_be.simps)
qed

lemma load_keys_concat:
  "keys_wf keys \<Longrightarrow> load_keys (length keys) (concat (map key_bytes keys) @ r) = Inr (keys, r)"
  by (induction keys) (auto simp: keys_wf_def)

lemma ksp_load_file:
  assumes "ksp_storable history x"
  shows "ksp_load history (ksp_file x @ r) = Inr (x, r)"
proof -
  obtain p time where x: "x = (p, time)" by (cases x)
  let ?cur = "ksp_current p"
  let ?n = "length (ks_keys ?cur)"
  have wf: "keys_wf (ks_keys ?cur)" "unat (ks_primary ?cur) \<le> ?n" "unat time < 2 ^ 63" "ksp_history p = history"
    and n: "unat (of_nat ?n :: u32) = ?n"
    using assms by (simp_all add: x ksp_storable_def Let_def unat_of_nat take_bit_nat_eq_self)
  define hd where "hd = u64_to_be time @ u32_to_be (ks_id_offset ?cur) @ u32_to_be (ks_primary ?cur) @ u32_to_be (of_nat ?n)"
  have parts: "length hd = 20" "slice 0 8 hd = u64_to_be time" "slice 8 12 hd = u32_to_be (ks_id_offset ?cur)"
    "slice 12 16 hd = u32_to_be (ks_primary ?cur)" "slice 16 20 hd = u32_to_be (of_nat ?n)"
    by (simp_all add: hd_def slice_def del: to_be.simps)
  have "ks_primary ?cur \<le> of_nat ?n" using wf(2) n by (simp add: word_le_nat_alt)
  moreover have "ksp_file x @ r = hd @ concat (map key_bytes (ks_keys ?cur)) @ r"
    by (simp add: ksp_file_def x hd_def Let_def)
  ultimately show ?thesis
    using parts wf n load_keys_concat [OF wf(1)]
    by (simp add: ksp_load_def Let_def x not_less not_le del: to_be.simps) 
qed

interpretation keyfile: prefix_codec ksp_file "ksp_load history" "ksp_storable history" for history
  by unfold_locales (rule ksp_load_file)

text \<open>
  C18: a key file gives back what was stored. Storing a provider with well-formed keys and loading
  the file with the same history returns the same key set, in the same order and with the same
  primary key and identifiers, together with the time of the file, and leaves nothing unread.
\<close>
theorem key_file_roundtrip:
  assumes "ksp_storable history (p, time)"
    and "ksp_store time p (new_cursor buf) = Inr w"
  shows "ksp_load history (take (cur_pos w) (cur_buf w)) = Inr ((p, time), [])"
proof -
  have "take (cur_pos w) (cur_buf w) = ksp_file (p, time)"
    using writes_success(4) [OF ksp_store_writes assms(2)] by (simp add: new_cursor_def)
  with keyfile.dec_enc [OF assms(1), of "[]"] show ?thesis by simp
qed

theorem key_file_roundtrip_witness:
  "\<exists>w. ksp_store 5 (ksp_new (replicate 64 3) 2) (new_cursor (replicate 90 0)) = Inr w \<and>
     ksp_load 2 (take (cur_pos w) (cur_buf w)) = Inr ((ksp_new (replicate 64 3) 2, 5), [])"
proof -
  let ?p = "ksp_new (replicate 64 3) 2"
  obtain w where w: "ksp_store 5 ?p (new_cursor (replicate 90 0)) = Inr w"
    using writes_fits [OF ksp_store_writes [of 5 ?p], of "new_cursor (replicate 90 0)"]
    by (auto simp: ksp_file_def ksp_new_def new_cursor_def)
  have "ksp_storable 2 (?p, 5)" by (simp add: ksp_storable_def ksp_new_def keys_wf_def)
  from key_file_roundtrip [OF this w] w show ?thesis by blast
qed


end
