(* ===== verification/Cookie_Stash.thy ===== *)
theory Cookie_Stash
  imports Ntp_Prelude "HOL-Library.Sublist"
begin

text \<open>
  The NTS cookie store of \<^verbatim>\<open>ntp-proto/src/cookiestash.rs\<close>: a ring buffer of eight slots that
  overwrites the oldest cookie when it is full. The interface its client, the NTP source, relies on
  is a bounded first-in first-out store.
\<close>

section \<open>The interface\<close>

datatype 'c store_op = Store 'c | Get

fun store_outputs :: "('s \<Rightarrow> 'c \<Rightarrow> 's) \<Rightarrow> ('s \<Rightarrow> 'c option \<times> 's) \<Rightarrow> 's \<Rightarrow> 'c store_op list \<Rightarrow> 'c list"
  where
  "store_outputs put pop s [] = []"
| "store_outputs put pop s (Store c # ops) = store_outputs put pop (put s c) ops"
| "store_outputs put pop s (Get # ops) =
     (case fst (pop s) of None \<Rightarrow> [] | Some c \<Rightarrow> [c]) @ store_outputs put pop (snd (pop s)) ops"

fun store_inputs :: "'c store_op list \<Rightarrow> 'c list" where
  "store_inputs [] = []"
| "store_inputs (Store c # ops) = c # store_inputs ops"
| "store_inputs (Get # ops) = store_inputs ops"

lemma subseq_tl_append: "subseq ys (tl xs @ zs) \<Longrightarrow> subseq ys (xs @ zs)"
  by (cases xs) (auto intro: list_emb_Cons)

locale fifo_store =
  fixes put :: "'s \<Rightarrow> 'c \<Rightarrow> 's"
    and pop :: "'s \<Rightarrow> 'c option \<times> 's"
    and contents :: "'s \<Rightarrow> 'c list"
    and invar :: "'s \<Rightarrow> bool"
    and cap :: nat
  assumes put_invar: "invar s \<Longrightarrow> invar (put s c)"
    and pop_invar: "invar s \<Longrightarrow> invar (snd (pop s))"
    and put_contents:
      "invar s \<Longrightarrow> contents (put s c) =
         (if length (contents s) < cap then contents s else tl (contents s)) @ [c]"
    and pop_contents:
      "invar s \<Longrightarrow> contents (snd (pop s)) = tl (contents s)"
    and pop_result:
      "invar s \<Longrightarrow> fst (pop s) = (case contents s of [] \<Rightarrow> None | c # _ \<Rightarrow> Some c)"
    and cap_pos: "0 < cap"
    and cap_bound: "invar s \<Longrightarrow> length (contents s) \<le> cap"
begin

lemma outputs_subseq:
  "invar s \<Longrightarrow> subseq (store_outputs put pop s ops) (contents s @ store_inputs ops)"
proof (induction ops arbitrary: s)
  case Nil
  then show ?case by simp
next
  case (Cons op ops)
  show ?case
  proof (cases op)
    case (Store c)
    have "subseq (store_outputs put pop (put s c) ops) (contents (put s c) @ store_inputs ops)"
      using Cons by (simp add: put_invar)
    with Store Cons.prems show ?thesis
      by (auto simp: put_contents split: if_splits intro: subseq_tl_append)
  next
    case Get
    have "subseq (store_outputs put pop (snd (pop s)) ops) (tl (contents s) @ store_inputs ops)"
      using Cons by (metis pop_contents pop_invar)
    with Get Cons.prems show ?thesis
      by (cases "contents s") (simp_all add: pop_result)
  qed
qed

lemma put_all_contents:
  "invar s \<Longrightarrow> contents (fold (\<lambda>c s. put s c) cs s) =
     drop (length (contents s) + length cs - cap) (contents s @ cs)"
proof (induction cs arbitrary: s)
  case Nil
  then show ?case using cap_bound [of s] by simp
next
  case (Cons c cs)
  have "contents (fold (\<lambda>c s. put s c) (c # cs) s) =
      drop (length (contents (put s c)) + length cs - cap) (contents (put s c) @ cs)"
    using Cons by (simp add: put_invar)
  also have "\<dots> = drop (length (contents s) + length (c # cs) - cap) (contents s @ c # cs)"
  proof (cases "length (contents s) < cap")
    case True
    with Cons.prems show ?thesis by (simp add: put_contents)
  next
    case False
    with Cons.prems cap_bound [of s] cap_pos show ?thesis
      by (cases "contents s") (auto simp: put_contents)
  qed
  finally show ?case .
qed

lemma pop_None_iff: "invar s \<Longrightarrow> fst (pop s) = None \<longleftrightarrow> contents s = []"
  by (simp add: pop_result split: list.split)

end

section \<open>The ring buffer\<close>

definition MAX_COOKIES :: nat where
  "MAX_COOKIES = 8"

record cookie_stash =
  cookies :: "bytes list"
  read_pos :: nat
  valid_count :: nat

definition cookie_stash_default :: cookie_stash where
  "cookie_stash_default = \<lparr>cookies = replicate MAX_COOKIES [], read_pos = 0, valid_count = 0\<rparr>"

definition stash_store :: "cookie_stash \<Rightarrow> bytes \<Rightarrow> cookie_stash" where
  "stash_store s cookie =
     (let n = length (cookies s);
          wpos = (read_pos s + valid_count s) mod n;
          s' = s\<lparr>cookies := (cookies s)[wpos := cookie]\<rparr>
      in if valid_count s < n then s'\<lparr>valid_count := valid_count s + 1\<rparr>
         else s'\<lparr>read_pos := (read_pos s + 1) mod n\<rparr>)"

definition stash_get :: "cookie_stash \<Rightarrow> bytes option \<times> cookie_stash" where
  "stash_get s =
     (if valid_count s = 0 then (None, s)
      else (Some (cookies s ! read_pos s),
            s\<lparr>cookies := (cookies s)[read_pos s := []],
              read_pos := (read_pos s + 1) mod length (cookies s),
              valid_count := valid_count s - 1\<rparr>))"

definition stash_gap :: "cookie_stash \<Rightarrow> byte" where
  "stash_gap s = of_nat (length (cookies s) - valid_count s)"

definition stash_len :: "cookie_stash \<Rightarrow> nat" where
  "stash_len s = valid_count s"

definition stash_is_empty :: "cookie_stash \<Rightarrow> bool" where
  "stash_is_empty s \<longleftrightarrow> valid_count s = 0"

section \<open>Invariant and abstraction\<close>

definition stash_inv :: "cookie_stash \<Rightarrow> bool" where
  "stash_inv s \<longleftrightarrow> length (cookies s) = MAX_COOKIES \<and> read_pos s < MAX_COOKIES \<and>
     valid_count s \<le> MAX_COOKIES"

definition stash_contents :: "cookie_stash \<Rightarrow> bytes list" where
  "stash_contents s =
     map (\<lambda>i. cookies s ! ((read_pos s + i) mod length (cookies s))) [0..<valid_count s]"

lemma stash_inv_default: "stash_inv cookie_stash_default"
  by (simp add: stash_inv_def cookie_stash_default_def MAX_COOKIES_def)

lemma stash_contents_default: "stash_contents cookie_stash_default = []"
  by (simp add: stash_contents_def cookie_stash_default_def)

lemma length_stash_contents [simp]: "length (stash_contents s) = valid_count s"
  by (simp add: stash_contents_def)

lemma nth_stash_contents [simp]:
  "i < valid_count s \<Longrightarrow>
    stash_contents s ! i = cookies s ! ((read_pos s + i) mod length (cookies s))"
  by (simp add: stash_contents_def)

lemma ring_index_inj:
  assumes "i < 8" "j < 8"
  shows "(r + i) mod 8 = (r + j) mod (8 :: nat) \<longleftrightarrow> i = j"
proof
  assume "(r + i) mod 8 = (r + j) mod 8"
  then have "int (r + i) mod 8 = int (r + j) mod 8" by (metis of_nat_mod of_nat_numeral)
  then have "8 dvd int i - int j" by (simp add: mod_eq_dvd_iff)
  with assms show "i = j" by presburger
qed simp

lemma ring_next: "r < 8 \<Longrightarrow> i < 8 \<Longrightarrow> (r + Suc i) mod 8 = r \<longleftrightarrow> i = (7 :: nat)"
  by (simp add: mod_if) linarith

lemma ring_shift: "((r + 1) mod 8 + i) mod 8 = (r + Suc i) mod (8 :: nat)"
  using mod_add_left_eq [of "r + 1" 8 i] by simp

lemma stash_store_inv: "stash_inv s \<Longrightarrow> stash_inv (stash_store s c)"
  by (auto simp: stash_inv_def stash_store_def Let_def MAX_COOKIES_def)

lemma stash_get_inv: "stash_inv s \<Longrightarrow> stash_inv (snd (stash_get s))"
  by (auto simp: stash_inv_def stash_get_def MAX_COOKIES_def)

lemma stash_store_contents:
  assumes "stash_inv s"
  shows "stash_contents (stash_store s c) =
    (if length (stash_contents s) < MAX_COOKIES then stash_contents s else tl (stash_contents s)) @ [c]"
    (is "?lhs = ?rhs")
proof (cases "valid_count s < 8")
  case True
  from assms have v: "length (cookies s) = 8" by (simp add: stash_inv_def MAX_COOKIES_def)
  have st: "stash_store s c = s\<lparr>cookies := (cookies s)[(read_pos s + valid_count s) mod 8 := c],
      valid_count := valid_count s + 1\<rparr>"
    using True v by (simp add: stash_store_def)
  show ?thesis
  proof (rule nth_equalityI)
    show "length ?lhs = length ?rhs" using True by (simp add: st MAX_COOKIES_def)
    fix i assume "i < length ?lhs"
    then have "i = valid_count s \<or> i < valid_count s" by (auto simp: st)
    then show "?lhs ! i = ?rhs ! i"
      using True v ring_index_inj [of i "valid_count s" "read_pos s"]
      by (auto simp: st MAX_COOKIES_def nth_append nth_list_update)
  qed
next
  case False
  with assms have v: "valid_count s = 8" "length (cookies s) = 8" "read_pos s < 8"
    by (auto simp: stash_inv_def MAX_COOKIES_def)
  have st: "stash_store s c = s\<lparr>cookies := (cookies s)[read_pos s := c],
      read_pos := (read_pos s + 1) mod 8\<rparr>"
    using v by (simp add: stash_store_def)
  have r: "(read_pos s + Suc i) mod 8 = read_pos s \<longleftrightarrow> i = 7" if "i < 8" for i
    using v(3) that by (rule ring_next)
  show ?thesis
  proof (rule nth_equalityI)
    show "length ?lhs = length ?rhs" using v by (simp add: st MAX_COOKIES_def)
    fix i assume "i < length ?lhs"
    then have i: "i < 8" using v by (simp add: st)
    have "?lhs ! i = (cookies s)[read_pos s := c] ! ((read_pos s + Suc i) mod 8)"
      using i v by (simp add: st ring_shift del: add_Suc_right One_nat_def)
    with i v r [of i] show "?lhs ! i = ?rhs ! i"
      by (cases "i = 7") (simp_all add: MAX_COOKIES_def nth_append nth_tl nth_list_update)
  qed
qed

lemma stash_get_contents:
  assumes "stash_inv s"
  shows "stash_contents (snd (stash_get s)) = tl (stash_contents s)" (is "?lhs = ?rhs")
proof (cases "valid_count s = 0")
  case True
  then show ?thesis by (simp add: stash_get_def stash_contents_def)
next
  case False
  with assms have v: "valid_count s \<le> 8" "length (cookies s) = 8" "read_pos s < 8"
    by (auto simp: stash_inv_def MAX_COOKIES_def)
  have r: "(read_pos s + Suc i) mod 8 \<noteq> read_pos s" if "i < 7" for i
    using ring_next [OF v(3), of i] that by simp
  show ?thesis
  proof (rule nth_equalityI)
    show "length ?lhs = length ?rhs" using False by (simp add: stash_get_def)
    fix i assume "i < length ?lhs"
    then have i: "i < valid_count s - 1" using False by (simp add: stash_get_def)
    have "?lhs ! i = (cookies s)[read_pos s := []] ! ((read_pos s + Suc i) mod 8)"
      using i v False by (simp add: stash_get_def ring_shift del: add_Suc_right One_nat_def)
    moreover have "(read_pos s + Suc i) mod 8 \<noteq> read_pos s" using i v by (intro r) simp
    ultimately show "?lhs ! i = ?rhs ! i"
      using i v False by (simp add: nth_tl)
  qed
qed

lemma stash_get_result:
  assumes "stash_inv s"
  shows "fst (stash_get s) = (case stash_contents s of [] \<Rightarrow> None | c # _ \<Rightarrow> Some c)"
proof (cases "valid_count s = 0")
  case True
  then show ?thesis by (simp add: stash_get_def stash_contents_def)
next
  case False
  then have "[0..<valid_count s] = 0 # [1..<valid_count s]" by (simp add: upt_rec)
  with False assms show ?thesis
    by (simp add: stash_get_def stash_contents_def stash_inv_def MAX_COOKIES_def)
qed

interpretation stash: fifo_store stash_store stash_get stash_contents stash_inv MAX_COOKIES
proof unfold_locales
  fix s assume "stash_inv s"
  then show "length (stash_contents s) \<le> MAX_COOKIES" by (simp add: stash_inv_def)
qed (simp_all add: stash_store_inv stash_get_inv stash_store_contents stash_get_contents
       stash_get_result MAX_COOKIES_def)

section \<open>Properties\<close>

text \<open>
  Whatever the order in which cookies are stored and taken, the cookies a fresh stash hands out
  form a subsequence of the cookies that were stored. No cookie is handed out more often than it
  was stored, none is made up, and an older cookie is handed out before a newer one.
\<close>
lemma cookies_are_used_in_order_and_once:
  "subseq (store_outputs stash_store stash_get cookie_stash_default ops) (store_inputs ops)"
  using stash.outputs_subseq [OF stash_inv_default, of ops] by (simp add: stash_contents_default)

text \<open>
  Storing any number of cookies in a well-formed stash keeps exactly the newest eight of the
  old and the new cookies, oldest first, and the number of free slots the client asks new cookies
  for is eight minus that number; the stash stays well-formed.
\<close>
lemma stash_keeps_newest:
  assumes "stash_inv s"
  shows "let s' = fold (\<lambda>c s. stash_store s c) cs s; n = length (stash_contents s) + length cs in
    stash_contents s' = drop (n - 8) (stash_contents s @ cs) \<and> stash_inv s' \<and>
    unat (stash_gap s') = 8 - n"
proof -
  let ?s' = "fold (\<lambda>c s. stash_store s c) cs s"
  have c: "stash_contents ?s' =
      drop (length (stash_contents s) + length cs - MAX_COOKIES) (stash_contents s @ cs)"
    using assms by (rule stash.put_all_contents)
  moreover have inv: "stash_inv ?s'"
    using assms by (induction cs arbitrary: s) (simp_all add: stash_store_inv)
  moreover have "valid_count ?s' = min (length (stash_contents s) + length cs) 8"
    using arg_cong [OF c, of length] by (simp add: MAX_COOKIES_def)
  ultimately show ?thesis
    by (simp add: Let_def stash_gap_def stash_inv_def MAX_COOKIES_def unsigned_of_nat
        take_bit_nat_eq_self)
qed

end
