(* ===== verification/Packet.thy ===== *)
theory Packet
  imports Key_Set Cookie_Stash
begin

text \<open>
  Whole packets: \<^verbatim>\<open>NtpPacket\<close> of \<^verbatim>\<open>ntp-proto/src/packet/mod.rs\<close>, with parsing and
  serialisation, the requests a client makes, the responses a server makes, and the tests a client
  applies to a response. Values drawn from the random generator and readings of the clock are
  arguments. A response that the source declares \<^verbatim>\<open>unreachable!\<close>, or whose cookies cannot be
  encoded, aborts the process and is \<open>None\<close>.
\<close>

section \<open>Parsing and serialisation\<close>

datatype ntp_header = HV3 header_v3v4 | HV4 header_v3v4 | HV5 header_v5

record ntp_packet =
  header :: ntp_header
  efdata :: ext_field_data
  packet_mac :: "mac option"

type_synonym packet_parsing_error = "ntp_packet parsing_error"

fun find_draft_id :: "ext_field list \<Rightarrow> bytes option" where
  "find_draft_id [] = None"
| "find_draft_id (DraftIdentification v # efs) = Some v"
| "find_draft_id (_ # efs) = find_draft_id efs"

definition draft_id :: "ntp_packet \<Rightarrow> bytes option" where
  "draft_id p = find_draft_id (untrusted (efdata p) @ authenticated (efdata p))"

definition construct_packet :: "ntp_header \<Rightarrow> bytes \<Rightarrow> ext_field_data \<Rightarrow> packet_parsing_error + ntp_packet" where
  "construct_packet hdr remaining efs =
     (if remaining = [] then Inr \<lparr>header = hdr, efdata = efs, packet_mac = None\<rparr>
      else bindR (mac_deserialize remaining) (\<lambda>m. Inr \<lparr>header = hdr, efdata = efs, packet_mac = Some m\<rparr>))"

text \<open>The extension fields of a version 4 or 5 packet, behind a header that has been parsed.\<close>

definition packet_with_fields ::
  "aead \<Rightarrow> ntp_header \<Rightarrow> bytes \<Rightarrow> nat \<Rightarrow> cipher_provider \<Rightarrow> ext_version \<Rightarrow>
   packet_parsing_error + ntp_packet \<times> decoded_server_cookie option" where
  "packet_with_fields A hdr data header_size provider version =
     (case efdata_deserialize A data header_size provider version of
        Inr decoded \<Rightarrow>
          bindR (construct_packet hdr (def_remaining decoded) (def_efdata decoded)) (\<lambda>p.
          Inr (p, def_cookie decoded))
      | Inl e \<Rightarrow>
          bindR (get_decrypt_error e) (\<lambda>invalid.
          bindR (construct_packet hdr (inv_remaining invalid) (inv_efdata invalid)) (\<lambda>p.
          Inl (DecryptError p))))"

definition packet_deserialize ::
  "aead \<Rightarrow> bytes \<Rightarrow> cipher_provider \<Rightarrow> packet_parsing_error + ntp_packet \<times> decoded_server_cookie option" where
  "packet_deserialize A data provider =
     (if data = [] then Inl IncorrectLength
      else
        let version = drop_bit 3 (data ! 0 AND 0x38) in
        if version = 3 then
          bindR (h4_deserialize data) (\<lambda>(hdr, header_size).
          if header_size \<noteq> length data then
            bindR (mac_deserialize (drop header_size data)) (\<lambda>m.
            Inr (\<lparr>header = HV3 hdr, efdata = ext_field_data_default, packet_mac = Some m\<rparr>, None))
          else Inr (\<lparr>header = HV3 hdr, efdata = ext_field_data_default, packet_mac = None\<rparr>, None))
        else if version = 4 then
          bindR (h4_deserialize data) (\<lambda>(hdr, header_size).
          packet_with_fields A (HV4 hdr) data header_size provider EfV4)
        else if version = 5 then
          bindR (h5_deserialize data) (\<lambda>(hdr, header_size).
          bindR (packet_with_fields A (HV5 hdr) data header_size provider EfV5) (\<lambda>(p, cookie).
          if draft_id p = Some DRAFT_VERSION then Inr (p, cookie)
          else Inl (V5 InvalidDraftIdentification)))
        else Inl (InvalidVersion version))"

definition packet_serialize :: "aead \<Rightarrow> bytes \<Rightarrow> ntp_packet \<Rightarrow> cipher_provider \<Rightarrow> nat option \<Rightarrow> writer" where
  "packet_serialize A nonce p provider desired_size w =
     (let start = cur_pos w in
      bindR (case header p of
               HV3 h \<Rightarrow> h4_serialize h 3 w
             | HV4 h \<Rightarrow> h4_serialize h 4 w
             | HV5 h \<Rightarrow> h5_serialize h w) (\<lambda>w.
      bindR (case header p of
               HV3 _ \<Rightarrow> Inr w
             | HV4 _ \<Rightarrow> efdata_serialize A nonce (efdata p) provider EfV4 w
             | HV5 _ \<Rightarrow> efdata_serialize A nonce (efdata p) provider EfV5 w) (\<lambda>w.
      bindR (case packet_mac p of None \<Rightarrow> Inr w | Some m \<Rightarrow> mac_serialize m w) (\<lambda>w.
      case (header p, desired_size) of
        (HV5 _, Some desired) \<Rightarrow>
          let written = cur_pos w - start in
          if desired > written then ef_serialize (Padding (desired - written)) 4 EfV5 w
          else Inr w
      | _ \<Rightarrow> Inr w))))"

section \<open>Requests\<close>

text \<open>
  The first arguments are the random transmit timestamp or client cookie and the random unique
  identifier.
\<close>

definition nts_request_fields :: "bytes \<Rightarrow> bytes \<Rightarrow> byte \<Rightarrow> ext_field list" where
  "nts_request_fields uid cookie new_cookies =
     [UniqueIdentifier uid, NtsCookie cookie] @
     replicate (unat new_cookies - 1) (NtsCookiePlaceholder (of_nat (length cookie)))"

definition nts_poll_message ::
  "ntp_timestamp \<Rightarrow> bytes \<Rightarrow> bytes \<Rightarrow> byte \<Rightarrow> poll_interval \<Rightarrow> ntp_packet \<times> request_identifier" where
  "nts_poll_message rnd uid cookie new_cookies poll_interval =
     (let (hdr, id) = h4_poll_message rnd poll_interval in
      (\<lparr>header = HV4 hdr,
        efdata = \<lparr>authenticated = nts_request_fields uid cookie new_cookies, encrypted = [], untrusted = []\<rparr>,
        packet_mac = None\<rparr>,
       id\<lparr>rqid_uid := Some uid\<rparr>))"

definition nts_poll_message_v5 ::
  "client_cookie \<Rightarrow> bytes \<Rightarrow> bytes \<Rightarrow> byte \<Rightarrow> poll_interval \<Rightarrow> ntp_packet \<times> request_identifier" where
  "nts_poll_message_v5 rnd uid cookie new_cookies poll_interval =
     (let (hdr, id) = h5_poll_message rnd poll_interval in
      (\<lparr>header = HV5 hdr,
        efdata = \<lparr>authenticated = nts_request_fields uid cookie new_cookies @ [DraftIdentification DRAFT_VERSION],
                  encrypted = [], untrusted = []\<rparr>,
        packet_mac = None\<rparr>,
       id\<lparr>rqid_uid := Some uid\<rparr>))"

definition poll_message :: "ntp_timestamp \<Rightarrow> poll_interval \<Rightarrow> ntp_packet \<times> request_identifier" where
  "poll_message rnd poll_interval =
     (let (hdr, id) = h4_poll_message rnd poll_interval in
      (\<lparr>header = HV4 hdr, efdata = ext_field_data_default, packet_mac = None\<rparr>, id))"

definition poll_message_upgrade_request :: "ntp_timestamp \<Rightarrow> poll_interval \<Rightarrow> ntp_packet \<times> request_identifier" where
  "poll_message_upgrade_request rnd poll_interval =
     (let (hdr, id) = h4_poll_message rnd poll_interval in
      (\<lparr>header = HV4 (hdr\<lparr>h4_reference_timestamp := UPGRADE_TIMESTAMP\<rparr>),
        efdata = \<lparr>authenticated = [], encrypted = [], untrusted = []\<rparr>, packet_mac = None\<rparr>, id))"

definition poll_message_v5 :: "client_cookie \<Rightarrow> poll_interval \<Rightarrow> ntp_packet \<times> request_identifier" where
  "poll_message_v5 rnd poll_interval =
     (let (hdr, id) = h5_poll_message rnd poll_interval in
      (\<lparr>header = HV5 hdr,
        efdata = \<lparr>authenticated = [], encrypted = [], untrusted = [DraftIdentification DRAFT_VERSION]\<rparr>,
        packet_mac = None\<rparr>, id))"

section \<open>Responses\<close>

fun is_unique_identifier :: "ext_field \<Rightarrow> bool" where
  "is_unique_identifier (UniqueIdentifier _) = True"
| "is_unique_identifier _ = False"

text \<open>\<^verbatim>\<open>filter_map\<close> over the request's fields for a version 5 response.\<close>

fun v5_reply_field :: "bloom_filter \<Rightarrow> ext_field \<Rightarrow> ext_field option" where
  "v5_reply_field f (UniqueIdentifier u) = Some (UniqueIdentifier u)"
| "v5_reply_field f (RefIdRequest req) = map_option RefIdResponse (rid_to_response req f)"
| "v5_reply_field f _ = None"

definition unsealed :: "ext_field list \<Rightarrow> ext_field_data" where
  "unsealed efs = \<lparr>authenticated = [], encrypted = [], untrusted = efs\<rparr>"

definition sealed :: "ext_field list \<Rightarrow> ext_field list \<Rightarrow> ext_field_data" where
  "sealed auth enc = \<lparr>authenticated = auth, encrypted = enc, untrusted = []\<rparr>"

definition draft_identification :: ext_field where
  "draft_identification = DraftIdentification DRAFT_VERSION"

definition timestamp_response ::
  "bytes \<Rightarrow> ntp_server_info \<Rightarrow> ntp_packet \<Rightarrow> ntp_timestamp \<Rightarrow> ntp_timestamp \<Rightarrow> ntp_packet" where
  "timestamp_response rnd info input recv now =
     (let efs = untrusted (efdata input) @ authenticated (efdata input) in
      case header input of
        HV3 hdr \<Rightarrow>
          \<lparr>header = HV3 (h4_timestamp_response info hdr recv now), efdata = ext_field_data_default, packet_mac = None\<rparr>
      | HV4 hdr \<Rightarrow>
          (let response_header = h4_timestamp_response info hdr recv now;
               response_header =
                 (if h4_reference_timestamp hdr = UPGRADE_TIMESTAMP
                  then response_header\<lparr>h4_reference_timestamp := UPGRADE_TIMESTAMP\<rparr>
                  else response_header)
           in \<lparr>header = HV4 response_header, efdata = unsealed (filter is_unique_identifier efs), packet_mac = None\<rparr>)
      | HV5 hdr \<Rightarrow>
          \<lparr>header = HV5 (h5_timestamp_response rnd info hdr recv now),
           efdata = unsealed (List.map_filter (v5_reply_field (snap_bloom_filter (ntp_snapshot_of info))) efs @
                              [draft_identification]),
           packet_mac = None\<rparr>)"

text \<open>
  One fresh cookie for each cookie and each placeholder that leaves room for it, among the first
  eight fields. The random nonces are a function of the position of the field.
\<close>

fun fresh_cookies ::
  "aead \<Rightarrow> (nat \<Rightarrow> bytes) \<Rightarrow> key_set \<Rightarrow> decoded_server_cookie \<Rightarrow> nat \<Rightarrow> ext_field list \<Rightarrow> ext_field list option" where
  "fresh_cookies A nonces ks cookie i [] = Some []"
| "fresh_cookies A nonces ks cookie i (NtsCookiePlaceholder cookie_length # efs) =
     Option.bind (encode_cookie A (nonces i) ks cookie) (\<lambda>new_cookie.
     map_option (\<lambda>rest. if length new_cookie > unat cookie_length then rest else NtsCookie new_cookie # rest)
       (fresh_cookies A nonces ks cookie (Suc i) efs))"
| "fresh_cookies A nonces ks cookie i (NtsCookie old_cookie # efs) =
     Option.bind (encode_cookie A (nonces i) ks cookie) (\<lambda>new_cookie.
     map_option (\<lambda>rest. if length new_cookie > length old_cookie then rest else NtsCookie new_cookie # rest)
       (fresh_cookies A nonces ks cookie (Suc i) efs))"
| "fresh_cookies A nonces ks cookie i (_ # efs) = fresh_cookies A nonces ks cookie (Suc i) efs"

definition nts_timestamp_response ::
  "aead \<Rightarrow> (nat \<Rightarrow> bytes) \<Rightarrow> bytes \<Rightarrow> ntp_server_info \<Rightarrow> ntp_packet \<Rightarrow> ntp_timestamp \<Rightarrow> ntp_timestamp \<Rightarrow>
   decoded_server_cookie \<Rightarrow> key_set \<Rightarrow> ntp_packet option" where
  "nts_timestamp_response A nonces rnd info input recv now cookie ks =
     (let auth = authenticated (efdata input);
          cookies = fresh_cookies A nonces ks cookie 0 (take MAX_COOKIES (auth @ encrypted (efdata input)))
      in case header input of
           HV3 _ \<Rightarrow> None
         | HV4 hdr \<Rightarrow>
             map_option (\<lambda>enc.
               \<lparr>header = HV4 (h4_timestamp_response info hdr recv now),
                efdata = sealed (filter is_unique_identifier auth) enc, packet_mac = None\<rparr>) cookies
         | HV5 hdr \<Rightarrow>
             map_option (\<lambda>enc.
               \<lparr>header = HV5 (h5_timestamp_response rnd info hdr recv now),
                efdata = sealed (List.map_filter (v5_reply_field (snap_bloom_filter (ntp_snapshot_of info))) auth @
                                 [draft_identification]) enc,
                packet_mac = None\<rparr>) cookies)"

definition rate_limit_response :: "bytes \<Rightarrow> ntp_packet \<Rightarrow> ntp_packet" where
  "rate_limit_response rnd p =
     (let uids = filter is_unique_identifier (untrusted (efdata p) @ authenticated (efdata p)) in
      case header p of
        HV3 hdr \<Rightarrow> \<lparr>header = HV3 (h4_rate_limit_response hdr), efdata = ext_field_data_default, packet_mac = None\<rparr>
      | HV4 hdr \<Rightarrow> \<lparr>header = HV4 (h4_rate_limit_response hdr), efdata = unsealed uids, packet_mac = None\<rparr>
      | HV5 hdr \<Rightarrow> \<lparr>header = HV5 (h5_rate_limit_response rnd hdr),
                    efdata = unsealed (uids @ [draft_identification]), packet_mac = None\<rparr>)"

definition nts_rate_limit_response :: "bytes \<Rightarrow> ntp_packet \<Rightarrow> ntp_packet option" where
  "nts_rate_limit_response rnd p =
     (let uids = filter is_unique_identifier (authenticated (efdata p)) in
      case header p of
        HV3 _ \<Rightarrow> None
      | HV4 hdr \<Rightarrow> Some \<lparr>header = HV4 (h4_rate_limit_response hdr), efdata = sealed uids [], packet_mac = None\<rparr>
      | HV5 hdr \<Rightarrow> Some \<lparr>header = HV5 (h5_rate_limit_response rnd hdr),
                    efdata = sealed (uids @ [draft_identification]) [], packet_mac = None\<rparr>)"

definition deny_response :: "bytes \<Rightarrow> ntp_packet \<Rightarrow> ntp_packet" where
  "deny_response rnd p =
     (let uids = filter is_unique_identifier (untrusted (efdata p) @ authenticated (efdata p)) in
      case header p of
        HV3 hdr \<Rightarrow> \<lparr>header = HV3 (h4_deny_response hdr), efdata = ext_field_data_default, packet_mac = None\<rparr>
      | HV4 hdr \<Rightarrow> \<lparr>header = HV4 (h4_deny_response hdr), efdata = unsealed uids, packet_mac = None\<rparr>
      | HV5 hdr \<Rightarrow> \<lparr>header = HV5 (h5_deny_response rnd hdr),
                    efdata = unsealed (uids @ [draft_identification]), packet_mac = None\<rparr>)"

definition nts_deny_response :: "bytes \<Rightarrow> ntp_packet \<Rightarrow> ntp_packet option" where
  "nts_deny_response rnd p =
     (let uids = filter is_unique_identifier (authenticated (efdata p)) in
      case header p of
        HV3 _ \<Rightarrow> None
      | HV4 hdr \<Rightarrow> Some \<lparr>header = HV4 (h4_deny_response hdr), efdata = sealed uids [], packet_mac = None\<rparr>
      | HV5 hdr \<Rightarrow> Some \<lparr>header = HV5 (h5_deny_response rnd hdr),
                    efdata = sealed (uids @ [draft_identification]) [], packet_mac = None\<rparr>)"

definition nts_nak_response :: "bytes \<Rightarrow> ntp_packet \<Rightarrow> ntp_packet option" where
  "nts_nak_response rnd p =
     (let uids = filter is_unique_identifier (untrusted (efdata p) @ authenticated (efdata p)) in
      case header p of
        HV3 _ \<Rightarrow> None
      | HV4 hdr \<Rightarrow> Some \<lparr>header = HV4 (h4_nts_nak_response hdr), efdata = unsealed uids, packet_mac = None\<rparr>
      | HV5 hdr \<Rightarrow> Some \<lparr>header = HV5 (h5_nts_nak_response rnd hdr),
                    efdata = unsealed (uids @ [draft_identification]), packet_mac = None\<rparr>)"

section \<open>Reading a packet\<close>

datatype ntp_version = NtpV3 | NtpV4 | NtpV5

text \<open>A field that both header formats have.\<close>

fun header_field :: "(header_v3v4 \<Rightarrow> 'a) \<Rightarrow> (header_v5 \<Rightarrow> 'a) \<Rightarrow> ntp_header \<Rightarrow> 'a" where
  "header_field f g (HV3 h) = f h"
| "header_field f g (HV4 h) = f h"
| "header_field f g (HV5 h) = g h"

definition new_cookies :: "ntp_packet \<Rightarrow> bytes list" where
  "new_cookies p = cookie_fields (encrypted (efdata p))"

definition packet_version :: "ntp_packet \<Rightarrow> ntp_version" where
  "packet_version p = (case header p of HV3 _ \<Rightarrow> NtpV3 | HV4 _ \<Rightarrow> NtpV4 | HV5 _ \<Rightarrow> NtpV5)"

definition packet_leap :: "ntp_packet \<Rightarrow> leap_indicator" where
  "packet_leap p = header_field h4_leap h5_leap (header p)"

definition packet_mode :: "ntp_packet \<Rightarrow> association_mode" where
  "packet_mode p =
     header_field h4_mode (\<lambda>h. case h5_mode h of V5Request \<Rightarrow> Client | V5Response \<Rightarrow> Server) (header p)"

definition packet_poll :: "ntp_packet \<Rightarrow> poll_interval" where
  "packet_poll p = header_field h4_poll h5_poll (header p)"

definition packet_stratum :: "ntp_packet \<Rightarrow> byte" where
  "packet_stratum p = header_field h4_stratum h5_stratum (header p)"

definition packet_precision :: "ntp_packet \<Rightarrow> byte" where
  "packet_precision p = header_field h4_precision h5_precision (header p)"

definition packet_root_delay :: "ntp_packet \<Rightarrow> ntp_duration" where
  "packet_root_delay p = header_field h4_root_delay h5_root_delay (header p)"

definition packet_root_dispersion :: "ntp_packet \<Rightarrow> ntp_duration" where
  "packet_root_dispersion p = header_field h4_root_dispersion h5_root_dispersion (header p)"

definition packet_receive_timestamp :: "ntp_packet \<Rightarrow> ntp_timestamp" where
  "packet_receive_timestamp p = header_field h4_receive_timestamp h5_receive_timestamp (header p)"

definition packet_transmit_timestamp :: "ntp_packet \<Rightarrow> ntp_timestamp" where
  "packet_transmit_timestamp p = header_field h4_transmit_timestamp h5_transmit_timestamp (header p)"

definition packet_reference_id :: "ntp_packet \<Rightarrow> reference_id" where
  "packet_reference_id p = header_field h4_reference_id (\<lambda>_. REFID_NONE) (header p)"

definition kiss_code :: "ntp_packet \<Rightarrow> reference_id" where
  "kiss_code p = header_field h4_reference_id (\<lambda>h. refid_from_bytes (take 4 (h5_server_cookie h))) (header p)"

definition is_kiss :: "ntp_packet \<Rightarrow> bool" where
  "is_kiss p \<longleftrightarrow> packet_stratum p = 0"

definition is_kiss_deny :: "ntp_packet \<Rightarrow> bool" where
  "is_kiss_deny p \<longleftrightarrow>
     is_kiss p \<and> header_field (\<lambda>_. is_deny (kiss_code p)) (\<lambda>h. h5_poll h = poll_NEVER) (header p)"

definition is_kiss_rate :: "poll_interval \<Rightarrow> ntp_packet \<Rightarrow> bool" where
  "is_kiss_rate own_interval p \<longleftrightarrow>
     is_kiss p \<and>
     header_field (\<lambda>_. is_rate (kiss_code p)) (\<lambda>h. h5_poll h > own_interval \<and> h5_poll h \<noteq> poll_NEVER) (header p)"

definition is_kiss_rstr :: "ntp_packet \<Rightarrow> bool" where
  "is_kiss_rstr p \<longleftrightarrow> is_kiss p \<and> header_field (\<lambda>_. is_rstr (kiss_code p)) (\<lambda>_. False) (header p)"

definition is_kiss_ntsn :: "ntp_packet \<Rightarrow> bool" where
  "is_kiss_ntsn p \<longleftrightarrow>
     is_kiss p \<and> header_field (\<lambda>_. is_ntsn (kiss_code p)) (\<lambda>h. fl_authnak (h5_flags h)) (header p)"

definition is_upgrade :: "ntp_packet \<Rightarrow> bool" where
  "is_upgrade p = (case header p of HV4 h \<Rightarrow> h4_reference_timestamp h = UPGRADE_TIMESTAMP | _ \<Rightarrow> False)"

fun check_uid_from :: "bool \<Rightarrow> ext_field list \<Rightarrow> bytes \<Rightarrow> bool option" where
  "check_uid_from found [] uid = (if found then Some True else None)"
| "check_uid_from found (UniqueIdentifier pid # efs) uid =
     (if length pid < length uid \<or> slice 0 (length uid) pid \<noteq> uid then Some False
      else check_uid_from True efs uid)"
| "check_uid_from found (_ # efs) uid = check_uid_from found efs uid"

definition check_uid_extensionfield :: "ext_field list \<Rightarrow> bytes \<Rightarrow> bool option" where
  "check_uid_extensionfield = check_uid_from False"

definition valid_server_response :: "ntp_packet \<Rightarrow> request_identifier \<Rightarrow> bool \<Rightarrow> bool" where
  "valid_server_response p identifier nts_enabled \<longleftrightarrow>
     (case rqid_uid identifier of
        None \<Rightarrow> True
      | Some uid \<Rightarrow>
          let auth = check_uid_extensionfield (authenticated (efdata p)) uid;
              encr = check_uid_extensionfield (encrypted (efdata p)) uid;
              untr = check_uid_extensionfield (untrusted (efdata p)) uid
          in auth \<noteq> Some False \<and> encr \<noteq> Some False \<and>
             (untr \<noteq> Some False \<or> (nts_enabled \<and> \<not> is_kiss_ntsn p)) \<and>
             (auth \<noteq> None \<or> encr \<noteq> None \<or> ((\<not> nts_enabled \<or> is_kiss_ntsn p) \<and> untr \<noteq> None))) \<and>
     header_field (\<lambda>h. h4_origin_timestamp h = expected_origin_timestamp identifier)
       (\<lambda>h. h5_client_cookie h = cookie_from_ntp_timestamp (expected_origin_timestamp identifier)) (header p)"

definition push_additional :: "ext_field \<Rightarrow> ntp_packet \<Rightarrow> ntp_packet" where
  "push_additional ef p =
     (let d = efdata p in
      if authenticated d \<noteq> [] \<or> encrypted d \<noteq> []
      then p\<lparr>efdata := d\<lparr>authenticated := authenticated d @ [ef]\<rparr>\<rparr>
      else p\<lparr>efdata := d\<lparr>untrusted := untrusted d @ [ef]\<rparr>\<rparr>)"

definition packet_default :: ntp_packet where
  "packet_default = \<lparr>header = HV4 h4_new, efdata = ext_field_data_default, packet_mac = None\<rparr>"

section \<open>Parsing does not panic\<close>

text \<open>\<open>no_panic r\<close>: the result is not that of an \<^verbatim>\<open>unreachable!\<close> branch or of a failed conversion.\<close>

definition no_panic :: "'t parsing_error + 'a \<Rightarrow> bool" where
  "no_panic r \<longleftrightarrow> r \<noteq> Inl Unreachable"

named_theorems no_panic

lemma no_panic_Inr [no_panic]: "no_panic (Inr x)"
  by (simp add: no_panic_def)

lemma no_panic_Inl: "e \<noteq> Unreachable \<Longrightarrow> no_panic (Inl e)"
  by (simp add: no_panic_def)

lemma no_panic_bindR [no_panic]:
  "no_panic m \<Longrightarrow> (\<And>x. m = Inr x \<Longrightarrow> no_panic (f x)) \<Longrightarrow> no_panic (bindR m f)"
  by (cases m) (auto simp: no_panic_def)

lemma no_panic_if [no_panic]:
  "(P \<Longrightarrow> no_panic a) \<Longrightarrow> (\<not> P \<Longrightarrow> no_panic b) \<Longrightarrow> no_panic (if P then a else b)"
  by simp

lemma no_panic_ok_or [no_panic]: "e \<noteq> Unreachable \<Longrightarrow> no_panic (ok_or e x)"
  by (cases x) (auto simp: no_panic_def)

lemma no_panic_decrypt_error [no_panic]: "e \<noteq> Unreachable \<Longrightarrow> no_panic (get_decrypt_error e)"
  by (cases e) (auto simp: no_panic_def)

lemma no_panic_mac [no_panic]: "no_panic (mac_deserialize data)"
  by (simp add: mac_deserialize_def no_panic_def)

lemma no_panic_headers [no_panic]: "no_panic (h4_deserialize data)" "no_panic (h5_deserialize data)"
proof -
  have l: "no_panic (leap_from_bits (drop_bit 6 (b AND 0xC0)))" and m: "no_panic (mode_from_bits (b AND 7))" for b
    using leap_from_two_bits mode_from_three_bits by (metis no_panic_Inr)+
  show "no_panic (h4_deserialize data)"
    unfolding h4_deserialize_def Let_def by (intro no_panic l m no_panic_Inl) simp_all
  have "no_panic (ntp_mode_from_bits b)" "no_panic (timescale_from_bits b)" "no_panic (flags_from_bits bs)" for b bs
    by (auto simp: ntp_mode_from_bits_def timescale_from_bits_def flags_from_bits_def no_panic_def)
  note r = this
  show "no_panic (h5_deserialize data)"
    unfolding h5_deserialize_def Let_def by (intro no_panic l r no_panic_Inl) simp_all
qed

lemma raw_deserialize_bound:
  "raw_deserialize data m version = Inr raw \<Longrightarrow> length (message_bytes raw) < 65536"
proof -
  assume "raw_deserialize data m version = Inr raw"
  then have "length (message_bytes raw) \<le> unat (from_be (slice 2 4 data) :: u16)"
    by (auto simp: raw_deserialize_def Let_def get_range_def result_simps split: if_splits)
  with unat_lt2p [of "from_be (slice 2 4 data) :: u16"] show ?thesis by simp
qed

lemma no_panic_raw [no_panic]: "no_panic (raw_deserialize data m version)"
  by (auto simp: raw_deserialize_def Let_def intro!: no_panic no_panic_Inl)

lemma raw_sequence_no_panic:
  fixes item :: "'t parsing_error + nat \<times> raw_ext_field"
  assumes "item \<in> set (raw_sequence buf c m version off)"
  shows "no_panic item \<and> (\<forall>o' raw. item = Inr (o', raw) \<longrightarrow> length (message_bytes raw) < 65536)"
  using assms
proof (induction "length buf - off" arbitrary: off rule: less_induct)
  case less
  show ?case
  proof (cases "raw_deserialize (drop off buf) m version :: 't parsing_error + raw_ext_field")
    case (Inl e)
    with less.prems have "item = Inl e" by (simp add: raw_sequence.simps [of buf] split: if_splits)
    moreover have "no_panic (raw_deserialize (drop off buf) m version :: 't parsing_error + raw_ext_field)"
      by (rule no_panic_raw)
    ultimately show ?thesis using Inl by (simp add: no_panic_def)
  next
    case (Inr raw)
    let ?off = "off + raw_wire_length raw"
    have "4 \<le> raw_wire_length raw"
      using next_multiple_bounds(1) [of "2 + 2 + length (message_bytes raw)"] unfolding raw_wire_length_def by linarith
    then have "length buf - ?off < length buf - off" if "?off \<le> length buf" using that by linarith
    moreover have off: "off \<le> length buf" and "item = Inr (off, raw) \<or> item \<in> set (raw_sequence buf c m version ?off)"
      using less.prems Inr by (simp_all add: raw_sequence.simps [of buf c m version off] split: if_splits)
    moreover have "raw_sequence buf c m version ?off = ([] :: ('t parsing_error + _) list)" if "\<not> ?off \<le> length buf"
      using that by (simp add: raw_sequence.simps [of buf c m version ?off])
    ultimately show ?thesis
      using less.hyps [of ?off] raw_deserialize_bound [OF Inr]
      by (cases "?off \<le> length buf") (auto intro: no_panic)
  qed
qed

lemma no_panic_ef_decode:
  "length (message_bytes raw) < 65536 \<Longrightarrow> no_panic (ef_decode raw version)"
  by (auto simp: ef_decode_def Let_def rid_request_decode_def decode_nts_cookie_placeholder_def
      decode_draft_identification_def not_less split: ext_type_id.split
      intro!: no_panic no_panic_Inl)

lemma no_panic_collectR: "\<forall>x \<in> set xs. no_panic x \<Longrightarrow> no_panic (collectR xs)"
  by (induction xs) (auto intro!: no_panic)

lemma no_panic_raw_decrypt [no_panic]: "no_panic (raw_decrypt A enc c aad version)"
proof -
  have "no_panic (decrypt_field version item)" if "item \<in> set (raw_sequence p 0 4 version 0)" for p item
    using raw_sequence_no_panic [OF that]
    by (auto simp: decrypt_field_def intro!: no_panic no_panic_ef_decode no_panic_Inl)
  then show ?thesis
    by (auto simp: raw_decrypt_def intro!: no_panic_collectR no_panic_Inl split: option.split)
qed

lemma no_panic_from_message_bytes [no_panic]: "no_panic (from_message_bytes message)"
  by (auto simp: from_message_bytes_def Let_def intro!: no_panic no_panic_Inl)

lemma no_panic_ef_loop_step:
  assumes "length (message_bytes (snd item)) < 65536"
  shows "no_panic (ef_loop_step A provider data hs version item st)"
proof -
  have "raw_decrypt A enc c aad version \<noteq> Inl Unreachable" for enc c aad
    using no_panic_raw_decrypt [of A enc c aad version] by (simp add: no_panic_def)
  with assms show ?thesis
    by (auto simp: ef_loop_step_def Let_def split: prod.split option.split sum.split cipher_holder.split
        intro!: no_panic no_panic_ef_decode)
qed

lemma no_panic_ef_loop:
  "\<forall>item \<in> set items. no_panic item \<and> (\<forall>o' raw. item = Inr (o', raw) \<longrightarrow> length (message_bytes raw) < 65536) \<Longrightarrow>
   no_panic (ef_loop A provider data hs version items st)"
  by (induction items arbitrary: st) (auto intro!: no_panic no_panic_ef_loop_step)

lemma no_panic_efdata [no_panic]: "no_panic (efdata_deserialize A data hs provider version)"
  using raw_sequence_no_panic [where ?'t = invalid_nts_ext_field]
  by (auto simp: efdata_deserialize_def Let_def intro!: no_panic no_panic_ef_loop no_panic_Inl)

lemma packet_parsing_no_panic:
  "packet_deserialize A data provider \<noteq> Inl Unreachable"
proof -
  have c: "no_panic (construct_packet hdr remaining efs)" for hdr remaining efs
    by (auto simp: construct_packet_def intro!: no_panic)
  have e: "e \<noteq> Unreachable" if "efdata_deserialize A data hs provider version = Inl e" for hs version e
    using no_panic_efdata [of A data hs provider version] that by (simp add: no_panic_def)
  have "no_panic (packet_with_fields A hdr data hs provider version)" for hdr hs version
    using e by (auto simp: packet_with_fields_def split: sum.split intro!: no_panic c no_panic_Inl)
  then have "no_panic (packet_deserialize A data provider)"
    by (auto simp: packet_deserialize_def Let_def split: prod.split intro!: no_panic no_panic_Inl)
  then show ?thesis by (simp add: no_panic_def)
qed


section \<open>Responses and the requests they answer\<close>

lemmas request_defs = poll_message_def poll_message_upgrade_request_def poll_message_v5_def
  h4_poll_message_def h5_poll_message_def cookie_into_ntp_timestamp_def

lemmas nts_request_defs = nts_poll_message_def nts_poll_message_v5_def nts_request_fields_def
  h4_poll_message_def h5_poll_message_def cookie_into_ntp_timestamp_def

lemmas response_defs = timestamp_response_def rate_limit_response_def deny_response_def
  nts_nak_response_def nts_rate_limit_response_def nts_deny_response_def nts_timestamp_response_def
  unsealed_def sealed_def ext_field_data_default_def

lemmas header_response_defs = h4_timestamp_response_def h4_rate_limit_response_def h4_deny_response_def
  h4_nts_nak_response_def h5_timestamp_response_def h5_rate_limit_response_def h5_deny_response_def
  h5_nts_nak_response_def h5_kiss_response_def

lemma ts_bits_inj [simp]: "ts_to_bits a = ts_to_bits b \<longleftrightarrow> a = b"
  by (cases a; cases b) (metis ts_roundtrip)

text \<open>
  C14: a plain response is accepted for the request it answers and for no other. Whatever the
  version of the request and whether the server answers with the time, a rate limit or a denial,
  a client accepts the answer exactly when the random transmit timestamp or client cookie it is
  waiting for is that of the request.
\<close>
theorem plain_response_matches_request:
  assumes "(req, rid) \<in> {poll_message t i, poll_message_upgrade_request t i, poll_message_v5 (ts_to_bits t) i}"
    and "(req', rid') \<in> {poll_message t' i', poll_message_upgrade_request t' i', poll_message_v5 (ts_to_bits t') i'}"
    and "resp \<in> {timestamp_response rnd info req recv now, rate_limit_response rnd req, deny_response rnd req}"
  shows "valid_server_response resp rid' nts_enabled \<longleftrightarrow> t' = t"
proof -
  have "rqid_uid rid' = None" "expected_origin_timestamp rid' = t'"
    using assms(2) by (auto simp: request_defs)
  moreover have "(\<exists>h. header resp = HV4 h \<and> h4_origin_timestamp h = t) \<or>
      (\<exists>h. header resp = HV5 h \<and> h5_client_cookie h = ts_to_bits t)"
    using assms(1,3) by (auto simp: request_defs response_defs header_response_defs Let_def)
  ultimately show ?thesis
    by (auto simp: valid_server_response_def cookie_from_ntp_timestamp_def)
qed

theorem plain_response_matches_request_witness:
  "valid_server_response (deny_response [1, 2, 3, 4, 5, 6, 7, 8] (fst (poll_message (NtpTimestamp 9) (PollInterval 4))))
     (snd (poll_message (NtpTimestamp 9) (PollInterval 4))) False"
  using plain_response_matches_request [of "fst (poll_message (NtpTimestamp 9) (PollInterval 4))"
      "snd (poll_message (NtpTimestamp 9) (PollInterval 4))" "NtpTimestamp 9" "PollInterval 4"
      "fst (poll_message (NtpTimestamp 9) (PollInterval 4))"
      "snd (poll_message (NtpTimestamp 9) (PollInterval 4))" "NtpTimestamp 9" "PollInterval 4"
      "deny_response [1, 2, 3, 4, 5, 6, 7, 8] (fst (poll_message (NtpTimestamp 9) (PollInterval 4)))"
      "[1, 2, 3, 4, 5, 6, 7, 8]"]
  by simp

lemma fresh_cookies_are_cookies:
  "fresh_cookies A nonces ks cookie i efs = Some new \<Longrightarrow> f \<in> set new \<Longrightarrow> \<exists>c. f = NtsCookie c"
  by (induction A nonces ks cookie i efs arbitrary: new rule: fresh_cookies.induct)
    (auto split: if_splits bind_splits)

lemma check_uid_none:
  "\<forall>f \<in> set efs. \<not> is_unique_identifier f \<Longrightarrow> check_uid_from found efs uid = (if found then Some True else None)"
  by (induction found efs uid rule: check_uid_from.induct) auto

lemma check_uid_one:
  assumes "\<forall>f \<in> set efs. \<not> is_unique_identifier f" "length u = length uid"
  shows "check_uid_extensionfield (UniqueIdentifier u # efs) uid = Some (u = uid)"
  using assms check_uid_none [OF assms(1), of True uid]
  by (auto simp: check_uid_extensionfield_def slice_def)

lemma filter_uid_request [simp]:
  "filter is_unique_identifier (nts_request_fields uid cookie n) = [UniqueIdentifier uid]"
  by (simp add: nts_request_fields_def)

lemma v5_reply_request [simp]:
  "List.map_filter (v5_reply_field f) (nts_request_fields uid cookie n) = [UniqueIdentifier uid]"
  by (simp add: nts_request_fields_def List.map_filter_def)

lemma map_filter_append: "List.map_filter f (xs @ ys) = List.map_filter f xs @ List.map_filter f ys"
  by (simp add: List.map_filter_def)

lemma nts_response_fields:
  assumes "(req, rid) \<in> {nts_poll_message t uid cookie n i, nts_poll_message_v5 (ts_to_bits t) uid cookie n i}"
    and "Some resp \<in> {nts_timestamp_response A nonces rnd info req recv now keys ks,
      nts_rate_limit_response rnd req, nts_deny_response rnd req, nts_nak_response rnd req}"
  shows "\<exists>auth enc untr. efdata resp = \<lparr>authenticated = auth, encrypted = enc, untrusted = untr\<rparr> \<and>
    (\<forall>f \<in> set enc. \<not> is_unique_identifier f) \<and>
    (\<exists>rest. (\<forall>f \<in> set rest. \<not> is_unique_identifier f) \<and>
       (auth = UniqueIdentifier uid # rest \<and> untr = [] \<or>
        auth = [] \<and> untr = UniqueIdentifier uid # rest \<and> is_kiss_ntsn resp))"
proof -
  have cookies: "\<forall>f \<in> set enc. \<not> is_unique_identifier f"
    if "fresh_cookies A nonces ks keys 0 efs = Some enc" for efs enc
    using fresh_cookies_are_cookies [OF that] by fastforce
  have ntsn: "is_kiss_ntsn \<lparr>header = HV4 (h4_nts_nak_response h), efdata = e, packet_mac = None\<rparr>"
    "is_kiss_ntsn \<lparr>header = HV5 (h5_nts_nak_response rnd h'), efdata = e, packet_mac = None\<rparr>" for h h' e
    by (simp_all add: is_kiss_ntsn_def is_kiss_def packet_stratum_def kiss_code_def header_response_defs
        is_ntsn_def h5_new_def)
  show ?thesis
    using assms cookies
    by (auto simp: nts_poll_message_def nts_poll_message_v5_def h4_poll_message_def h5_poll_message_def
        response_defs Let_def draft_identification_def ntsn map_filter_append eq_commute [of "Some resp"]
        List.map_filter_simps)
qed

lemma nts_response_valid_iff:
  assumes "(req, rid) \<in> {nts_poll_message t uid cookie n i, nts_poll_message_v5 (ts_to_bits t) uid cookie n i}"
    and "(req', rid') \<in> {nts_poll_message t' uid' cookie' n' i', nts_poll_message_v5 (ts_to_bits t') uid' cookie' n' i'}"
    and "length uid = 32" "length uid' = 32"
    and "Some resp \<in> {nts_timestamp_response A nonces rnd info req recv now keys ks,
      nts_rate_limit_response rnd req, nts_deny_response rnd req, nts_nak_response rnd req}"
  shows "valid_server_response resp rid' True \<longleftrightarrow> t' = t \<and> uid' = uid"
proof -
  have rid': "rqid_uid rid' = Some uid'" "expected_origin_timestamp rid' = t'"
    using assms(2) by (auto simp: nts_request_defs)
  have origin: "(\<exists>h. header resp = HV4 h \<and> h4_origin_timestamp h = t) \<or>
      (\<exists>h. header resp = HV5 h \<and> h5_client_cookie h = ts_to_bits t)"
    using assms(1,5)
    by (auto simp: nts_request_defs response_defs header_response_defs Let_def eq_commute [of "Some resp"])
  from nts_response_fields [OF assms(1,5)] obtain auth enc untr rest where
    f: "efdata resp = \<lparr>authenticated = auth, encrypted = enc, untrusted = untr\<rparr>"
    and enc: "\<forall>f \<in> set enc. \<not> is_unique_identifier f" and rest: "\<forall>f \<in> set rest. \<not> is_unique_identifier f"
    and c: "auth = UniqueIdentifier uid # rest \<and> untr = [] \<or>
        auth = [] \<and> untr = UniqueIdentifier uid # rest \<and> is_kiss_ntsn resp" by blast
  have e: "check_uid_extensionfield enc uid' = None" "check_uid_extensionfield [] uid' = None"
    using check_uid_none [OF enc, of False uid'] by (simp_all add: check_uid_extensionfield_def)
  have u: "check_uid_extensionfield (UniqueIdentifier uid # rest) uid' = Some (uid = uid')"
    using check_uid_one [OF rest] assms(3,4) by simp
  show ?thesis
    using c origin
    by (elim disjE conjE exE)
      (simp_all add: valid_server_response_def f rid' e u Let_def cookie_from_ntp_timestamp_def eq_commute [of uid] eq_commute [of t] conj_commute)
qed

text \<open>
  C13: an authenticated response is accepted for the request it answers and for no other. The time,
  a rate limit, a denial and the refusal of a cookie each repeat the unique identifier of the
  request, and the client accepts the answer exactly when both that identifier and the random
  transmit timestamp or client cookie are those it is waiting for.
\<close>
theorem nts_response_matches_request:
  assumes "(req, rid) \<in> {nts_poll_message t uid cookie n i, nts_poll_message_v5 (ts_to_bits t) uid cookie n i}"
    and "(req', rid') \<in> {nts_poll_message t' uid' cookie' n' i', nts_poll_message_v5 (ts_to_bits t') uid' cookie' n' i'}"
    and "length uid = 32" "length uid' = 32"
    and "Some resp \<in> {nts_timestamp_response A nonces rnd info req recv now keys ks,
      nts_rate_limit_response rnd req, nts_deny_response rnd req, nts_nak_response rnd req}"
  shows "valid_server_response resp rid' True \<longleftrightarrow> t' = t \<and> uid' = uid"
  using assms by (rule nts_response_valid_iff)

theorem nts_response_matches_request_witness:
  "\<exists>resp. nts_nak_response [1, 2, 3, 4, 5, 6, 7, 8]
       (fst (nts_poll_message (NtpTimestamp 9) (replicate 32 5) [1, 2, 3] 2 (PollInterval 4))) = Some resp \<and>
     valid_server_response resp (snd (nts_poll_message (NtpTimestamp 9) (replicate 32 5) [1, 2, 3] 2 (PollInterval 4))) True"
proof -
  let ?m = "nts_poll_message (NtpTimestamp 9) (replicate 32 5) [1, 2, 3] 2 (PollInterval 4)"
  obtain resp where r: "nts_nak_response [1, 2, 3, 4, 5, 6, 7, 8] (fst ?m) = Some resp"
    by (simp add: nts_nak_response_def nts_poll_message_def h4_poll_message_def)
  with nts_response_matches_request [of "fst ?m" "snd ?m" "NtpTimestamp 9" "replicate 32 5" "[1, 2, 3]" 2 "PollInterval 4"
      "fst ?m" "snd ?m" "NtpTimestamp 9" "replicate 32 5" "[1, 2, 3]" 2 "PollInterval 4" resp, where rnd = "[1, 2, 3, 4, 5, 6, 7, 8]"]
  show ?thesis by simp
qed

end
