(* ===== verification/Packet_Wire.thy ===== *)
theory Packet_Wire
  imports Packet
begin

text \<open>
  Packets between a client and a server: what the receiver of a serialised packet reads, for the
  headers of requests and responses and for sealed extension fields, and the authenticated
  exchange end to end, from the request with a cookie through the server's response to the
  client's acceptance of it.
\<close>

section \<open>Packets on the wire\<close>

text \<open>
  A header, the 48 bytes it is written as, and the header that is read back from them, which
  differs in the precision of the root delay and dispersion.
\<close>

fun header_serialize :: "ntp_header \<Rightarrow> writer" where
  "header_serialize (HV3 h) = h4_serialize h 3"
| "header_serialize (HV4 h) = h4_serialize h 4"
| "header_serialize (HV5 h) = h5_serialize h"

fun header_parse :: "bytes \<Rightarrow> ntp_header \<Rightarrow> packet_parsing_error + ntp_header \<times> nat" where
  "header_parse data (HV3 _) = bindR (h4_deserialize data) (\<lambda>(h, n). Inr (HV3 h, n))"
| "header_parse data (HV4 _) = bindR (h4_deserialize data) (\<lambda>(h, n). Inr (HV4 h, n))"
| "header_parse data (HV5 _) = bindR (h5_deserialize data) (\<lambda>(h, n). Inr (HV5 h, n))"

fun header_version :: "ntp_header \<Rightarrow> byte" where
  "header_version (HV3 _) = 3"
| "header_version (HV4 _) = 4"
| "header_version (HV5 _) = 5"

definition header_reads :: "ntp_header \<Rightarrow> bytes \<Rightarrow> ntp_header \<Rightarrow> bool" where
  "header_reads h bs h' \<longleftrightarrow>
     writes (header_serialize h) bs \<and> length bs = 48 \<and> drop_bit 3 (bs ! 0 AND 0x38) = header_version h \<and>
     (\<forall>rest. header_parse (bs @ rest) h = Inr (h', 48))"

definition duration_in_range :: "nat \<Rightarrow> ntp_duration \<Rightarrow> bool" where
  "duration_in_range n d \<longleftrightarrow> 0 \<le> dur_val d \<and> dur_val d < 2 ^ n"

lemma version_bits:
  assumes "unat l < 4" "unat v < 8" "unat m < 8"
  shows "drop_bit 3 ((push_bit 6 l OR push_bit 3 v OR m) AND 0x38) = (v :: byte)"
proof -
  have "drop_bit 3 (push_bit 6 l OR push_bit 3 v OR m) AND 7 = v" using first_byte_join [OF assms] by simp
  then show ?thesis by (simp add: drop_bit_and)
qed

lemma header_reads_v4:
  assumes "duration_in_range 48 (h4_root_delay h)" "duration_in_range 48 (h4_root_dispersion h)" "h4_leap h \<noteq> Unknown"
  obtains bs rd rdisp where "header_reads (HV4 h) bs (HV4 (h\<lparr>h4_root_delay := rd, h4_root_dispersion := rdisp\<rparr>))"
    "dur_val rd = dur_val (h4_root_delay h) div 2 ^ 16 * 2 ^ 16"
    "dur_val rdisp = dur_val (h4_root_dispersion h) div 2 ^ 16 * 2 ^ 16"
proof -
  have "0 \<le> dur_val (h4_root_delay h)" "dur_val (h4_root_delay h) \<le> 0xFFFFFFFFFFFF"
    using assms(1) by (simp_all add: duration_in_range_def)
  then obtain d where d: "dur_to_bits_short (h4_root_delay h) = Some d" "length d = 4"
    "dur_val (dur_from_bits_short d) = dur_val (h4_root_delay h) div 2 ^ 16 * 2 ^ 16"
    by (rule dur_short_roundtrip)
  have "0 \<le> dur_val (h4_root_dispersion h)" "dur_val (h4_root_dispersion h) \<le> 0xFFFFFFFFFFFF"
    using assms(2) by (simp_all add: duration_in_range_def)
  then obtain e where e: "dur_to_bits_short (h4_root_dispersion h) = Some e" "length e = 4"
    "dur_val (dur_from_bits_short e) = dur_val (h4_root_dispersion h) div 2 ^ 16 * 2 ^ 16"
    by (rule dur_short_roundtrip)
  let ?h' = "h\<lparr>h4_root_delay := dur_from_bits_short d, h4_root_dispersion := dur_from_bits_short e\<rparr>"
  have "h\<lparr>h4_leap := if h4_leap h = Unknown then Unsynchronized else h4_leap h,
      h4_root_delay := dur_from_bits_short d, h4_root_dispersion := dur_from_bits_short e\<rparr> = ?h'"
    using assms(3) by (cases h) simp
  then have p: "(h4_deserialize (h4_wire h 4 d e @ rest) :: packet_parsing_error + _) = Inr (?h', 48)" for rest
    using h4_deserialize_wire [OF d(2) e(2), of 4 h rest, where ?'t = ntp_packet] by simp
  have "length (h4_wire h 4 d e) = 48" using d(2) e(2) by (simp add: h4_wire_def)
  moreover have "drop_bit 3 (h4_wire h 4 d e ! 0 AND 0x38) = 4"
    using version_bits [OF field_bounds(1) _ field_bounds(2), of 4 "h4_leap h" "h4_mode h"]
    by (simp only: h4_wire_def append_Cons nth_Cons_0) simp
  ultimately have "header_reads (HV4 h) (h4_wire h 4 d e) (HV4 ?h')"
    using h4_serialize_writes [OF d(1) e(1)] p by (simp add: header_reads_def)
  from that [OF this d(3) e(3)] show thesis .
qed

lemma header_reads_v5:
  assumes "duration_in_range 36 (h5_root_delay h)" "duration_in_range 36 (h5_root_dispersion h)"
    "h5_wf h" "h5_leap h \<noteq> Unknown \<or> fl_synchronized (h5_flags h)"
  obtains bs rd rdisp where
    "header_reads (HV5 h) bs (HV5 ((fix_leap_indicator h)\<lparr>h5_root_delay := rd, h5_root_dispersion := rdisp\<rparr>))"
    "dur_val rd = dur_val (h5_root_delay h) div 2 ^ 4 * 2 ^ 4"
    "dur_val rdisp = dur_val (h5_root_dispersion h) div 2 ^ 4 * 2 ^ 4"
proof -
  obtain d where d: "dur_to_bits_time32 (h5_root_delay h) = Some d" "length d = 4"
    "dur_val (dur_from_bits_time32 d) = dur_val (h5_root_delay h) div 2 ^ 4 * 2 ^ 4"
    using assms(1) unfolding duration_in_range_def by (elim conjE dur_time32_roundtrip)
  obtain e where e: "dur_to_bits_time32 (h5_root_dispersion h) = Some e" "length e = 4"
    "dur_val (dur_from_bits_time32 e) = dur_val (h5_root_dispersion h) div 2 ^ 4 * 2 ^ 4"
    using assms(2) unfolding duration_in_range_def by (elim conjE dur_time32_roundtrip)
  let ?h' = "(fix_leap_indicator h)\<lparr>h5_root_delay := dur_from_bits_time32 d, h5_root_dispersion := dur_from_bits_time32 e\<rparr>"
  have "fix_leap_indicator (h\<lparr>h5_leap := if h5_leap h = Unknown then Unsynchronized else h5_leap h,
      h5_root_delay := dur_from_bits_time32 d, h5_root_dispersion := dur_from_bits_time32 e\<rparr>) = ?h'"
    using assms(4) by (cases h) (auto simp: fix_leap_indicator_def split: if_splits)
  then have p: "(h5_deserialize (h5_wire h d e @ rest) :: packet_parsing_error + _) = Inr (?h', 48)" for rest
    using h5_deserialize_wire [OF d(2) e(2) assms(3), of rest, where ?'t = ntp_packet] by simp
  have "length (h5_wire h d e) = 48" using d(2) e(2) assms(3) by (simp add: h5_wire_def h5_wf_def)
  moreover have "drop_bit 3 (h5_wire h d e ! 0 AND 0x38) = 5"
    using version_bits [OF field_bounds(1) _ field_bounds(3), of 5 "h5_leap h" "h5_mode h"]
    by (simp only: h5_wire_def append_Cons nth_Cons_0) simp
  ultimately have "header_reads (HV5 h) (h5_wire h d e) (HV5 ?h')"
    using h5_serialize_writes [OF d(1) e(1)] p by (simp add: header_reads_def)
  from that [OF this d(3) e(3)] show thesis .
qed

lemma sealed_fields_append:
  assumes "\<forall>f \<in> set auth. ef_ok version f" "\<forall>f \<in> set enc. ef_ok version f"
    and "length nonce = 16" "aead_overhead A" "auth \<noteq> [] \<or> enc \<noteq> []" "sender auth = Some h"
    and w: "cur_pos w \<le> length (cur_buf w)"
    and ser: "efdata_serialize A nonce (sealed auth enc) sender version w = Inr w'"
  shows "\<exists>d. appends w w' d \<and> length d = length (ef_wires 16 version auth) + 40 + length (ef_wires 0 version enc)"
proof -
  obtain w1 where w1: "write_seq (map (\<lambda>f. ef_serialize f 16 version) auth) w = Inr w1"
    "encode_encrypted A nonce enc (holder_cipher h) version w1 = Inr w'"
    using ser assms(5,6) by (auto simp: efdata_serialize_def result_simps sealed_def)
  have "writes (write_seq (map (\<lambda>f. ef_serialize f 16 version) auth)) (ef_wires 16 version auth)"
    using assms(1) ef_serialize_writes [of version _ 16] by (intro writes_seq_map) simp
  note a1 = writes_appends [OF this w1(1) w]
  let ?ct = "siv_seal A (holder_cipher h) nonce (take (cur_pos w1) (cur_buf w1)) (ef_wires 0 version enc)"
  have "length (encrypted_wire nonce ?ct) = 40 + length (ef_wires 0 version enc)"
    using assms(3,4) by (simp add: encrypted_wire_def aead_overhead_def)
  with appends_trans [OF a1 encode_encrypted_appends [OF assms(2,3,4) appends_le [OF a1] w1(2)]]
  show ?thesis by (intro exI conjI) (assumption, simp)
qed

fun ef_version_of :: "ntp_header \<Rightarrow> ext_version" where
  "ef_version_of (HV5 _) = EfV5"
| "ef_version_of _ = EfV4"

lemma parse_with_fields:
  assumes "header_reads h bs h'" "\<And>g. h \<noteq> HV3 g"
    and "efdata_deserialize A (bs @ d) 48 provider (ef_version_of h) =
      Inr \<lparr>def_efdata = efs, def_remaining = [], def_cookie = cookie\<rparr>"
    and "\<And>g. h = HV5 g \<Longrightarrow> find_draft_id (untrusted efs @ authenticated efs) = Some DRAFT_VERSION"
  shows "packet_deserialize A (bs @ d) provider = Inr (\<lparr>header = h', efdata = efs, packet_mac = None\<rparr>, cookie)"
proof -
  have bs: "bs \<noteq> []" "(bs @ d) ! 0 = bs ! 0" "drop_bit 3 (bs ! 0 AND 0x38) = header_version h"
    and p: "header_parse (bs @ d) h = Inr (h', 48)"
    using assms(1) by (auto simp: header_reads_def nth_append)
  have v: "drop_bit 3 ((bs @ d) ! 0 AND 0x38) = header_version h" using bs(2,3) by simp
  show ?thesis
  proof (cases h)
    case (HV4 g)
    then obtain g' where g': "(h4_deserialize (bs @ d) :: packet_parsing_error + _) = Inr (g', 48)" "h' = HV4 g'"
      using p by (auto simp: result_simps)
    show ?thesis
      unfolding packet_deserialize_def Let_def v
      using bs(1) HV4 g' assms(3) by (simp add: packet_with_fields_def construct_packet_def)
  next
    case (HV5 g)
    then obtain g' where g': "(h5_deserialize (bs @ d) :: packet_parsing_error + _) = Inr (g', 48)" "h' = HV5 g'"
      using p by (auto simp: result_simps)
    show ?thesis
      unfolding packet_deserialize_def Let_def v
      using bs(1) HV5 g' assms(3,4) by (simp add: packet_with_fields_def construct_packet_def draft_id_def)
  qed (use assms(2) in simp)
qed

lemma sealed_packet_reads_back:
  assumes A: "aead_correct A" "aead_overhead A" "length nonce = 16"
    and hdr: "header_reads h bs h'" "\<And>g. h \<noteq> HV3 g"
    and fs: "list_all2 (ef_reads 16 (ef_version_of h)) auth auth'" "list_all2 (ef_reads 0 (ef_version_of h)) enc enc'"
      "auth \<noteq> [] \<or> enc \<noteq> []"
    and keys: "sender auth = Some k" "receiver auth' = Some k'" "holder_cipher k' = holder_cipher k"
    and draft: "\<And>g. h = HV5 g \<Longrightarrow> find_draft_id auth' = Some DRAFT_VERSION"
    and buf: "length buf \<le> 65500"
    and ser: "packet_serialize A nonce \<lparr>header = h, efdata = sealed auth enc, packet_mac = None\<rparr> sender None (new_cursor buf) = Inr w"
  shows "packet_deserialize A (take (cur_pos w) (cur_buf w)) receiver =
    Inr (\<lparr>header = h', efdata = sealed auth' enc', packet_mac = None\<rparr>, holder_cookie k')"
    and "length (take (cur_pos w) (cur_buf w)) =
      88 + length (ef_wires 16 (ef_version_of h) auth) + length (ef_wires 0 (ef_version_of h) enc)"
proof -
  let ?w0 = "new_cursor buf"
  have wr: "writes (header_serialize h) bs" and len: "length bs = 48" using hdr(1) by (auto simp: header_reads_def)
  obtain w1 where w1: "header_serialize h ?w0 = Inr w1"
    "efdata_serialize A nonce (sealed auth enc) sender (ef_version_of h) w1 = Inr w"
    using ser hdr(2) by (cases h) (auto simp: packet_serialize_def Let_def result_simps)
  have a1: "appends ?w0 w1 bs" using writes_appends [OF wr w1(1)] by (simp add: new_cursor_def)
  then have p1: "cur_pos w1 = 48" "take (cur_pos w1) (cur_buf w1) = bs" "length (cur_buf w1) = length buf"
    using len by (auto simp: appends_def new_cursor_def)
  have ok: "\<forall>f \<in> set auth. ef_ok (ef_version_of h) f" "\<forall>f \<in> set enc. ef_ok (ef_version_of h) f"
    using fs(1,2) by (auto simp: list_all2_conv_all_nth in_set_conv_nth ef_reads_def)
  obtain d where d: "appends w1 w d"
    "length d = length (ef_wires 16 (ef_version_of h) auth) + 40 + length (ef_wires 0 (ef_version_of h) enc)"
    using sealed_fields_append [where sender = sender, OF ok A(3,2) fs(3) keys(1) appends_le [OF a1] w1(2)] by blast
  then have out: "take (cur_pos w) (cur_buf w) = bs @ d" using p1 by (auto simp: appends_def)
  show "length (take (cur_pos w) (cur_buf w)) =
      88 + length (ef_wires 16 (ef_version_of h) auth) + length (ef_wires 0 (ef_version_of h) enc)"
    unfolding out using d(2) len by simp
  have "efdata_deserialize A (take (cur_pos w) (cur_buf w)) (cur_pos w1) receiver (ef_version_of h) =
    Inr \<lparr>def_efdata = sealed auth' enc', def_remaining = [], def_cookie = holder_cookie k'\<rparr>"
    unfolding sealed_def
    using A fs keys appends_le [OF a1] buf p1(3) w1(2)
    by (intro nts_fields_read_back [where sender = sender and h = k]) (simp_all add: sealed_def)
  from parse_with_fields [OF hdr this [unfolded p1 out]] draft out
  show "packet_deserialize A (take (cur_pos w) (cur_buf w)) receiver =
    Inr (\<lparr>header = h', efdata = sealed auth' enc', packet_mac = None\<rparr>, holder_cookie k')"
    by (auto simp: sealed_def)
qed

text \<open>Fields of whole words that are not shorter than the minimum read back exactly in version 4.\<close>

fun word_field :: "ext_field \<Rightarrow> bool" where
  "word_field (UniqueIdentifier b) \<longleftrightarrow> 12 \<le> length b \<and> length b mod 4 = 0 \<and> length b \<le> 65528"
| "word_field (NtsCookie b) \<longleftrightarrow> 12 \<le> length b \<and> length b mod 4 = 0 \<and> length b \<le> 65528"
| "word_field (NtsCookiePlaceholder n) \<longleftrightarrow> 12 \<le> unat n \<and> unat n mod 4 = 0 \<and> unat n \<le> 65528"
| "word_field _ \<longleftrightarrow> False"

lemma word_field_reads:
  assumes "word_field f" "m \<le> 16"
  shows "ef_reads m version f f"
proof (cases version)
  case EfV5
  have "ef_exact f" "ef_minimum f m \<le> length (ef_payload f) + 4"
    using assms by (cases f; auto simp: ef_exact_def ef_ok_def)+
  then show ?thesis unfolding EfV5 by (rule ef_reads_exact)
next
  case EfV4
  have p: "length (ef_payload f) mod 4 = 0" "12 \<le> length (ef_payload f)"
    using assms(1) by (cases f; auto)+
  have "ef_minimum f m \<le> length (ef_payload f) + 4" using assms p by (cases f) auto
  then have t: "ef_total f m = length (ef_payload f) + 4"
    using p(1) by (simp add: ef_total_def next_multiple_of_usize_def max_absorb1 mod_add_eq [symmetric, of "length (ef_payload f)"])
  have msg: "ef_message f m EfV4 = ef_payload f" by (simp add: ef_message_def ef_length_def t)
  have raw: "ef_raw f m EfV4 =
      \<lparr>raw_type_id = from_type_id (to_type_id (ef_type f)), message_bytes = ef_payload f\<rparr>"
    by (simp add: ef_raw_def msg)
  show ?thesis
    unfolding ef_reads_def EfV4 raw using assms(1)
    by (cases f) (auto simp: ef_decode_def from_type_id_def decode_nts_cookie_placeholder_def list_ex_iff ef_ok_def)
qed

lemma draft_field_reads: "m \<le> 16 \<Longrightarrow> ef_reads m EfV5 draft_identification draft_identification"
  by (rule ef_reads_exact)
    (simp_all add: draft_identification_def ef_exact_def ef_ok_def DRAFT_VERSION_def)

lemma reads_same: "\<forall>f \<in> set fs. ef_reads m version f f \<Longrightarrow> list_all2 (ef_reads m version) fs fs"
  by (simp add: list_all2_same)

lemma nts_request_word_fields:
  assumes "length uid = 32" "12 \<le> length cookie" "length cookie mod 4 = 0" "length cookie \<le> 65528"
  shows "\<forall>f \<in> set (nts_request_fields uid cookie n). word_field f"
  using assms by (auto simp: nts_request_fields_def unat_of_nat take_bit_nat_eq_self)

lemma cookie_fields_request [simp]:
  "cookie_fields (nts_request_fields uid cookie n) = [cookie]"
proof -
  have "cookie_fields (replicate k (NtsCookiePlaceholder v)) = []" for k v by (induction k) simp_all
  then show ?thesis by (simp add: nts_request_fields_def)
qed

lemma cookie_fields_append: "cookie_fields (xs @ ys) = cookie_fields xs @ cookie_fields ys"
  by (simp add: cookie_fields_def map_filter_append)

lemma find_draft_request:
  "find_draft_id (nts_request_fields uid cookie n @ [DraftIdentification v]) = Some v"
proof -
  have "find_draft_id (replicate k (NtsCookiePlaceholder u) @ [DraftIdentification v]) = Some v" for k u
    by (induction k) simp_all
  then show ?thesis by (simp add: nts_request_fields_def)
qed

lemma length_encoded_cookie:
  assumes "encode_cookie A nonce ks keys = Some cookie" "cookie_wf keys" "length nonce = 16" "aead_overhead A"
  shows "length cookie = 104 \<or> length cookie = 168"
proof -
  have "unat (ks_primary ks) < length (ks_keys ks)" using assms(1) by (auto simp: encode_cookie_def Let_def split: if_splits)
  from encode_cookie_sealed [OF this assms(3,4), of keys] assms(1)
  have "length cookie = length (dsc_plaintext keys) + 38"
    using length_sealed_cookie [OF assms(3,4)] by simp
  moreover have "length (dsc_plaintext keys) = 66 \<or> length (dsc_plaintext keys) = 130"
    using assms(2) by (cases rule: cookie_wf_cases) (simp_all add: dsc_plaintext_def)
  ultimately show ?thesis by auto
qed

lemma decode_encoded_cookie:
  assumes "encode_cookie A nonce ks keys = Some cookie" "cookie_wf keys" "length nonce = 16" "aead_overhead A" "aead_correct A"
  shows "decode_cookie A ks cookie = Some keys"
proof -
  have p: "unat (ks_primary ks) < length (ks_keys ks)" using assms(1) by (auto simp: encode_cookie_def Let_def split: if_splits)
  with encode_cookie_sealed [OF this assms(3,4), of keys] assms(1) show ?thesis
    using decode_sealed_cookie [OF assms(5,3,4,2), of "ks_primary ks + ks_id_offset ks" ks] by auto
qed

text \<open>What the receiver of a header sees in it.\<close>

fun header_as_read :: "ntp_header \<Rightarrow> ntp_header" where
  "header_as_read (HV5 h) = HV5 (fix_leap_indicator h)"
| "header_as_read h = h"

lemma request_header_reads:
  assumes "h \<in> {HV4 (fst (h4_poll_message t i)), HV5 (fst (h5_poll_message (ts_to_bits t) i))}"
  obtains bs where "header_reads h bs (header_as_read h)"
proof -
  have z: "rd = dur_ZERO" if "dur_val rd = 0" for rd using that by (simp add: dur_eq_iff dur_ZERO_def)
  consider (v4) "h = HV4 (fst (h4_poll_message t i))" | (v5) "h = HV5 (fst (h5_poll_message (ts_to_bits t) i))"
    using assms by blast
  then show thesis
  proof cases
    case v4
    let ?h = "fst (h4_poll_message t i)"
    have d: "h4_root_delay ?h = dur_ZERO" "h4_root_dispersion ?h = dur_ZERO" "h4_leap ?h = NoWarning"
      by (simp_all add: h4_poll_message_def h4_new_def)
    obtain bs rd rdisp where "header_reads (HV4 ?h) bs (HV4 (?h\<lparr>h4_root_delay := rd, h4_root_dispersion := rdisp\<rparr>))"
      "dur_val rd = 0" "dur_val rdisp = 0"
      by (rule header_reads_v4 [of ?h]) (simp_all add: d duration_in_range_def dur_ZERO_def)
    moreover from this(2,3) have "?h\<lparr>h4_root_delay := rd, h4_root_dispersion := rdisp\<rparr> = ?h"
      using d by (simp add: z)
    ultimately show ?thesis using that v4 by simp
  next
    case v5
    let ?h = "fst (h5_poll_message (ts_to_bits t) i)"
    have d: "h5_root_delay ?h = dur_ZERO" "h5_root_dispersion ?h = dur_ZERO" "h5_leap ?h = NoWarning" "h5_wf ?h"
      by (simp_all add: h5_poll_message_def h5_new_def h5_wf_def)
    obtain bs rd rdisp where
      "header_reads (HV5 ?h) bs (HV5 ((fix_leap_indicator ?h)\<lparr>h5_root_delay := rd, h5_root_dispersion := rdisp\<rparr>))"
      "dur_val rd = 0" "dur_val rdisp = 0"
      by (rule header_reads_v5 [of ?h]) (simp_all add: d duration_in_range_def dur_ZERO_def)
    moreover from this(2,3) have "(fix_leap_indicator ?h)\<lparr>h5_root_delay := rd, h5_root_dispersion := rdisp\<rparr> = fix_leap_indicator ?h"
      using d by (cases ?h) (simp add: z fix_leap_indicator_def)
    ultimately show ?thesis using that v5 by simp
  qed
qed

lemma request_packet:
  assumes "(req, rid) \<in> {nts_poll_message t uid cookie n i, nts_poll_message_v5 (ts_to_bits t) uid cookie n i}"
  obtains h auth where "req = \<lparr>header = h, efdata = sealed auth [], packet_mac = None\<rparr>"
    "h \<in> {HV4 (fst (h4_poll_message t i)), HV5 (fst (h5_poll_message (ts_to_bits t) i))}"
    "ef_version_of h = EfV4 \<and> auth = nts_request_fields uid cookie n \<or>
     ef_version_of h = EfV5 \<and> auth = nts_request_fields uid cookie n @ [draft_identification]"
  using assms that
  by (auto simp: nts_poll_message_def nts_poll_message_v5_def sealed_def draft_identification_def
      h4_poll_message_def h5_poll_message_def)

text \<open>
  Both messages of an exchange take the same room: the header, the unique identifier, the sealed
  field's own 40 bytes, a draft identification in version 5, and one cookie for each requested.
\<close>

fun exchange_overhead :: "ntp_header \<Rightarrow> nat" where
  "exchange_overhead (HV5 _) = 152"
| "exchange_overhead _ = 124"

lemma word_total: "length (ef_payload f) mod 4 = 0 \<Longrightarrow> m \<le> length (ef_payload f) + 4 \<Longrightarrow> ef_total f m = length (ef_payload f) + 4"
proof -
  assume p: "length (ef_payload f) mod 4 = 0" "m \<le> length (ef_payload f) + 4"
  then have "max (length (ef_payload f) + 4) (ef_minimum f m) = length (ef_payload f) + 4" by (cases f) auto
  with p(1) show ?thesis
    by (simp add: ef_total_def next_multiple_of_usize_def mod_add_eq [symmetric, of "length (ef_payload f)"])
qed

lemma draft_total: "m \<le> 16 \<Longrightarrow> ef_total draft_identification m = 28"
  by (simp add: draft_identification_def ef_total_def next_multiple_of_usize_def DRAFT_VERSION_def)

lemma nts_request_wires:
  assumes "length uid = 32" "length cookie mod 4 = 0" "12 \<le> length cookie" "length cookie < 65536" "1 \<le> unat n"
  shows "length (ef_wires 16 version (nts_request_fields uid cookie n)) = 36 + unat n * (length cookie + 4)"
proof -
  have l: "unat (of_nat (length cookie) :: u16) = length cookie"
    using assms(4) by (simp add: unat_of_nat take_bit_nat_eq_self)
  have t: "ef_total (UniqueIdentifier uid) 16 = 36" "ef_total (NtsCookie cookie) 16 = length cookie + 4"
    "ef_total (NtsCookiePlaceholder (of_nat (length cookie))) 16 = length cookie + 4"
    using assms(1-3) word_total [of "UniqueIdentifier uid" 16] word_total [of "NtsCookie cookie" 16]
      word_total [of "NtsCookiePlaceholder (of_nat (length cookie))" 16] l by simp_all
  obtain k where k: "unat n = Suc k" using assms(5) by (cases "unat n") auto
  show ?thesis
    by (simp add: nts_request_fields_def length_concat comp_def sum_list_replicate t k)
qed

lemma nts_request_read_back:
  assumes A: "aead_correct A" "aead_overhead A" "length nonce = 16" "length nonce' = 16"
    and keys: "cookie_wf keys" "encode_cookie A nonce' ks keys = Some cookie"
    and req: "(req, rid) \<in> {nts_poll_message t uid cookie n i, nts_poll_message_v5 (ts_to_bits t) uid cookie n i}"
      "length uid = 32"
    and ser: "packet_serialize A nonce req (the_cipher (dsc_c2s keys)) None (new_cursor buf) = Inr w" "length buf \<le> 65500"
  shows "packet_deserialize A (take (cur_pos w) (cur_buf w)) (keyset_get A ks) =
    Inr (req\<lparr>header := header_as_read (header req)\<rparr>, Some keys)"
    and "1 \<le> unat n \<Longrightarrow> length (take (cur_pos w) (cur_buf w)) =
      exchange_overhead (header req) + unat n * (length cookie + 4)"
proof -
  from request_packet [OF req(1)] obtain h auth where
    r: "req = \<lparr>header = h, efdata = sealed auth [], packet_mac = None\<rparr>"
    and h: "h \<in> {HV4 (fst (h4_poll_message t i)), HV5 (fst (h5_poll_message (ts_to_bits t) i))}"
    and auth: "ef_version_of h = EfV4 \<and> auth = nts_request_fields uid cookie n \<or>
      ef_version_of h = EfV5 \<and> auth = nts_request_fields uid cookie n @ [draft_identification]" by blast
  from request_header_reads [OF h] obtain bs where bs: "header_reads h bs (header_as_read h)" .
  have lc: "length cookie = 104 \<or> length cookie = 168" using length_encoded_cookie [OF keys(2,1) A(4,2)] .
  then have "\<forall>f \<in> set (nts_request_fields uid cookie n). word_field f"
    using nts_request_word_fields [OF req(2), of cookie n] by auto
  then have reads: "list_all2 (ef_reads 16 (ef_version_of h)) auth auth"
    using auth draft_field_reads [of 16] word_field_reads [where m = 16] by (auto intro!: reads_same)
  have ne: "auth \<noteq> []" using auth by (auto simp: nts_request_fields_def)
  have get: "keyset_get A ks auth = Some (HDecodedServerCookie keys)"
  proof -
    have "cookie_fields auth = [cookie]"
      using auth by (auto simp: cookie_fields_append draft_identification_def)
    then show ?thesis using decode_encoded_cookie [OF keys(2,1) A(4,2,1)] by (simp add: keyset_get_only_cookie)
  qed
  have draft: "find_draft_id auth = Some DRAFT_VERSION" if "h = HV5 g" for g
    using auth that find_draft_request by (auto simp: draft_identification_def)
  have v3: "h \<noteq> HV3 g" for g using h by auto
  have send: "the_cipher (dsc_c2s keys) auth = Some (HOther (dsc_c2s keys))" by (simp add: the_cipher_def)
  have e: "list_all2 (ef_reads 0 (ef_version_of h)) [] []" "auth \<noteq> [] \<or> [] \<noteq> []" using ne by simp_all
  have hc: "holder_cipher (HDecodedServerCookie keys) = holder_cipher (HOther (dsc_c2s keys))" by simp
  note rb = sealed_packet_reads_back [where sender = "the_cipher (dsc_c2s keys)" and receiver = "keyset_get A ks",
      OF A(1-3) bs v3 reads e send get hc draft ser(2) ser(1) [unfolded r]]
  from rb(1) show "packet_deserialize A (take (cur_pos w) (cur_buf w)) (keyset_get A ks) =
      Inr (req\<lparr>header := header_as_read (header req)\<rparr>, Some keys)"
    by (simp add: r holder_cookie_def)
  assume "1 \<le> unat n"
  with nts_request_wires [OF req(2), of cookie n] lc
  have "length (ef_wires 16 version (nts_request_fields uid cookie n)) = 36 + unat n * (length cookie + 4)" for version
    by auto
  with auth h have "length (ef_wires 16 (ef_version_of h) auth) + 88 = exchange_overhead h + unat n * (length cookie + 4)"
    by (auto simp: draft_total)
  with rb(2) show "length (take (cur_pos w) (cur_buf w)) = exchange_overhead (header req) + unat n * (length cookie + 4)"
    by (simp add: r)
qed

lemma sealed_packet_fits:
  assumes "header_reads h bs h'" "\<And>g. h \<noteq> HV3 g"
    and "\<forall>f \<in> set auth. ef_ok (ef_version_of h) f" "\<forall>f \<in> set enc. ef_ok (ef_version_of h) f"
    and "length nonce = 16" "aead_overhead A" "provider auth = Some k"
    and "88 + length (ef_wires 16 (ef_version_of h) auth) + length (ef_wires 0 (ef_version_of h) enc) \<le> length buf"
  shows "\<exists>w. packet_serialize A nonce \<lparr>header = h, efdata = sealed auth enc, packet_mac = None\<rparr> provider None (new_cursor buf) = Inr w"
proof -
  have wr: "writes (header_serialize h) bs" and len: "length bs = 48" using assms(1) by (auto simp: header_reads_def)
  obtain w1 where w1: "header_serialize h (new_cursor buf) = Inr w1" "appends (new_cursor buf) w1 bs"
    using writes_fits [OF wr, of "new_cursor buf"] len assms(8) by (auto simp: new_cursor_def)
  then have "cur_pos w1 = 48" "length (cur_buf w1) = length buf" using len by (auto simp: appends_def new_cursor_def)
  then obtain w where "efdata_serialize A nonce (sealed auth enc) provider (ef_version_of h) w1 = Inr w"
    using efdata_serialize_fits [where provider = provider, OF assms(3-7), of w1] assms(8) unfolding sealed_def by auto
  with w1(1) assms(2) show ?thesis by (cases h) (auto simp: packet_serialize_def Let_def)
qed

text \<open>
  C15: an authenticated request reaches the server as it was made. With a cookie the server issued,
  the bytes a client sends parse, under the server's current key set, to the same packet, and the
  server recovers both keys of the connection from the cookie. The leap indicator of a version 5
  request is the only thing that reads differently.
\<close>
theorem nts_request_reaches_server:
  assumes "aead_correct A" "aead_overhead A" "length nonce = 16" "length nonce' = 16"
    and "cookie_wf keys" "encode_cookie A nonce' ks keys = Some cookie"
    and "(req, rid) \<in> {nts_poll_message t uid cookie n i, nts_poll_message_v5 (ts_to_bits t) uid cookie n i}"
      "length uid = 32"
    and "packet_serialize A nonce req (the_cipher (dsc_c2s keys)) None (new_cursor buf) = Inr w" "length buf \<le> 65500"
  shows "packet_deserialize A (take (cur_pos w) (cur_buf w)) (keyset_get A ks) =
    Inr (req\<lparr>header := header_as_read (header req)\<rparr>, Some keys)"
  using assms by (rule nts_request_read_back(1))

definition example_ks :: key_set where
  "example_ks = \<lparr>ks_keys = [AesSivCmac512 (replicate 64 3)], ks_id_offset = 1, ks_primary = 0\<rparr>"

definition example_sealed :: bytes where
  "example_sealed = sealed_cookie example_aead (replicate 16 7) (AesSivCmac512 (replicate 64 3)) 1 example_cookie"

lemma example_encode:
  "encode_cookie example_aead (replicate 16 7) example_ks example_cookie = Some example_sealed"
  using encode_cookie_sealed [of example_ks "replicate 16 7" example_aead example_cookie] example_aead_ok
  by (simp add: example_ks_def example_sealed_def)

lemma length_example_sealed: "length example_sealed = 104"
  using length_sealed_cookie [of "replicate 16 7" example_aead] example_aead_ok(2)
  by (simp add: example_sealed_def dsc_plaintext_def example_cookie_def)

definition example_request :: "ntp_packet \<times> request_identifier" where
  "example_request = nts_poll_message (NtpTimestamp 9) (replicate 32 5) example_sealed 2 (PollInterval 4)"

lemma example_request_fits:
  "\<exists>w. packet_serialize example_aead (replicate 16 0) (fst example_request) (the_cipher (dsc_c2s example_cookie)) None
     (new_cursor (replicate 400 0)) = Inr w"
proof -
  let ?h = "HV4 (fst (h4_poll_message (NtpTimestamp 9) (PollInterval 4)))"
  let ?auth = "nts_request_fields (replicate 32 5) example_sealed 2"
  have r: "fst example_request = \<lparr>header = ?h, efdata = sealed ?auth [], packet_mac = None\<rparr>"
    by (simp add: example_request_def nts_poll_message_def sealed_def h4_poll_message_def)
  obtain bs where bs: "header_reads ?h bs (header_as_read ?h)"
    by (rule request_header_reads [of ?h "NtpTimestamp 9" "PollInterval 4"]) auto
  have auth: "?auth = [UniqueIdentifier (replicate 32 5), NtsCookie example_sealed, NtsCookiePlaceholder 104]"
    by (simp add: nts_request_fields_def length_example_sealed)
  have k: "the_cipher (dsc_c2s example_cookie) ?auth = Some (HOther (dsc_c2s example_cookie))"
    by (simp add: the_cipher_def)
  show ?thesis unfolding r
    by (rule sealed_packet_fits [where provider = "the_cipher (dsc_c2s example_cookie)", OF bs _ _ _ _ example_aead_ok(2) k])
      (simp_all add: auth ef_ok_def length_example_sealed ef_total_def next_multiple_of_usize_def)
qed

theorem nts_request_reaches_server_witness:
  "\<exists>w. packet_serialize example_aead (replicate 16 0) (fst example_request) (the_cipher (dsc_c2s example_cookie)) None
       (new_cursor (replicate 400 0)) = Inr w \<and>
     packet_deserialize example_aead (take (cur_pos w) (cur_buf w)) (keyset_get example_aead example_ks) =
       Inr (fst example_request, Some example_cookie)"
proof -
  obtain w where w: "packet_serialize example_aead (replicate 16 0) (fst example_request)
      (the_cipher (dsc_c2s example_cookie)) None (new_cursor (replicate 400 0)) = Inr w"
    using example_request_fits by blast
  have "packet_deserialize example_aead (take (cur_pos w) (cur_buf w)) (keyset_get example_aead example_ks) =
      Inr ((fst example_request)\<lparr>header := header_as_read (header (fst example_request))\<rparr>, Some example_cookie)"
    by (rule nts_request_reaches_server [where rid = "snd example_request" and uid = "replicate 32 5"
          and n = 2 and i = "PollInterval 4" and t = "NtpTimestamp 9" and nonce' = "replicate 16 7",
          OF example_aead_ok _ _ _ example_encode _ _ w])
      (simp_all add: example_cookie_def example_request_def)
  moreover have "header_as_read (header (fst example_request)) = header (fst example_request)"
    by (simp add: example_request_def nts_poll_message_def h4_poll_message_def)
  ultimately show ?thesis using w by auto
qed

section \<open>The authenticated exchange\<close>

fun wants_cookie :: "ext_field \<Rightarrow> bool" where
  "wants_cookie (NtsCookie _) = True"
| "wants_cookie (NtsCookiePlaceholder _) = True"
| "wants_cookie _ = False"

fun cookie_room :: "ext_field \<Rightarrow> nat" where
  "cookie_room (NtsCookie c) = length c"
| "cookie_room (NtsCookiePlaceholder n) = unat n"
| "cookie_room _ = 0"

lemma fresh_cookies_result:
  assumes "unat (ks_primary ks) < length (ks_keys ks)" "aead_overhead A" "\<And>j. length (nonces j) = 16"
    and "\<forall>f \<in> set efs. wants_cookie f \<longrightarrow> length (dsc_plaintext keys) + 38 \<le> cookie_room f"
  shows "\<exists>new. fresh_cookies A nonces ks keys i efs = Some (map NtsCookie new) \<and>
    length new = length (filter wants_cookie efs) \<and>
    (\<forall>c \<in> set new. \<exists>j. encode_cookie A (nonces j) ks keys = Some c)"
  using assms(4)
proof (induction efs arbitrary: i)
  case (Cons f efs)
  then obtain new where new: "fresh_cookies A nonces ks keys (Suc i) efs = Some (map NtsCookie new)"
    "length new = length (filter wants_cookie efs)"
    "\<forall>c \<in> set new. \<exists>j. encode_cookie A (nonces j) ks keys = Some c"
    by (meson list.set_intros(2))
  obtain c where c: "encode_cookie A (nonces i) ks keys = Some c" "length c = length (dsc_plaintext keys) + 38"
    using encode_cookie_sealed [OF assms(1) assms(3) assms(2)] length_sealed_cookie [OF assms(3) assms(2)] by metis
  show ?case
  proof (cases "wants_cookie f")
    case True
    then have "fresh_cookies A nonces ks keys i (f # efs) = Some (map NtsCookie (c # new))"
      using new(1) c Cons.prems by (cases f) auto
    then show ?thesis using new(2,3) c(1) True by (intro exI [of _ "c # new"]) auto
  next
    case False
    then show ?thesis using new by (cases f) auto
  qed
qed simp

lemma request_wants:
  assumes "unat n \<ge> 1" "length cookie < 65536" "length ds \<le> 1" "\<forall>f \<in> set ds. \<not> wants_cookie f"
  shows "length (filter wants_cookie (take 8 (nts_request_fields uid cookie n @ ds))) = min (unat n) 7"
    and "\<forall>f \<in> set (nts_request_fields uid cookie n @ ds). wants_cookie f \<longrightarrow> cookie_room f = length cookie"
proof -
  have f: "filter wants_cookie (take k ds) = []" for k using assms(4) by (auto simp: filter_empty_conv dest: in_set_takeD)
  have "take 8 (nts_request_fields uid cookie n @ ds) =
      UniqueIdentifier uid # NtsCookie cookie # replicate (min 6 (unat n - 1)) (NtsCookiePlaceholder (of_nat (length cookie))) @
      take (7 - unat n) ds"
    using assms(1) by (simp add: nts_request_fields_def numeral_eq_Suc)
  then show "length (filter wants_cookie (take 8 (nts_request_fields uid cookie n @ ds))) = min (unat n) 7"
    using assms(1) f by (simp add: filter_replicate)
  show "\<forall>f \<in> set (nts_request_fields uid cookie n @ ds). wants_cookie f \<longrightarrow> cookie_room f = length cookie"
    using assms(2,4) by (auto simp: nts_request_fields_def unat_of_nat take_bit_nat_eq_self)
qed

text \<open>What the wire formats need of the server's state for a response to be readable.\<close>

definition info_in_range :: "ntp_server_info \<Rightarrow> ntp_timestamp \<Rightarrow> bool" where
  "info_in_range info recv \<longleftrightarrow>
     duration_in_range 36 (ts_root_delay (time_snapshot_of info)) \<and>
     duration_in_range 36 (ts_root_dispersion (time_snapshot_of info) recv) \<and>
     ts_leap_indicator (time_snapshot_of info) \<noteq> Unknown"

text \<open>Headers that differ only in what the wire formats round or correct.\<close>

fun header_close :: "ntp_header \<Rightarrow> ntp_header \<Rightarrow> bool" where
  "header_close (HV4 h) (HV4 g) \<longleftrightarrow>
     g = h\<lparr>h4_root_delay := h4_root_delay g, h4_root_dispersion := h4_root_dispersion g\<rparr>"
| "header_close (HV5 h) (HV5 g) \<longleftrightarrow>
     g = h\<lparr>h5_leap := h5_leap g, h5_root_delay := h5_root_delay g, h5_root_dispersion := h5_root_dispersion g\<rparr>"
| "header_close _ _ \<longleftrightarrow> False"

lemma header_close_cases:
  assumes "header_close h g"
  obtains (V4) x d e where "h = HV4 x" "g = HV4 (x\<lparr>h4_root_delay := d, h4_root_dispersion := e\<rparr>)"
    | (V5) x l d e where "h = HV5 x" "g = HV5 (x\<lparr>h5_leap := l, h5_root_delay := d, h5_root_dispersion := e\<rparr>)"
  using assms by (cases "(h, g)" rule: header_close.cases) auto

lemma header_close_valid:
  assumes "header_close (header p) (header q)" "efdata p = efdata q"
  shows "valid_server_response q rid nts \<longleftrightarrow> valid_server_response p rid nts"
    and "is_kiss_ntsn q \<longleftrightarrow> is_kiss_ntsn p" and "is_kiss q \<longleftrightarrow> is_kiss p"
proof -
  have c: "header_field h4_stratum h5_stratum (header q) = header_field h4_stratum h5_stratum (header p)"
    "header_field (\<lambda>_. is_ntsn (kiss_code q)) (\<lambda>h. fl_authnak (h5_flags h)) (header q) =
     header_field (\<lambda>_. is_ntsn (kiss_code p)) (\<lambda>h. fl_authnak (h5_flags h)) (header p)"
    "header_field (\<lambda>h. h4_origin_timestamp h = ts) (\<lambda>h. h5_client_cookie h = cc) (header q) =
     header_field (\<lambda>h. h4_origin_timestamp h = ts) (\<lambda>h. h5_client_cookie h = cc) (header p)" for ts cc
    using assms(1) by (cases rule: header_close_cases; simp add: kiss_code_def)+
  show k: "is_kiss_ntsn q \<longleftrightarrow> is_kiss_ntsn p" "is_kiss q \<longleftrightarrow> is_kiss p"
    by (simp_all add: is_kiss_ntsn_def is_kiss_def packet_stratum_def c)
  show "valid_server_response q rid nts \<longleftrightarrow> valid_server_response p rid nts"
    unfolding valid_server_response_def c k assms(2) ..
qed

lemma response_header_reads:
  assumes "info_in_range info recv" "length rnd = 8"
    and "h \<in> {HV4 (h4_timestamp_response info g recv now), HV5 (h5_timestamp_response rnd info g' recv now)}"
    and "length (h5_client_cookie g') = 8"
  obtains bs h' where "header_reads h bs h'" "header_close h h'"
proof -
  consider (v4) "h = HV4 (h4_timestamp_response info g recv now)" | (v5) "h = HV5 (h5_timestamp_response rnd info g' recv now)"
    using assms(3) by blast
  then show thesis
  proof cases
    case v4
    let ?h = "h4_timestamp_response info g recv now"
    have i: "(2 :: int) ^ 36 \<le> 2 ^ 48" by simp
    have "duration_in_range 48 (h4_root_delay ?h)" "duration_in_range 48 (h4_root_dispersion ?h)" "h4_leap ?h \<noteq> Unknown"
      using assms(1) i by (auto simp: h4_timestamp_response_def info_in_range_def duration_in_range_def)
    from header_reads_v4 [OF this] obtain bs rd rdisp where
      "header_reads (HV4 ?h) bs (HV4 (?h\<lparr>h4_root_delay := rd, h4_root_dispersion := rdisp\<rparr>))" by blast
    then show ?thesis using that v4 by simp
  next
    case v5
    let ?h = "h5_timestamp_response rnd info g' recv now"
    have "duration_in_range 36 (h5_root_delay ?h)" "duration_in_range 36 (h5_root_dispersion ?h)" "h5_wf ?h"
      "h5_leap ?h \<noteq> Unknown \<or> fl_synchronized (h5_flags ?h)"
      using assms by (simp_all add: h5_timestamp_response_def info_in_range_def h5_wf_def)
    from header_reads_v5 [OF this] obtain bs rd rdisp where
      "header_reads (HV5 ?h) bs (HV5 ((fix_leap_indicator ?h)\<lparr>h5_root_delay := rd, h5_root_dispersion := rdisp\<rparr>))" by blast
    moreover have "header_close (HV5 ?h) (HV5 ((fix_leap_indicator ?h)\<lparr>h5_root_delay := rd, h5_root_dispersion := rdisp\<rparr>))"
      by (cases ?h) (simp add: fix_leap_indicator_def)
    ultimately show ?thesis using that v5 by blast
  qed
qed

lemma response_to_read_request:
  "nts_timestamp_response A nonces rnd info (req\<lparr>header := header_as_read (header req)\<rparr>) recv now keys ks =
   nts_timestamp_response A nonces rnd info req recv now keys ks"
proof -
  have "h5_timestamp_response rnd info (fix_leap_indicator h) recv now = h5_timestamp_response rnd info h recv now" for h
    by (simp add: h5_timestamp_response_def fix_leap_indicator_def)
  then show ?thesis by (cases "header req") (simp_all add: nts_timestamp_response_def Let_def)
qed

lemma nts_timestamp_response_packet:
  assumes req: "(req, rid) \<in> {nts_poll_message t uid cookie n i, nts_poll_message_v5 (ts_to_bits t) uid cookie n i}"
    and n: "1 \<le> unat n" and c: "length cookie = length (dsc_plaintext keys) + 38" "length cookie < 65536"
    and ks: "unat (ks_primary ks) < length (ks_keys ks)" and A: "aead_overhead A" "\<And>j. length (nonces j) = 16"
  obtains h auth new where
    "nts_timestamp_response A nonces rnd info req recv now keys ks =
       Some \<lparr>header = h, efdata = sealed auth (map NtsCookie new), packet_mac = None\<rparr>"
    "length new = min (unat n) 7" "\<forall>c \<in> set new. \<exists>j. encode_cookie A (nonces j) ks keys = Some c"
    "\<exists>g g'. h \<in> {HV4 (h4_timestamp_response info g recv now), HV5 (h5_timestamp_response rnd info g' recv now)} \<and>
       length (h5_client_cookie g') = 8"
    "ef_version_of h = EfV4 \<and> auth = [UniqueIdentifier uid] \<or>
     ef_version_of h = EfV5 \<and> auth = [UniqueIdentifier uid, draft_identification]"
    "header_version h = header_version (header req)"
proof -
  consider (v4) "req = fst (nts_poll_message t uid cookie n i)" | (v5) "req = fst (nts_poll_message_v5 (ts_to_bits t) uid cookie n i)"
    using req by (metis fst_conv insertE singletonD)
  then show thesis
  proof cases
    case v4
    let ?efs = "nts_request_fields uid cookie n @ []"
    note w = request_wants [OF n c(2), of "[]" uid]
    have "\<forall>f \<in> set (take 8 ?efs). wants_cookie f \<longrightarrow> length (dsc_plaintext keys) + 38 \<le> cookie_room f"
      using w(2) c(1) by (auto dest: in_set_takeD)
    from fresh_cookies_result [where nonces = nonces and i = 0, OF ks A this] obtain new where
      "fresh_cookies A nonces ks keys 0 (take 8 ?efs) = Some (map NtsCookie new)" "length new = min (unat n) 7"
      "\<forall>c \<in> set new. \<exists>j. encode_cookie A (nonces j) ks keys = Some c"
      using w(1) by auto
    moreover have "length (h5_client_cookie h5_new) = 8" by (simp add: h5_new_def)
    ultimately show ?thesis
      by (intro that [of "HV4 (h4_timestamp_response info (fst (h4_poll_message t i)) recv now)" "[UniqueIdentifier uid]" new])
        (auto simp: v4 nts_poll_message_def h4_poll_message_def nts_timestamp_response_def MAX_COOKIES_def Let_def)
  next
    case v5
    let ?efs = "nts_request_fields uid cookie n @ [draft_identification]"
    note w = request_wants [OF n c(2), of "[draft_identification]" uid]
    have "\<forall>f \<in> set (take 8 ?efs). wants_cookie f \<longrightarrow> length (dsc_plaintext keys) + 38 \<le> cookie_room f"
      using w(2) c(1) by (auto simp: draft_identification_def dest: in_set_takeD)
    from fresh_cookies_result [where nonces = nonces and i = 0, OF ks A this] obtain new where
      "fresh_cookies A nonces ks keys 0 (take 8 ?efs) = Some (map NtsCookie new)" "length new = min (unat n) 7"
      "\<forall>c \<in> set new. \<exists>j. encode_cookie A (nonces j) ks keys = Some c"
      using w(1) by (auto simp: draft_identification_def)
    moreover have "length (h5_client_cookie (fst (h5_poll_message (ts_to_bits t) i))) = 8" by (simp add: h5_poll_message_def)
    ultimately show ?thesis
      by (intro that [of "HV5 (h5_timestamp_response rnd info (fst (h5_poll_message (ts_to_bits t) i)) recv now)"
            "[UniqueIdentifier uid, draft_identification]" new])
        (auto simp: v5 nts_poll_message_v5_def h5_poll_message_def nts_timestamp_response_def MAX_COOKIES_def Let_def
          draft_identification_def map_filter_append List.map_filter_simps)
  qed
qed

lemma nts_response_reads_back:
  assumes A: "aead_correct A" "aead_overhead A" "length nonce = 16" "\<And>j. length (nonces j) = 16"
    and keys: "cookie_wf keys" "encode_cookie A nonce' ks keys = Some cookie" "length nonce' = 16"
    and req: "(req, rid) \<in> {nts_poll_message t uid cookie n i, nts_poll_message_v5 (ts_to_bits t) uid cookie n i}"
      "length uid = 32" "1 \<le> unat n"
    and info: "info_in_range info recv" "length rnd = 8"
    and resp: "nts_timestamp_response A nonces rnd info req recv now keys ks = Some resp"
    and buf: "exchange_overhead (header req) + min (unat n) 7 * (length cookie + 4) \<le> length buf" "length buf \<le> 65500"
  obtains w resp' where
    "packet_serialize A nonce resp (the_cipher (dsc_s2c keys)) None (new_cursor buf) = Inr w"
    "length (take (cur_pos w) (cur_buf w)) = exchange_overhead (header req) + min (unat n) 7 * (length cookie + 4)"
    "packet_deserialize A (take (cur_pos w) (cur_buf w)) (the_cipher (dsc_s2c keys)) = Inr (resp', None)"
    "header_close (header resp) (header resp')" "efdata resp = efdata resp'"
    "length (new_cookies resp') = min (unat n) 7"
    "\<forall>c \<in> set (new_cookies resp'). decode_cookie A ks c = Some keys \<and> (\<exists>j. encode_cookie A (nonces j) ks keys = Some c)"
proof -
  have p: "unat (ks_primary ks) < length (ks_keys ks)"
    using keys(2) by (auto simp: encode_cookie_def Let_def split: if_splits)
  have c: "length cookie = length (dsc_plaintext keys) + 38" "length cookie < 65536"
    using encode_cookie_sealed [OF p keys(3) A(2), of keys] keys(2) length_sealed_cookie [OF keys(3) A(2)]
      length_encoded_cookie [OF keys(2,1,3) A(2)] by auto
  obtain h auth new where r0: "nts_timestamp_response A nonces rnd info req recv now keys ks =
      Some \<lparr>header = h, efdata = sealed auth (map NtsCookie new), packet_mac = None\<rparr>"
    and new: "length new = min (unat n) 7" "\<forall>c \<in> set new. \<exists>j. encode_cookie A (nonces j) ks keys = Some c"
    and h: "\<exists>g g'. h \<in> {HV4 (h4_timestamp_response info g recv now), HV5 (h5_timestamp_response rnd info g' recv now)} \<and>
       length (h5_client_cookie g') = 8"
    and auth: "ef_version_of h = EfV4 \<and> auth = [UniqueIdentifier uid] \<or>
     ef_version_of h = EfV5 \<and> auth = [UniqueIdentifier uid, draft_identification]"
    and hv: "header_version h = header_version (header req)"
    by (rule nts_timestamp_response_packet [where nonces = nonces and info = info and rnd = rnd and recv = recv and now = now,
          OF req(1,3) c p A(2,4)])
  from r0 resp have r: "resp = \<lparr>header = h, efdata = sealed auth (map NtsCookie new), packet_mac = None\<rparr>" by simp
  from h obtain g g' where g: "h \<in> {HV4 (h4_timestamp_response info g recv now), HV5 (h5_timestamp_response rnd info g' recv now)}"
    "length (h5_client_cookie g') = 8" by blast
  obtain bs h' where bs: "header_reads h bs h'" "header_close h h'" by (rule response_header_reads [OF info g])
  have u: "word_field (UniqueIdentifier uid)" using req(2) by simp
  have ra: "list_all2 (ef_reads 16 (ef_version_of h)) auth auth"
    using auth word_field_reads [OF u, of 16] draft_field_reads [of 16] by auto
  have lc: "length cookie = 104 \<or> length cookie = 168" using length_encoded_cookie [OF keys(2,1,3) A(2)] .
  have cs: "length c = length cookie" if nc: "c \<in> set new" for c
  proof -
    from new(2) nc obtain j where "encode_cookie A (nonces j) ks keys = Some c" by blast
    with encode_cookie_sealed [OF p A(4) A(2), of j keys] length_sealed_cookie [OF A(4) A(2)] c(1) show ?thesis by simp
  qed
  then have rc: "list_all2 (ef_reads 0 (ef_version_of h)) (map NtsCookie new) (map NtsCookie new)"
    using lc by (intro reads_same) (auto intro!: word_field_reads)
  have ne: "auth \<noteq> [] \<or> map NtsCookie new \<noteq> []" using auth by auto
  have draft: "find_draft_id auth = Some DRAFT_VERSION" if "h = HV5 g" for g
    using auth that by (auto simp: draft_identification_def)
  have v3: "h \<noteq> HV3 g" for g using g by auto
  have send: "the_cipher (dsc_s2c keys) auth = Some (HOther (dsc_s2c keys))" by (simp add: the_cipher_def)
  have ok: "\<forall>f \<in> set auth. ef_ok (ef_version_of h) f" "\<forall>f \<in> set (map NtsCookie new). ef_ok (ef_version_of h) f"
    using ra rc by (auto simp: list_all2_same ef_reads_def)
  have "length (ef_wires 16 version [UniqueIdentifier uid]) = 36" for version
    using word_total [of "UniqueIdentifier uid" 16] req(2) by simp
  moreover have "ef_version_of h = ef_version_of (header req)"
    using hv by (cases h; cases "header req"; simp)
  ultimately have wa: "88 + length (ef_wires 16 (ef_version_of h) auth) = exchange_overhead (header req)"
    using auth by (cases "header req") (auto simp: draft_total)
  have "map (\<lambda>c. ef_total (NtsCookie c) 0) new = map (\<lambda>_. length cookie + 4) new"
    using cs lc word_total [of "NtsCookie _" 0] by auto
  then have we: "length (ef_wires 0 (ef_version_of h) (map NtsCookie new)) = min (unat n) 7 * (length cookie + 4)"
    using new(1) by (simp add: length_concat comp_def map_replicate_const sum_list_replicate)
  have room: "88 + length (ef_wires 16 (ef_version_of h) auth) + length (ef_wires 0 (ef_version_of h) (map NtsCookie new)) \<le> length buf"
    using wa we buf(1) by simp
  obtain w where w: "packet_serialize A nonce resp (the_cipher (dsc_s2c keys)) None (new_cursor buf) = Inr w"
    using sealed_packet_fits [where provider = "the_cipher (dsc_s2c keys)", OF bs(1) v3 ok A(3,2) send room] by (auto simp: r)
  note rb = sealed_packet_reads_back [where sender = "the_cipher (dsc_s2c keys)" and receiver = "the_cipher (dsc_s2c keys)",
      OF A(1-3) bs(1) v3 ra rc ne send send refl draft buf(2) w [unfolded r]]
  have len: "length (take (cur_pos w) (cur_buf w)) = exchange_overhead (header req) + min (unat n) 7 * (length cookie + 4)"
    using rb(2) wa we by simp
  have d: "packet_deserialize A (take (cur_pos w) (cur_buf w)) (the_cipher (dsc_s2c keys)) =
      Inr (\<lparr>header = h', efdata = sealed auth (map NtsCookie new), packet_mac = None\<rparr>, holder_cookie (HOther (dsc_s2c keys)))"
    by (rule rb(1))
  have nc: "cookie_fields (map NtsCookie cs) = cs" for cs by (induction cs) simp_all
  show thesis
  proof (rule that [OF w len])
    show "packet_deserialize A (take (cur_pos w) (cur_buf w)) (the_cipher (dsc_s2c keys)) =
        Inr (\<lparr>header = h', efdata = sealed auth (map NtsCookie new), packet_mac = None\<rparr>, None)"
      using d by (simp add: holder_cookie_def)
  qed (use bs(2) new decode_encoded_cookie [OF _ keys(1) A(4) A(2,1)] in
        \<open>auto simp: r new_cookies_def sealed_def nc\<close>)
qed

text \<open>
  The authenticated exchange of time works end to end. The server answers a request that
  carries one of its cookies, whatever the version, without panicking and within 1400 bytes; the
  client decrypts the answer, accepts it for the request it sent, and finds in it as many fresh cookies as it asked
  for, up to seven, every one of which the server will later open to the same keys.
\<close>
lemma nts_exchange_succeeds:
  assumes "aead_correct A" "aead_overhead A" "length nonce = 16" "length nonce' = 16" "\<And>j. length (nonces j) = 16"
    and "cookie_wf keys" "encode_cookie A nonce' ks keys = Some cookie"
    and "(req, rid) \<in> {nts_poll_message t uid cookie n i, nts_poll_message_v5 (ts_to_bits t) uid cookie n i}"
      "length uid = 32" "1 \<le> unat n"
    and "info_in_range info recv" "length rnd = 8"
    and "req' = req\<lparr>header := header_as_read (header req)\<rparr>" "1400 \<le> length buf" "length buf \<le> 65500"
  shows "\<exists>resp w resp'. nts_timestamp_response A nonces rnd info req' recv now keys ks = Some resp \<and>
    packet_serialize A nonce resp (the_cipher (dsc_s2c keys)) None (new_cursor buf) = Inr w \<and>
    packet_deserialize A (take (cur_pos w) (cur_buf w)) (the_cipher (dsc_s2c keys)) = Inr (resp', None) \<and>
    valid_server_response resp' rid True \<and>
    length (new_cookies resp') = min (unat n) 7 \<and>
    (\<forall>c \<in> set (new_cookies resp'). decode_cookie A ks c = Some keys)"
proof -
  have p: "unat (ks_primary ks) < length (ks_keys ks)"
    using assms(7) by (auto simp: encode_cookie_def Let_def split: if_splits)
  have c: "length cookie = length (dsc_plaintext keys) + 38" "length cookie < 65536"
    using encode_cookie_sealed [OF p assms(4,2), of keys] assms(7) length_sealed_cookie [OF assms(4,2)]
      length_encoded_cookie [OF assms(7,6,4,2)] by auto
  obtain resp where resp: "nts_timestamp_response A nonces rnd info req recv now keys ks = Some resp"
    by (rule nts_timestamp_response_packet [where nonces = nonces and info = info and rnd = rnd and recv = recv and now = now,
          OF assms(8,10) c p assms(2,5)]) blast
  have v: "valid_server_response resp rid True"
    using nts_response_valid_iff [OF assms(8,8,9,9), of resp A nonces rnd info recv now keys ks] resp by simp
  have "exchange_overhead (header req) \<le> 152" by (cases "header req") simp_all
  moreover have "min (unat n) 7 * (length cookie + 4) \<le> 7 * 172"
    using length_encoded_cookie [OF assms(7,6,4,2)] by (intro mult_le_mono) auto
  ultimately have room: "exchange_overhead (header req) + min (unat n) 7 * (length cookie + 4) \<le> length buf"
    using assms(14) by linarith
  have "nts_timestamp_response A nonces rnd info req' recv now keys ks = Some resp"
    using resp response_to_read_request [of A nonces rnd info req] by (simp add: assms(13))
  moreover have "\<exists>w resp'. packet_serialize A nonce resp (the_cipher (dsc_s2c keys)) None (new_cursor buf) = Inr w \<and>
      packet_deserialize A (take (cur_pos w) (cur_buf w)) (the_cipher (dsc_s2c keys)) = Inr (resp', None) \<and>
      valid_server_response resp' rid True \<and> length (new_cookies resp') = min (unat n) 7 \<and>
      (\<forall>c \<in> set (new_cookies resp'). decode_cookie A ks c = Some keys)"
    by (rule nts_response_reads_back [where nonces = nonces, OF assms(1-3) assms(5-7) assms(4) assms(8-12) resp room assms(15)])
      (use v header_close_valid(1) in blast)
  ultimately show ?thesis by blast
qed

definition example_info :: ntp_server_info where
  "example_info = \<lparr>time_snapshot_of = \<lparr>ts_precision = dur_ZERO, ts_root_delay = dur_ZERO,
      ts_root_dispersion = (\<lambda>_. dur_ZERO), ts_leap_indicator = NoWarning\<rparr>,
     ntp_snapshot_of = \<lparr>snap_stratum = 2, snap_reference_id = REFID_NONE, snap_bloom_filter = bloom_new\<rparr>\<rparr>"

end
