(* ===== verification/Ip_Filter.thy ===== *)
theory Ip_Filter
  imports Identifiers "HOL-Library.Product_Lexorder"
begin

text \<open>
  The address filter of \<^verbatim>\<open>ntp-proto/src/ipfilter.rs\<close>: a trie over 128-bit integers that decides four
  bits at a time, stored in one vector of nodes. \<^verbatim>\<open>BitTree::fill_node\<close> builds it and
  \<^verbatim>\<open>BitTree::lookup\<close> walks it. The theory shows that a lookup always returns and that it returns
  what the obvious search through the list of subnets returns, which is the reference that the
  repository's fuzz target uses.

  Shifts by at least the width of the operand take the amount modulo the width, as they do in a
  release build. \<open>None\<close> stands for an index out of bounds, and for \<open>fill_node\<close> also for recursion
  deeper than its first argument.
\<close>

section \<open>The tree\<close>

record tree_node =
  child_offset :: u32
  inset :: u16
  outset :: u16

definition tree_node_default :: tree_node where
  "tree_node_default = \<lparr>child_offset = 0, inset = 0, outset = 0\<rparr>"

type_synonym prefix = "u128 \<times> byte"

definition top_nibble :: "u128 \<Rightarrow> byte" where
  "top_nibble v = ucast (drop_bit 124 v AND 0xF)"

definition checked_shl :: "'a::len word \<Rightarrow> nat \<Rightarrow> 'a word option" where
  "checked_shl v n = (if n < LENGTH('a) then Some (push_bit n v) else None)"

definition wrapping_shl :: "'a::len word \<Rightarrow> nat \<Rightarrow> 'a word" where
  "wrapping_shl v n = push_bit (n mod LENGTH('a)) v"

definition count_ones :: "'a::len word \<Rightarrow> nat" where
  "count_ones w = length (filter (bit w) [0..<LENGTH('a)])"

definition apply_mask :: "u128 \<Rightarrow> byte \<Rightarrow> u128" where
  "apply_mask val len =
     (case checked_shl (- 1) (unat (128 - len)) of Some m \<Rightarrow> val AND m | None \<Rightarrow> 0)"

partial_function (option) lookup_from :: "tree_node list \<Rightarrow> tree_node \<Rightarrow> u128 \<Rightarrow> bool option" where
  "lookup_from nodes node val =
     (let cur = wrapping_shl (1 :: u16) (unat (top_nibble val)) in
      if inset node AND cur \<noteq> 0 then Some True
      else if outset node AND cur \<noteq> 0 then Some False
      else let next_idx = child_offset node +
                 of_nat (count_ones (NOT (inset node OR outset node) AND (cur - 1)))
           in if unat next_idx < length nodes
              then lookup_from nodes (nodes ! unat next_idx) (push_bit 4 val)
              else None)"

definition lookup :: "tree_node list \<Rightarrow> u128 \<Rightarrow> bool option" where
  "lookup nodes val = (case nodes of [] \<Rightarrow> None | n # _ \<Rightarrow> lookup_from nodes n val)"

text \<open>Distribution of the data into sixteen consecutive segments, one for each leading nibble.\<close>

definition nibble_counts :: "prefix list \<Rightarrow> nat list" where
  "nibble_counts data =
     fold (\<lambda>(val, _) counts. let n = unat (top_nibble val) in counts[n := counts ! n + 1])
       data (replicate 16 0)"

fun split_segments :: "nat list \<Rightarrow> prefix list \<Rightarrow> prefix list list" where
  "split_segments [] data = []"
| "split_segments (c # cs) data = take c data # split_segments cs (drop c data)"

text \<open>How far, from its start, the parts of a segment cover it without a gap.\<close>

definition covered_upto :: "u128 \<Rightarrow> prefix list \<Rightarrow> u128" where
  "covered_upto offset segment =
     fold (\<lambda>(val, len) last.
         if val - offset \<le> last
         then max last (val - offset + wrapping_shl 1 (unat (128 - len)))
         else last)
       segment 0"

definition mark_segment :: "nat \<times> prefix list \<Rightarrow> tree_node \<Rightarrow> tree_node" where
  "mark_segment = (\<lambda>(i, segment) node.
     case segment of
       [] \<Rightarrow> node\<lparr>outset := outset node OR wrapping_shl 1 i\<rparr>
     | (_, len) # _ \<Rightarrow>
         if len \<le> 4
         then fold (\<lambda>j node. node\<lparr>inset := inset node OR wrapping_shl 1 (i + j)\<rparr>)
                [0..<2 ^ unat (4 - len)] node
         else if covered_upto (push_bit 124 (of_nat i)) segment \<ge> push_bit 124 1
         then node\<lparr>inset := inset node OR wrapping_shl 1 i\<rparr>
         else node)"

fun for_each :: "('a \<Rightarrow> 's \<Rightarrow> 's option) \<Rightarrow> 'a list \<Rightarrow> 's \<Rightarrow> 's option" where
  "for_each f [] s = Some s"
| "for_each f (x # xs) s = Option.bind (f x s) (for_each f xs)"

primrec fill_node :: "nat \<Rightarrow> tree_node list \<Rightarrow> prefix list \<Rightarrow> nat \<Rightarrow> tree_node list option" where
  "fill_node 0 nodes data node_index = None"
| "fill_node (Suc depth) nodes data node_index =
     (if node_index < length nodes then
        let subsegments = split_segments (nibble_counts data) data;
            offset = length nodes;
            node = fold mark_segment (enumerate 0 subsegments)
                     ((nodes ! node_index)\<lparr>child_offset := of_nat offset\<rparr>);
            node = node\<lparr>outset := outset node AND NOT (inset node)\<rparr>;
            known_bitmap = inset node OR outset node;
            nodes = nodes[node_index := node] @
                      replicate (count_ones (NOT known_bitmap)) tree_node_default
        in map_option fst
             (for_each (\<lambda>(i, segment) (nodes, offset).
                if known_bitmap AND wrapping_shl 1 i \<noteq> 0 then Some (nodes, offset)
                else map_option (\<lambda>nodes. (nodes, offset + 1))
                       (fill_node depth nodes
                          (map (\<lambda>(val, len). (push_bit 4 val, len - 4)) segment) offset))
                (enumerate 0 subsegments) (nodes, offset))
      else None)"

definition create :: "prefix list \<Rightarrow> tree_node list option" where
  "create data =
     fill_node 32 [tree_node_default] (sort (map (\<lambda>(val, len). (apply_mask val len, len)) data)) 0"

section \<open>The filter\<close>

record ip_filter =
  ipv4_filter :: "tree_node list"
  ipv6_filter :: "tree_node list"

definition ipv4_list :: "ip_subnet list \<Rightarrow> prefix list" where
  "ipv4_list subnets = List.map_filter (\<lambda>n. case subnet_addr n of
       IpV4 a \<Rightarrow> Some (push_bit 96 (ucast a), subnet_mask n) | IpV6 _ \<Rightarrow> None) subnets"

definition ipv6_list :: "ip_subnet list \<Rightarrow> prefix list" where
  "ipv6_list subnets = List.map_filter (\<lambda>n. case subnet_addr n of
       IpV4 _ \<Rightarrow> None | IpV6 a \<Rightarrow> Some (a, subnet_mask n)) subnets"

definition ip_filter_new :: "ip_subnet list \<Rightarrow> ip_filter option" where
  "ip_filter_new subnets =
     Option.bind (create (ipv4_list subnets)) (\<lambda>v4.
     Option.bind (create (ipv6_list subnets)) (\<lambda>v6.
     Some \<lparr>ipv4_filter = v4, ipv6_filter = v6\<rparr>))"

definition is_in4 :: "ip_filter \<Rightarrow> u32 \<Rightarrow> bool option" where
  "is_in4 f a = lookup (ipv4_filter f) (push_bit 96 (ucast a))"

definition is_in6 :: "ip_filter \<Rightarrow> u128 \<Rightarrow> bool option" where
  "is_in6 f a = lookup (ipv6_filter f) a"

definition is_in :: "ip_filter \<Rightarrow> ip_addr \<Rightarrow> bool option" where
  "is_in f a = (case a of IpV4 v \<Rightarrow> is_in4 f v | IpV6 v \<Rightarrow> is_in6 f v)"

text \<open>The reference search of the fuzz target.\<close>

definition subnet_contains :: "ip_subnet \<Rightarrow> ip_addr \<Rightarrow> bool" where
  "subnet_contains subnet a =
     (case (subnet_addr subnet, a) of
        (IpV4 net, IpV4 v) \<Rightarrow>
          let m = case_option 0 (\<lambda>m. m) (checked_shl (0xFFFFFFFF :: u32) (unat (32 - subnet_mask subnet)))
          in net AND m = v AND m
      | (IpV6 net, IpV6 v) \<Rightarrow>
          let m = case_option 0 (\<lambda>m. m)
                    (checked_shl (0xFFFFFFFFFFFFFFFFFFFFFFFFFFFFFFFF :: u128)
                       (unat (128 - subnet_mask subnet)))
          in net AND m = v AND m
      | _ \<Rightarrow> False)"

fun any_contains :: "ip_subnet list \<Rightarrow> ip_addr \<Rightarrow> bool" where
  "any_contains [] a = False"
| "any_contains (net # nets) a = (if subnet_contains net a then True else any_contains nets a)"

section \<open>Prefixes as intervals of integers\<close>

text \<open>
  Values are read as natural numbers: \<open>nib\<close> is the leading nibble and \<open>low\<close> the remaining 124 bits.
  A prefix covers the values that agree with it after the low \<open>128 - len\<close> bits are dropped.
\<close>

definition nib :: "u128 \<Rightarrow> nat" where
  "nib v = unat v div 2 ^ 124"

definition low :: "u128 \<Rightarrow> nat" where
  "low v = unat v mod 2 ^ 124"

definition pcovers :: "prefix \<Rightarrow> u128 \<Rightarrow> bool" where
  "pcovers p w \<longleftrightarrow> unat w div 2 ^ (128 - unat (snd p)) = unat (fst p) div 2 ^ (128 - unat (snd p))"

definition covers :: "prefix list \<Rightarrow> u128 \<Rightarrow> bool" where
  "covers data w \<longleftrightarrow> (\<exists>p \<in> set data. pcovers p w)"

definition masked :: "prefix \<Rightarrow> bool" where
  "masked p \<longleftrightarrow> unat (snd p) \<le> 128 \<and> 2 ^ (128 - unat (snd p)) dvd unat (fst p)"

lemma unat_split: "unat v = nib v * 2 ^ 124 + low v"
  by (simp add: nib_def low_def)

lemma nib_less [simp]: "nib v < 16"
  using unat_lt2p [of v] by (simp add: nib_def less_mult_imp_div_less)

lemma low_less [simp]: "low v < 2 ^ 124"
  by (simp add: low_def)

lemma unat_top_nibble [simp]: "unat (top_nibble v) = nib v"
proof -
  have "take_bit 128 (unat v) = unat v" using unat_lt2p [of v] by (simp add: take_bit_nat_eq_self)
  then have "unat (drop_bit 124 v) = nib v"
    by (simp add: nib_def unsigned_drop_bit_eq drop_bit_eq_div [where ?'a = nat])
  moreover have "drop_bit 124 v AND 0xF = take_bit 4 (drop_bit 124 v)"
    by (simp add: take_bit_eq_mask mask_eq_exp_minus_1)
  moreover have "take_bit 4 (nib v) = nib v" "take_bit 8 (nib v) = nib v"
    using nib_less [of v] by (simp_all add: take_bit_nat_eq_self_iff less_trans [OF nib_less])
  ultimately show ?thesis
    by (simp add: top_nibble_def unsigned_ucast_eq unsigned_take_bit_eq)
qed

lemma unat_shift4: "unat (push_bit 4 v :: u128) = 16 * low v"
proof -
  have "unat (push_bit 4 v) = take_bit 128 (16 * unat v)"
    by (simp add: unsigned_push_bit_eq push_bit_eq_mult [where ?'a = nat] mult.commute)
  also have "\<dots> = (16 * unat v) mod (16 * 2 ^ 124)" by (simp add: take_bit_eq_mod [where ?'a = nat])
  also have "\<dots> = 16 * low v" by (simp only: mod_mult_mult1 low_def)
  finally show ?thesis .
qed

lemma div_split:
  assumes "k \<le> 124" shows "unat v div 2 ^ k = nib v * 2 ^ (124 - k) + low v div 2 ^ k"
proof -
  have "(2 :: nat) ^ 124 = 2 ^ (124 - k) * 2 ^ k" using assms by (simp flip: power_add)
  then have "unat v = (nib v * 2 ^ (124 - k)) * 2 ^ k + low v"
    by (simp add: unat_split [of v])
  then show ?thesis by (simp add: div_mult_self3)
qed

lemma low_div_less:
  assumes "k \<le> 124" shows "low v div 2 ^ k < 2 ^ (124 - k)"
proof -
  have "(2 :: nat) ^ 124 = 2 ^ (124 - k) * 2 ^ k" using assms by (simp flip: power_add)
  then have "low v < 2 ^ (124 - k) * 2 ^ k" using low_less [of v] by simp
  then show ?thesis by (rule less_mult_imp_div_less)
qed

lemma mixed_radix_eq: 
  "r < (b :: nat) \<Longrightarrow> s < b \<Longrightarrow> m * b + r = n * b + s \<longleftrightarrow> m = n \<and> r = s"
  by (metis add.commute div_mult_self1 div_less mod_mult_self1 mod_less add.left_neutral less_nat_zero_code not_gr_zero)

lemma pcovers_long:
  assumes "4 < unat l" "unat l \<le> 128"
  shows "pcovers (v, l) w \<longleftrightarrow> nib w = nib v \<and> pcovers (push_bit 4 v, l - 4) (push_bit 4 w)"
proof -
  define k where "k = 128 - unat l"
  have k: "k \<le> 124" "128 - unat (l - 4) = k + 4"
    using assms by (simp_all add: k_def unat_sub_if')
  have s: "16 * x div 2 ^ (k + 4) = x div 2 ^ k" for x :: nat
    by (simp add: power_add flip: div_mult2_eq [of _ 16])
  show ?thesis
    unfolding pcovers_def fst_conv snd_conv k(2) unat_shift4 s
    by (simp only: flip: k_def) 
      (simp add: div_split [OF k(1)] mixed_radix_eq low_div_less [OF k(1)])
qed

lemma pcovers_short:
  assumes "unat l \<le> 4" "masked (v, l)"
  shows "low v = 0" "nib v + 2 ^ (4 - unat l) \<le> 16"
    "pcovers (v, l) w \<longleftrightarrow> nib v \<le> nib w \<and> nib w < nib v + 2 ^ (4 - unat l)"
proof -
  define k where "k = 4 - unat l"
  have "128 - unat l = 124 + k" using assms by (simp add: k_def)
  then have e: "(2 :: nat) ^ (128 - unat l) = 2 ^ 124 * 2 ^ k" by (simp only: power_add)
  from assms obtain q where q: "unat v = 2 ^ 124 * 2 ^ k * q"
    by (auto simp: masked_def e dvd_def)
  then show "low v = 0" by (simp add: low_def)
  from q have n: "nib v = 2 ^ k * q" by (simp add: nib_def)
  have "(16 :: nat) = 2 ^ k * 2 ^ (4 - k)" using assms by (simp add: k_def flip: power_add)
  with n nib_less [of v] have "q < 2 ^ (4 - k)" by (metis mult_less_cancel1)
  then have "2 ^ k * (q + 1) \<le> (2 :: nat) ^ k * 2 ^ (4 - k)"
    by (intro mult_le_mono2) simp
  with \<open>16 = _\<close> n show "nib v + 2 ^ (4 - unat l) \<le> 16" by (simp add: k_def)
  have "pcovers (v, l) w \<longleftrightarrow> nib w div 2 ^ k = q"
    by (simp add: pcovers_def e div_mult2_eq q nib_def)
  also have "\<dots> \<longleftrightarrow> nib v \<le> nib w \<and> nib w < nib v + 2 ^ k"
    by (simp add: n div_nat_eqI) (metis add.commute dividend_less_times_div div_times_less_eq_dividend mult.commute mult_Suc_right n zero_less_numeral zero_less_power div_nat_eqI)
  finally show "pcovers (v, l) w \<longleftrightarrow> nib v \<le> nib w \<and> nib w < nib v + 2 ^ (4 - unat l)"
    by (simp add: k_def)
qed

lemma masked_low:
  assumes "masked (v, l)" "4 < unat l"
  shows "2 ^ (128 - unat l) dvd low v" "low v + 2 ^ (128 - unat l) \<le> 2 ^ 124"
proof -
  define k where "k = 128 - unat l"
  have e: "(2 :: nat) ^ 124 = 2 ^ (124 - k) * 2 ^ k" using assms by (simp add: k_def flip: power_add)
  have "2 ^ k dvd unat v" using assms by (simp add: masked_def k_def)
  then show *: "2 ^ (128 - unat l) dvd low v"
    unfolding k_def [symmetric] low_def by (metis e dvd_mod dvd_triv_right)
  then obtain q where q: "low v = 2 ^ k * q" by (auto simp: k_def dvd_def)
  with low_less [of v] have "2 ^ k * q < 2 ^ k * 2 ^ (124 - k)" by (metis e mult.commute)
  then have "q + 1 \<le> 2 ^ (124 - k)" by simp
  then have "2 ^ k * (q + 1) \<le> 2 ^ k * 2 ^ (124 - k)" by (intro mult_le_mono2)
  then have "low v + 2 ^ k \<le> 2 ^ 124" using e q by (metis distrib_left mult.commute mult_1)
  then show "low v + 2 ^ (128 - unat l) \<le> 2 ^ 124" unfolding k_def .
qed

lemma masked_shift:
  assumes "masked (v, l)" "4 < unat l"
  shows "masked (push_bit 4 v, l - 4)"
proof -
  have l: "unat l \<le> 128" using assms by (simp add: masked_def)
  then have e: "128 - unat (l - 4) = 4 + (128 - unat l)" "unat (l - 4) \<le> 128"
    using assms by (simp_all add: unat_sub_if')
  have "16 * 2 ^ (128 - unat l) dvd 16 * low v" using masked_low [OF assms] by simp
  then show ?thesis by (simp add: masked_def unat_shift4 e(2) e(1) power_add)
qed

lemma pcovers_interval:
  assumes "masked (v, l)"
  shows "pcovers (v, l) w \<longleftrightarrow> unat v \<le> unat w \<and> unat w < unat v + 2 ^ (128 - unat l)"
proof -
  define k where "k = 128 - unat l"
  from assms obtain q where q: "unat v = 2 ^ k * q"
    by (auto simp: masked_def k_def dvd_def)
  have "pcovers (v, l) w \<longleftrightarrow> unat w div 2 ^ k = q" by (simp add: pcovers_def q flip: k_def)
  also have "\<dots> \<longleftrightarrow> 2 ^ k * q \<le> unat w \<and> unat w < 2 ^ k * q + 2 ^ k"
    by (metis add.commute dividend_less_times_div div_times_less_eq_dividend mult.commute
        mult_Suc_right zero_less_numeral zero_less_power div_nat_eqI)
  finally show ?thesis by (simp add: q k_def)
qed

lemma shift_mono:
  fixes v v' :: u128 and l l' :: byte
  assumes "(v, l) \<le> (v', l')" "nib v = nib v'" "4 < unat l" "4 < unat l'"
  shows "(push_bit 4 v, l - 4) \<le> (push_bit 4 v', l' - 4)"
proof -
  have "unat v < unat v' \<longleftrightarrow> low v < low v'" "v = v' \<longleftrightarrow> low v = low v'"
    using assms(2) by (simp_all add: unat_split [of v] unat_split [of v'] word_unat_eq_iff)
  moreover have "l \<le> l' \<Longrightarrow> l - 4 \<le> l' - 4"
    using assms by (simp add: word_le_nat_alt unat_sub_if')
  ultimately show ?thesis
    using assms(1) by (auto simp: less_eq_prod_def word_less_nat_alt word_le_nat_alt unat_shift4 word_unat_eq_iff)
qed

section \<open>Gapless cover\<close>

lemma unat_push_bit_1: "n < LENGTH('a) \<Longrightarrow> unat (push_bit n (1 :: 'a::len word)) = 2 ^ n"
  by (simp add: unsigned_push_bit_eq take_bit_nat_eq_self del: push_bit_of_1)

lemma covered_upto_sound:
  assumes "\<forall>(v, l) \<in> set seg. masked (v, l) \<and> 4 < unat l \<and> nib v = i" "i < 16"
  shows "unat (covered_upto (push_bit 124 (of_nat i)) seg) \<le> 2 ^ 124 \<and>
    (\<forall>w. nib w = i \<and> low w < unat (covered_upto (push_bit 124 (of_nat i)) seg) \<longrightarrow> covers seg w)"
  using assms(1)
proof (induction seg rule: rev_induct)
  case Nil
  then show ?case by (simp add: covered_upto_def)
next
  case (snoc p seg)
  obtain v l where p: "p = (v, l)" by (cases p)
  define off last :: u128 where "off = push_bit 124 (of_nat i)" "last = covered_upto off seg"
  from snoc p have vl: "masked (v, l)" "4 < unat l" "nib v = i" by auto
  then have l: "unat l \<le> 128" by (simp add: masked_def)
  have off: "unat off = i * 2 ^ 124"
    using assms(2) by (simp add: off_last_def unsigned_push_bit_eq unsigned_of_nat
        take_bit_nat_eq_self push_bit_eq_mult [where ?'a = nat])
  have d: "unat (v - off) = low v"
    using vl(3) by (simp add: unat_sub_if' off unat_split [of v])
  have R: "low v + 2 ^ (128 - unat l) \<le> 2 ^ 124" using vl by (intro masked_low) auto
  have s: "unat (wrapping_shl (1 :: u128) (unat (128 - l))) = 2 ^ (128 - unat l)"
    using l vl(2) by (simp add: wrapping_shl_def unat_sub_if' unat_push_bit_1 del: push_bit_of_1)
  have new: "unat (v - off + wrapping_shl 1 (unat (128 - l))) = low v + 2 ^ (128 - unat l)"
    using R unfolding unat_word_ariths d s by simp
  have step: "covered_upto off (seg @ [p]) =
      (if v - off \<le> last then max last (v - off + wrapping_shl 1 (unat (128 - l))) else last)"
    by (simp add: covered_upto_def off_last_def p)
  have IH: "unat last \<le> 2 ^ 124" "\<And>w. nib w = i \<Longrightarrow> low w < unat last \<Longrightarrow> covers seg w"
    using snoc.IH snoc.prems by (auto simp: off_last_def)
  have le: "unat (covered_upto off (seg @ [p])) \<le> 2 ^ 124"
    using IH(1) R new by (simp add: step max_def)
  have "covers (seg @ [p]) w" if w: "nib w = i" "low w < unat (covered_upto off (seg @ [p]))" for w
  proof (cases "low w < unat last")
    case True
    with IH(2) w show ?thesis by (auto simp: covers_def)
  next
    case False
    with w(2) have "v - off \<le> last" "low w < low v + 2 ^ (128 - unat l)"
      using new by (auto simp: step max_def split: if_splits)
    with False w(1) vl have "pcovers p w"
      by (simp add: p pcovers_interval unat_split [of v] unat_split [of w] word_le_nat_alt d)
    then show ?thesis by (simp add: covers_def)
  qed
  with le show ?case by (simp add: off_last_def)
qed

section \<open>Segments\<close>

lemma nibble_counts_eq: "nibble_counts data = map (\<lambda>i. length (filter (\<lambda>p. nib (fst p) = i) data)) [0..<16]"
proof -
  have "fold (\<lambda>(val, _) counts. let n = unat (top_nibble val) in counts[n := counts ! n + 1]) data cs =
      map (\<lambda>i. cs ! i + length (filter (\<lambda>p. nib (fst p) = i) data)) [0..<16]"
    if "length cs = 16" for cs :: "nat list"
    using that
  proof (induction data arbitrary: cs)
    case Nil
    then show ?case by (simp add: list_eq_iff_nth_eq)
  next
    case (Cons p data)
    then show ?case
      by (cases p) (auto simp: Let_def nth_list_update)
  qed
  from this [of "replicate 16 0"] show ?thesis by (simp add: nibble_counts_def)
qed

lemma sorted_take_key:
  assumes "sorted (map f xs)" "\<forall>x \<in> set xs. (i :: nat) \<le> f x"
  shows "take (length (filter (\<lambda>x. f x = i) xs)) xs = filter (\<lambda>x. f x = i) xs"
    "drop (length (filter (\<lambda>x. f x = i) xs)) xs = filter (\<lambda>x. f x \<noteq> i) xs"
proof -
  have "xs = filter (\<lambda>x. f x = i) xs @ filter (\<lambda>x. f x \<noteq> i) xs"
    using assms
  proof (induction xs)
    case (Cons x xs)
    show ?case
    proof (cases "f x = i")
      case True
      with Cons show ?thesis by simp
    next
      case False
      with Cons.prems have "\<forall>y \<in> set (x # xs). f y \<noteq> i" by fastforce
      then show ?thesis by (simp add: filter_empty_conv filter_id_conv)
    qed
  qed simp
  then show "take (length (filter (\<lambda>x. f x = i) xs)) xs = filter (\<lambda>x. f x = i) xs"
    "drop (length (filter (\<lambda>x. f x = i) xs)) xs = filter (\<lambda>x. f x \<noteq> i) xs"
    by (metis append_eq_conv_conj)+
qed

lemma split_segments_sorted:
  assumes "sorted (map f xs)" "\<forall>x \<in> set xs. m \<le> f x"
  shows "split_segments (map (\<lambda>i. length (filter (\<lambda>x. f x = i) xs)) [m..<n]) xs =
    map (\<lambda>i. filter (\<lambda>x. f x = i) xs) [m..<n]"
  using assms
proof (induction "n - m" arbitrary: m xs)
  case (Suc d)
  let ?ys = "filter (\<lambda>x. f x \<noteq> m) xs"
  have e: "map (\<lambda>i. g (filter (\<lambda>x. f x = i) ?ys)) [Suc m..<n] =
      map (\<lambda>i. g (filter (\<lambda>x. f x = i) xs)) [Suc m..<n]" for g :: "prefix list \<Rightarrow> 'b"
    by (rule map_cong) (auto intro!: arg_cong [of _ _ g] filter_cong)
  have "sorted (map f ?ys)" using Suc.prems by (simp add: sorted_filter)
  moreover have "\<forall>x \<in> set ?ys. Suc m \<le> f x" using Suc.prems by fastforce
  ultimately have "split_segments (map (\<lambda>i. length (filter (\<lambda>x. f x = i) ?ys)) [Suc m..<n]) ?ys =
      map (\<lambda>i. filter (\<lambda>x. f x = i) ?ys) [Suc m..<n]"
    using Suc by (intro Suc.hyps) auto
  then have "split_segments (map (\<lambda>i. length (filter (\<lambda>x. f x = i) xs)) [Suc m..<n]) ?ys =
      map (\<lambda>i. filter (\<lambda>x. f x = i) xs) [Suc m..<n]"
    by (simp only: e [of length] e [of "\<lambda>x. x"])
  moreover have "[m..<n] = m # [Suc m..<n]" using Suc.hyps(2) by (simp add: upt_conv_Cons)
  ultimately show ?case using sorted_take_key [OF Suc.prems] by simp
qed simp

definition segment :: "prefix list \<Rightarrow> nat \<Rightarrow> prefix list" where
  "segment data i = filter (\<lambda>p. nib (fst p) = i) data"

lemma subsegments_eq:
  assumes "sorted data"
  shows "split_segments (nibble_counts data) data = map (segment data) [0..<16]"
proof -
  have "sorted (map (\<lambda>p. nib (fst p)) data)"
    unfolding sorted_map using assms
    by (rule sorted_wrt_mono_rel [rotated])
      (auto simp: less_eq_prod_def nib_def word_less_nat_alt word_le_nat_alt intro: div_le_mono)
  from split_segments_sorted [OF this, of 0 16] show ?thesis
    by (simp add: nibble_counts_eq segment_def)
qed

section \<open>What a node decides\<close>

definition marks_in :: "nat \<Rightarrow> prefix list \<Rightarrow> nat \<Rightarrow> bool" where
  "marks_in i seg c \<longleftrightarrow>
     (case seg of
        [] \<Rightarrow> False
      | (_, l) # _ \<Rightarrow>
          if l \<le> 4 then \<exists>j < 2 ^ unat (4 - l). c = (i + j) mod 16
          else c = i \<and> covered_upto (push_bit 124 (of_nat i)) seg \<ge> push_bit 124 1)"

lemma bit_wrapping_shl_1 [simp]: "bit (wrapping_shl 1 i :: u16) c \<longleftrightarrow> c = i mod 16"
  by (auto simp: wrapping_shl_def bit_simps simp del: push_bit_of_1)

lemma bit_inset_marks:
  "bit (inset (fold (\<lambda>j node. node\<lparr>inset := inset node OR wrapping_shl 1 (i + j)\<rparr>) js n)) c \<longleftrightarrow>
     bit (inset n) c \<or> (\<exists>j \<in> set js. c = (i + j) mod 16)"
  by (induction js arbitrary: n) (auto simp: bit_simps)

lemma outset_marks [simp]:
  "outset (fold (\<lambda>j node. node\<lparr>inset := inset node OR wrapping_shl 1 (i + j)\<rparr>) js n) = outset n"
  "child_offset (fold (\<lambda>j node. node\<lparr>inset := inset node OR wrapping_shl 1 (i + j)\<rparr>) js n) =
     child_offset n"
  by (induction js arbitrary: n) simp_all

lemma mark_segment_bits:
  assumes "i < 16"
  shows "bit (inset (mark_segment (i, seg) n)) c \<longleftrightarrow> bit (inset n) c \<or> marks_in i seg c"
    "bit (outset (mark_segment (i, seg) n)) c \<longleftrightarrow> bit (outset n) c \<or> (seg = [] \<and> c = i)"
    "child_offset (mark_segment (i, seg) n) = child_offset n"
  using assms
  by (auto simp: mark_segment_def marks_in_def bit_inset_marks bit_simps simp del: push_bit_of_1
      split: list.splits)

lemma mark_segments_bits:
  assumes "\<forall>i \<in> set is. i < 16"
  shows "bit (inset (fold mark_segment (map (\<lambda>i. (i, g i)) is) n)) c \<longleftrightarrow>
      bit (inset n) c \<or> (\<exists>i \<in> set is. marks_in i (g i) c)"
    "bit (outset (fold mark_segment (map (\<lambda>i. (i, g i)) is) n)) c \<longleftrightarrow>
      bit (outset n) c \<or> (c \<in> set is \<and> g c = [])"
    "child_offset (fold mark_segment (map (\<lambda>i. (i, g i)) is) n) = child_offset n"
  using assms by (induction "is" arbitrary: n) (auto simp: mark_segment_bits)

definition wf_data :: "nat \<Rightarrow> prefix list \<Rightarrow> bool" where
  "wf_data f data \<longleftrightarrow> sorted data \<and> (\<forall>p \<in> set data. masked p \<and> unat (snd p) \<le> 4 * f)"

definition node_in :: "prefix list \<Rightarrow> nat \<Rightarrow> bool" where
  "node_in data c \<longleftrightarrow> (\<exists>i < 16. marks_in i (segment data i) c)"

lemma in_segment [simp]: "p \<in> set (segment data i) \<longleftrightarrow> p \<in> set data \<and> nib (fst p) = i"
  by (auto simp: segment_def)

lemma sorted_segment: "sorted data \<Longrightarrow> sorted (segment data i)"
  unfolding segment_def by (rule sorted_wrt_filter)

lemma segment_first_short:
  assumes "wf_data f data" "segment data i = (v0, l0) # seg" "(v, l) \<in> set (segment data i)"
    "unat l \<le> 4"
  shows "unat l0 \<le> unat l"
proof -
  have m: "masked (v, l)" using assms(1,3) by (auto simp: wf_data_def)
  have "(v0, l0) \<le> (v, l)"
    using sorted_segment [of data i] assms by (auto simp: wf_data_def)
  moreover have "nib v0 = i" "nib v = i"
    using assms(2,3) in_segment [of "(v0, l0)" data i] in_segment [of "(v, l)" data i] by simp_all
  then have "unat v \<le> unat v0"
    using pcovers_short(1) [OF assms(4) m] by (simp add: unat_split [of v] unat_split [of v0])
  ultimately show ?thesis
    by (auto simp: less_eq_prod_def word_le_nat_alt word_less_nat_alt)
qed

lemma node_in_short:
  assumes "wf_data f data" "p \<in> set data" "unat (snd p) \<le> 4" "pcovers p w"
  shows "node_in data (nib w)"
proof -
  obtain v l where p: "p = (v, l)" by (cases p)
  let ?i = "nib v"
  have m: "masked (v, l)" and v: "(v, l) \<in> set (segment data ?i)"
    using assms p by (auto simp: wf_data_def)
  then obtain v0 l0 seg where s: "segment data ?i = (v0, l0) # seg"
    by (metis list.exhaust list.set(1) empty_iff surj_pair)
  have l: "unat l0 \<le> unat l" using segment_first_short [OF assms(1) s v] assms(3) p by simp
  have "(v0, l0) \<in> set (segment data ?i)" using s by simp
  then have m0: "masked (v0, l0)" "nib v0 = ?i" using assms(1) by (auto simp: wf_data_def)
  have "nib v \<le> nib w" "nib w < nib v + 2 ^ (4 - unat l)"
    using assms p pcovers_short(3) [OF _ m] by auto
  moreover have "(2 :: nat) ^ (4 - unat l) \<le> 2 ^ (4 - unat l0)" using l by (intro power_increasing) auto
  ultimately have "nib w - ?i < 2 ^ (4 - unat l0)" "nib w = (?i + (nib w - ?i)) mod 16"
    using nib_less [of w] by (linarith, simp)
  moreover have "l0 \<le> 4" "unat (4 - l0) = 4 - unat l0"
    using l assms(3) p by (simp_all add: word_le_nat_alt unat_sub_if')
  ultimately have "marks_in ?i (segment data ?i) (nib w)" by (auto simp: marks_in_def s)
  then show ?thesis unfolding node_in_def using nib_less by blast
qed

lemma node_in_sound:
  assumes "wf_data f data" "node_in data (nib w)"
  shows "covers data w"
proof -
  from assms(2) obtain i where i: "i < 16" and m: "marks_in i (segment data i) (nib w)"
    by (auto simp: node_in_def)
  then obtain v l seg where s: "segment data i = (v, l) # seg"
    by (cases "segment data i") (auto simp: marks_in_def)
  have v: "(v, l) \<in> set data" "nib v = i" using s in_segment [of "(v, l)" data i] by auto
  with assms(1) have k: "masked (v, l)" by (auto simp: wf_data_def)
  show ?thesis
  proof (cases "unat l \<le> 4")
    case True
    then have "unat (4 - l) = 4 - unat l" "l \<le> 4" by (simp_all add: word_le_nat_alt unat_sub_if')
    with m s obtain j where j: "j < 2 ^ (4 - unat l)" "nib w = (i + j) mod 16"
      by (auto simp: marks_in_def)
    then have "nib w = i + j" using pcovers_short(2) [OF True k] v(2) by simp
    then have "pcovers (v, l) w" using pcovers_short(3) [OF True k] j v(2) by simp
    with v(1) show ?thesis by (auto simp: covers_def)
  next
    case False
    with m s have c: "nib w = i" "push_bit 124 1 \<le> covered_upto (push_bit 124 (of_nat i)) (segment data i)"
      by (auto simp: marks_in_def word_le_nat_alt simp del: push_bit_of_1)
    have "\<forall>(v, l) \<in> set (segment data i). masked (v, l) \<and> 4 < unat l \<and> nib v = i"
      using segment_first_short [OF assms(1) s] False assms(1) by (force simp: wf_data_def)
    from covered_upto_sound [OF this i] c(1) have "low w < 
        unat (covered_upto (push_bit 124 (of_nat i)) (segment data i)) \<longrightarrow> covers (segment data i) w"
      by blast
    moreover have "2 ^ 124 \<le> unat (covered_upto (push_bit 124 (of_nat i)) (segment data i))"
      using c(2) by (simp add: word_le_nat_alt unat_push_bit_1 del: push_bit_of_1)
    ultimately show ?thesis using low_less [of w] by (auto simp: covers_def simp del: low_less)
  qed
qed

lemma node_out_sound:
  assumes "wf_data f data" "\<not> node_in data (nib w)" "segment data (nib w) = []"
  shows "\<not> covers data w"
proof
  assume "covers data w"
  then obtain v l where p: "(v, l) \<in> set data" "pcovers (v, l) w" by (auto simp: covers_def)
  then have "4 < unat l" using node_in_short [OF assms(1) p(1) _ p(2)] assms(2) by fastforce
  moreover have "unat l \<le> 128" using assms(1) p(1) by (auto simp: wf_data_def masked_def)
  ultimately have "nib v = nib w" using pcovers_long p(2) by auto
  with p(1) have "(v, l) \<in> set (segment data (nib w))" by simp
  with assms(3) show False by simp
qed

definition shift_segment :: "prefix list \<Rightarrow> prefix list" where
  "shift_segment = map (\<lambda>(val, len). (push_bit 4 val, len - 4))"

lemma undecided:
  assumes wf: "wf_data (Suc f) data" and "c < 16" "\<not> node_in data c" "segment data c \<noteq> []"
  shows "wf_data f (shift_segment (segment data c))" "0 < f"
    "\<And>w. nib w = c \<Longrightarrow> covers data w \<longleftrightarrow> covers (shift_segment (segment data c)) (push_bit 4 w)"
proof -
  obtain v0 l0 seg where s: "segment data c = (v0, l0) # seg" using assms(4) by (cases "segment data c") auto
  have long: "4 < unat l \<and> unat l \<le> 128 \<and> masked (v, l) \<and> unat (l - 4) \<le> 4 * f \<and> nib v = c"
    if "(v, l) \<in> set (segment data c)" for v l
  proof -
    have "\<not> unat l \<le> 4"
    proof
      assume l: "unat l \<le> 4"
      with that have "pcovers (v, l) v" "unat (snd (v, l)) \<le> 4" by (simp_all add: pcovers_def)
      with node_in_short [OF wf] that assms(3) show False by auto
    qed
    with that wf show ?thesis by (auto simp: wf_data_def masked_def unat_sub_if')
  qed
  have "sorted (segment data c)" using wf by (simp add: wf_data_def sorted_segment)
  then have "sorted (shift_segment (segment data c))"
    unfolding shift_segment_def sorted_map
    by (rule sorted_wrt_mono_rel [rotated]) (use long in \<open>auto intro!: shift_mono\<close>)
  with long show "wf_data f (shift_segment (segment data c))"
    by (auto simp: wf_data_def shift_segment_def masked_shift)
  have "4 < unat l0" "unat (l0 - 4) \<le> 4 * f" using long s by auto
  then show "0 < f" by (cases f) (auto simp: unat_sub_if')
  fix w assume w: "nib w = c"
  have "covers data w \<longleftrightarrow> covers (segment data c) w"
  proof
    assume "covers data w"
    then obtain v l where p: "(v, l) \<in> set data" "pcovers (v, l) w" by (auto simp: covers_def)
    then have "4 < unat l" using node_in_short [OF wf p(1) _ p(2)] assms(3) w by fastforce
    moreover have "unat l \<le> 128" using wf p(1) by (auto simp: wf_data_def masked_def)
    ultimately have "nib v = c" using pcovers_long p(2) w by auto
    with p show "covers (segment data c) w" by (auto simp: covers_def)
  qed (auto simp: covers_def)
  also have "\<dots> \<longleftrightarrow> covers (shift_segment (segment data c)) (push_bit 4 w)"
  proof -
    have "pcovers p w \<longleftrightarrow> pcovers (push_bit 4 (fst p), snd p - 4) (push_bit 4 w)"
      if "p \<in> set (segment data c)" for p
      using that long [of "fst p" "snd p"] pcovers_long [of "snd p" "fst p" w] w by simp
    then show ?thesis by (simp add: covers_def shift_segment_def split_beta del: in_segment)
  qed
  finally show "covers data w \<longleftrightarrow> covers (shift_segment (segment data c)) (push_bit 4 w)" .
qed

section \<open>Correctness of the tree\<close>

text \<open>
  \<open>good nodes idx lo hi S\<close>: the subtree below the node at \<open>idx\<close>, whose other nodes are those from \<open>lo\<close>
  up to \<open>hi\<close>, decides membership in \<open>S\<close>, whatever the rest of the vector is.
\<close>

definition good :: "tree_node list \<Rightarrow> nat \<Rightarrow> nat \<Rightarrow> nat \<Rightarrow> (u128 \<Rightarrow> bool) \<Rightarrow> bool" where
  "good nodes idx lo hi S \<longleftrightarrow>
     (\<forall>nodes'. hi \<le> length nodes' \<longrightarrow> nodes' ! idx = nodes ! idx \<longrightarrow>
        (\<forall>k. lo \<le> k \<longrightarrow> k < hi \<longrightarrow> nodes' ! k = nodes ! k) \<longrightarrow>
        (\<forall>w. lookup_from nodes' (nodes' ! idx) w = Some (S w)))"

definition fill_post :: "nat \<Rightarrow> tree_node list \<Rightarrow> prefix list \<Rightarrow> nat \<Rightarrow> tree_node list \<Rightarrow> bool" where
  "fill_post f nodes data idx nodes' \<longleftrightarrow>
     length nodes \<le> length nodes' \<and> length nodes' \<le> length nodes + (f - 1) * length data \<and>
     (\<forall>k < length nodes. k \<noteq> idx \<longrightarrow> nodes' ! k = nodes ! k) \<and>
     good nodes' idx (length nodes) (length nodes') (covers data)"

definition fill_ok :: "nat \<Rightarrow> bool" where
  "fill_ok f \<longleftrightarrow>
     (\<forall>nodes data idx. 0 < f \<longrightarrow> wf_data f data \<longrightarrow> idx < length nodes \<longrightarrow> nodes ! idx = tree_node_default \<longrightarrow>
        length nodes + (f - 1) * length data < 2 ^ 32 \<longrightarrow>
        (\<exists>nodes'. fill_node f nodes data idx = Some nodes' \<and> fill_post f nodes data idx nodes'))"

lemma good_transfer:
  assumes "good n1 idx lo hi S" "n2 ! idx = n1 ! idx"
    "\<And>k. lo \<le> k \<Longrightarrow> k < hi \<Longrightarrow> n2 ! k = n1 ! k" "lo' \<le> lo" "hi \<le> hi'"
  shows "good n2 idx lo' hi' S"
  using assms unfolding good_def by simp

definition fill_child :: "nat \<Rightarrow> prefix list \<Rightarrow> tree_node list \<times> nat \<Rightarrow> (tree_node list \<times> nat) option" where
  "fill_child f seg = (\<lambda>(nodes, off). map_option (\<lambda>nodes. (nodes, off + 1)) (fill_node f nodes seg off))"

lemma children_correct:
  assumes "fill_ok f" "\<forall>seg \<in> set segs. 0 < f \<and> wf_data f seg" "off + length segs \<le> length nodes"
    "\<forall>k. off \<le> k \<longrightarrow> k < off + length segs \<longrightarrow> nodes ! k = tree_node_default"
    "length nodes + (f - 1) * length (concat segs) < 2 ^ 32"
  shows "\<exists>nodes'. for_each (fill_child f) segs (nodes, off) = Some (nodes', off + length segs) \<and>
    length nodes \<le> length nodes' \<and>
    length nodes' \<le> length nodes + (f - 1) * length (concat segs) \<and>
    (\<forall>k < length nodes. k < off \<or> off + length segs \<le> k \<longrightarrow> nodes' ! k = nodes ! k) \<and>
    (\<forall>m < length segs. good nodes' (off + m) (length nodes) (length nodes') (covers (segs ! m)))"
  using assms(2-)
proof (induction segs arbitrary: nodes off)
  case Nil
  then show ?case by simp
next
  case (Cons seg segs)
  have "\<exists>nodes1. fill_node f nodes seg off = Some nodes1 \<and> fill_post f nodes seg off nodes1"
    using assms(1) Cons.prems unfolding fill_ok_def by (simp add: distrib_left)
  then obtain n1 where n1: "fill_node f nodes seg off = Some n1"
    "length nodes \<le> length n1" "length n1 \<le> length nodes + (f - 1) * length seg"
    "\<And>k. k < length nodes \<Longrightarrow> k \<noteq> off \<Longrightarrow> n1 ! k = nodes ! k"
    "good n1 off (length nodes) (length n1) (covers seg)"
    unfolding fill_post_def by blast
  have "\<exists>n2. for_each (fill_child f) segs (n1, off + 1) = Some (n2, off + 1 + length segs) \<and>
    length n1 \<le> length n2 \<and> length n2 \<le> length n1 + (f - 1) * length (concat segs) \<and>
    (\<forall>k < length n1. k < off + 1 \<or> off + 1 + length segs \<le> k \<longrightarrow> n2 ! k = n1 ! k) \<and>
    (\<forall>m < length segs. good n2 (off + 1 + m) (length n1) (length n2) (covers (segs ! m)))"
    using Cons.prems n1(2,3,4) by (intro Cons.IH) (auto simp: distrib_left)
  then obtain n2 where n2: "for_each (fill_child f) segs (n1, off + 1) = Some (n2, off + 1 + length segs)"
    "length n1 \<le> length n2" "length n2 \<le> length n1 + (f - 1) * length (concat segs)"
    "\<And>k. k < length n1 \<Longrightarrow> k < off + 1 \<or> off + 1 + length segs \<le> k \<Longrightarrow> n2 ! k = n1 ! k"
    "\<And>m. m < length segs \<Longrightarrow> good n2 (off + 1 + m) (length n1) (length n2) (covers (segs ! m))"
    by blast
  have g: "good n2 (off + m) (length nodes) (length n2) (covers ((seg # segs) ! m))"
    if "m < length (seg # segs)" for m
  proof (cases m)
    case 0
    show ?thesis
      using Cons.prems n1 n2 by (auto simp: 0 intro!: good_transfer [OF n1(5)])
  next
    case (Suc j)
    then show ?thesis
      using that n2(5) [of j] n1(2) by (auto intro!: good_transfer [of n2 _ "length n1" "length n2"])
  qed
  have fr: "n2 ! k = nodes ! k" if "k < length nodes" "k < off \<or> off + length (seg # segs) \<le> k" for k
    using that n1(4) [of k] n2(4) [of k] n1(2) by auto
  have "for_each (fill_child f) (seg # segs) (nodes, off) = Some (n2, off + length (seg # segs))"
    using n1(1) n2(1) by (simp add: fill_child_def)
  moreover have "length n2 \<le> length nodes + (f - 1) * length (concat (seg # segs))"
    using n1(3) n2(3) by (simp add: algebra_simps)
  ultimately show ?case using g fr n1(2) n2(2) by (intro exI [of _ n2]) simp
qed

section \<open>One level\<close>

lemma and_shl_nonzero [simp]: "i < 16 \<Longrightarrow> (x AND wrapping_shl 1 i \<noteq> 0) \<longleftrightarrow> bit (x :: u16) i"
proof -
  assume i: "i < 16"
  have "bit (x AND wrapping_shl 1 i) n \<longleftrightarrow> bit x n \<and> n = i" for n
    using i by (simp add: bit_and_iff)
  then show ?thesis by (metis bit_0_eq bot_apply bot_bool_def bit_eqI)
qed

lemma filter_upt_less:
  "c \<le> n \<Longrightarrow> filter (\<lambda>j. P j \<and> j < c) [0..<n] = filter P [0..<c]"
proof -
  assume "c \<le> n"
  then have "[0..<n] = [0..<c] @ [c..<n]" using upt_add_eq_append [of 0 c "n - c"] by simp
  moreover have "filter (\<lambda>j. P j \<and> j < c) [c..<n] = []" by (auto simp: filter_empty_conv)
  moreover have "filter (\<lambda>j. P j \<and> j < c) [0..<c] = filter P [0..<c]" by (auto intro: filter_cong)
  ultimately show ?thesis by simp
qed

lemma filter_upt_nth:
  assumes "c < n" "P c"
  shows "length (filter P [0..<c]) < length (filter P [0..<n])"
    "filter P [0..<n] ! length (filter P [0..<c]) = c"
proof -
  have "[0..<n] = [0..<c] @ c # [Suc c..<n]"
    using assms(1) upt_add_eq_append [of 0 c "n - c"] by (simp add: upt_conv_Cons)
  with assms(2) show "length (filter P [0..<c]) < length (filter P [0..<n])"
    "filter P [0..<n] ! length (filter P [0..<c]) = c"
    by (simp_all add: nth_append)
qed

lemma count_ones_below:
  assumes "c < 16"
  shows "count_ones (x AND (wrapping_shl 1 c - 1) :: u16) = length (filter (bit x) [0..<c])"
proof -
  have "wrapping_shl 1 c - 1 = (mask c :: u16)"
    using assms by (simp add: wrapping_shl_def mask_eq_exp_minus_1)
  moreover have "bit (x AND mask c) = (\<lambda>j. bit x j \<and> j < c)"
    by (auto simp: fun_eq_iff bit_simps dest: bit_imp_le_length)
  ultimately show ?thesis using assms by (simp add: count_ones_def filter_upt_less)
qed

lemma for_each_skip:
  "for_each (\<lambda>i s. if P i then Some s else h i s) is = for_each h (filter (\<lambda>i. \<not> P i) is)"
proof (induction "is")
  case (Cons i "is")
  show ?case by (rule ext) (simp add: Cons)
qed (simp add: fun_eq_iff)

lemma for_each_map: "for_each h (map g xs) = for_each (\<lambda>x. h (g x)) xs"
proof (induction xs)
  case (Cons x xs)
  show ?case by (rule ext) (simp add: Cons)
qed (simp add: fun_eq_iff)

lemma enumerate_segments: "enumerate 0 (map g [0..<n]) = map (\<lambda>i. (i, g i)) [0..<n]"
  by (simp add: enumerate_eq_zip zip_map2 zip_same_conv_map)

definition undecided_at :: "prefix list \<Rightarrow> nat \<Rightarrow> bool" where
  "undecided_at data c \<longleftrightarrow> \<not> node_in data c \<and> segment data c \<noteq> []"

definition level_node :: "prefix list \<Rightarrow> nat \<Rightarrow> tree_node" where
  "level_node data off =
     (let node = fold mark_segment (map (\<lambda>i. (i, segment data i)) [0..<16])
                   (tree_node_default\<lparr>child_offset := of_nat off\<rparr>)
      in node\<lparr>outset := outset node AND NOT (inset node)\<rparr>)"

definition child_segments :: "prefix list \<Rightarrow> prefix list list" where
  "child_segments data =
     map (\<lambda>i. shift_segment (segment data i)) (filter (undecided_at data) [0..<16])"

lemma marks_in_less: "i < 16 \<Longrightarrow> marks_in i seg c \<Longrightarrow> c < 16"
  by (auto simp: marks_in_def split: list.splits if_splits)

lemma level_node_bits:
  "bit (inset (level_node data off)) c \<longleftrightarrow> node_in data c"
  "bit (outset (level_node data off)) c \<longleftrightarrow> c < 16 \<and> segment data c = [] \<and> \<not> node_in data c"
  "child_offset (level_node data off) = of_nat off"
  by (auto simp: level_node_def Let_def mark_segments_bits bit_simps tree_node_default_def node_in_def
      intro: marks_in_less)

lemma known_bitmap_bits:
  "bit (inset (level_node data off) OR outset (level_node data off)) c \<longleftrightarrow>
     node_in data c \<or> c < 16 \<and> segment data c = []"
  by (auto simp: bit_or_iff level_node_bits)

lemma undecided_bits:
  "c < 16 \<Longrightarrow> bit (NOT (inset (level_node data off) OR outset (level_node data off))) c \<longleftrightarrow>
     undecided_at data c"
  by (auto simp: bit_simps level_node_bits undecided_at_def)

lemma count_undecided:
  "count_ones (NOT (inset (level_node data off) OR outset (level_node data off))) =
     length (child_segments data)"
proof -
  have "filter (bit (NOT (inset (level_node data off) OR outset (level_node data off)))) [0..<16] =
      filter (undecided_at data) [0..<16]"
    by (rule filter_cong [OF refl], rule undecided_bits) simp
  then show ?thesis by (simp only: count_ones_def child_segments_def length_map) simp
qed

lemma fill_node_Suc:
  assumes "sorted data" "idx < length nodes" "nodes ! idx = tree_node_default"
  shows "fill_node (Suc f) nodes data idx =
    map_option fst (for_each (fill_child f) (child_segments data)
      (nodes[idx := level_node data (length nodes)] @
         replicate (length (child_segments data)) tree_node_default, length nodes))"
proof -
  let ?M = "level_node data (length nodes)"
  let ?known = "inset ?M OR outset ?M"
  have skip: "(\<lambda>i. case (i, segment data i) of (i, seg) \<Rightarrow> (\<lambda>(nodes, off).
        if ?known AND wrapping_shl 1 i \<noteq> 0 then Some (nodes, off)
        else map_option (\<lambda>nodes. (nodes, off + 1)) (fill_node f nodes
          (map (\<lambda>(val, len). (push_bit 4 val, len - 4)) seg) off))) =
      (\<lambda>i s. if ?known AND wrapping_shl 1 i \<noteq> 0 then Some s
        else fill_child f (shift_segment (segment data i)) s)"
    by (auto simp: fun_eq_iff fill_child_def shift_segment_def)
  have und: "filter (\<lambda>i. \<not> ?known AND wrapping_shl 1 i \<noteq> 0) [0..<16] = filter (undecided_at data) [0..<16]"
    by (rule filter_cong) (auto simp: known_bitmap_bits undecided_at_def)
  have lv: "(let node = fold mark_segment (map (\<lambda>i. (i, segment data i)) [0..<16])
                   (tree_node_default\<lparr>child_offset := of_nat (length nodes)\<rparr>)
      in node\<lparr>outset := outset node AND NOT (inset node)\<rparr>) = ?M"
    by (simp add: level_node_def)
  have "fill_node (Suc f) nodes data idx = map_option fst
      (for_each (\<lambda>(i, seg) (nodes, off).
          if ?known AND wrapping_shl 1 i \<noteq> 0 then Some (nodes, off)
          else map_option (\<lambda>nodes. (nodes, off + 1)) (fill_node f nodes
            (map (\<lambda>(val, len). (push_bit 4 val, len - 4)) seg) off))
        (map (\<lambda>i. (i, segment data i)) [0..<16])
        (nodes[idx := ?M] @ replicate (count_ones (NOT ?known)) tree_node_default, length nodes))"
    unfolding fill_node.simps subsegments_eq [OF assms(1)] enumerate_segments assms(3)
      lv [symmetric] Let_def using assms(2) by simp
  then show ?thesis
    unfolding for_each_map skip for_each_skip und count_undecided child_segments_def .
qed

lemma length_child_segments:
  "length (child_segments data) \<le> length (concat (child_segments data)) \<and>
   length (concat (child_segments data)) \<le> length data"
proof -
  let ?us = "filter (undecided_at data) [0..<16]"
  have c: "length (concat (child_segments data)) = (\<Sum>i\<leftarrow>?us. length (segment data i))"
    by (simp add: child_segments_def length_concat shift_segment_def comp_def)
  have "length us \<le> (\<Sum>i\<leftarrow>us. length (segment data i))" if "\<forall>i \<in> set us. segment data i \<noteq> []" for us
    using that
  proof (induction us)
    case (Cons i us)
    then have "0 < length (segment data i)" by simp
    with Cons show ?case by (simp del: length_greater_0_conv)
  qed simp
  from this [of ?us] have "length (child_segments data) \<le> length (concat (child_segments data))"
    unfolding c by (simp add: child_segments_def undecided_at_def)
  moreover have "(\<Sum>i\<leftarrow>?us. length (segment data i)) \<le> length data"
  proof -
    have "(\<Sum>i\<leftarrow>?us. length (segment data i)) = (\<Sum>i\<in>set ?us. length (segment data i))"
      by (simp add: sum_list_distinct_conv_sum_set)
    also have "\<dots> = card (\<Union>i\<in>set ?us. {k. k < length data \<and> nib (fst (data ! k)) = i})"
      by (subst card_UN_disjoint) (auto simp: segment_def length_filter_conv_card)
    also have "\<dots> \<le> card {..<length data}" by (rule card_mono) auto
    finally show ?thesis by simp
  qed
  ultimately show ?thesis unfolding c by simp
qed

lemma lookup_level:
  assumes "wf_data f data" "child_offset node = of_nat off" "node = level_node data off"
    "off + length (child_segments data) < 2 ^ 32" "off + length (child_segments data) \<le> length nodes"
    "\<And>m v. m < length (child_segments data) \<Longrightarrow>
      lookup_from nodes (nodes ! (off + m)) v = Some (covers (child_segments data ! m) v)"
    "0 < f"
  shows "lookup_from nodes node w = Some (covers data w)"
proof -
  let ?c = "nib w"
  obtain g where g: "f = Suc g" using assms(7) by (cases f) auto
  consider "node_in data ?c" | "\<not> node_in data ?c" "segment data ?c = []" | "undecided_at data ?c"
    by (auto simp: undecided_at_def)
  then show ?thesis
  proof cases
    case 1
    then have "covers data w" using node_in_sound assms(1) by blast
    with 1 show ?thesis
      by (subst lookup_from.simps) (simp add: Let_def assms(3) level_node_bits)
  next
    case 2
    then have "\<not> covers data w" using node_out_sound assms(1) by blast
    with 2 show ?thesis
      by (subst lookup_from.simps) (simp add: Let_def assms(3) level_node_bits)
  next
    case 3
    define m where "m = length (filter (undecided_at data) [0..<?c])"
    have m: "m < length (child_segments data)"
      "child_segments data ! m = shift_segment (segment data ?c)"
      using filter_upt_nth [of ?c 16 "undecided_at data"] 3 by (simp_all add: m_def child_segments_def)
    have "filter (bit (NOT (inset node OR outset node))) [0..<?c] = filter (undecided_at data) [0..<?c]"
      unfolding assms(3) by (rule filter_cong [OF refl], rule undecided_bits) (auto intro: less_trans)
    then have cnt: "count_ones (NOT (inset node OR outset node) AND (wrapping_shl 1 ?c - 1)) = m"
      unfolding count_ones_below [OF nib_less] m_def by simp
    have idx: "unat (child_offset node + of_nat m) = off + m"
      using assms(2,4) m(1) by (simp add: unat_word_ariths unsigned_of_nat take_bit_nat_eq_self flip: of_nat_add)
    have "lookup_from nodes node w = lookup_from nodes (nodes ! (off + m)) (push_bit 4 w)"
      using 3 m(1) assms(5)
      by (subst lookup_from.simps)
        (simp only: Let_def unat_top_nibble cnt idx and_shl_nonzero [OF nib_less],
         simp add: assms(3) level_node_bits undecided_at_def)
    also have "\<dots> = Some (covers data w)"
      using assms(6) [OF m(1)] m(2) undecided(3) [of g data ?c w] 3 assms(1) g
      by (simp add: undecided_at_def)
    finally show ?thesis .
  qed
qed

lemma fill_ok_Suc:
  assumes "fill_ok f"
  shows "fill_ok (Suc f)"
  unfolding fill_ok_def
proof (intro allI impI)
  fix nodes data idx
  assume wf: "wf_data (Suc f) data" and idx: "idx < length nodes" "nodes ! idx = tree_node_default"
    and bound: "length nodes + (Suc f - 1) * length data < 2 ^ 32"
  let ?segs = "child_segments data" and ?M = "level_node data (length nodes)"
  let ?n0 = "nodes[idx := ?M] @ replicate (length ?segs) tree_node_default"
  have segs: "0 < f \<and> wf_data f seg" if "seg \<in> set ?segs" for seg
    using that undecided(1,2) [OF wf] by (auto simp: child_segments_def undecided_at_def)
  then have f: "?segs \<noteq> [] \<Longrightarrow> 0 < f" by (metis list.set_intros(1) list.exhaust)
  have sz: "length ?n0 + (f - 1) * length (concat ?segs) \<le> length nodes + f * length data"
  proof (cases f)
    case 0
    with f show ?thesis by auto
  next
    case (Suc g)
    have "length ?segs + g * length (concat ?segs) \<le> length data + g * length data"
      using length_child_segments [of data] by (intro add_mono mult_le_mono) auto
    then show ?thesis by (simp add: Suc)
  qed
  have "\<exists>n'. for_each (fill_child f) ?segs (?n0, length nodes) = Some (n', length nodes + length ?segs) \<and>
    length ?n0 \<le> length n' \<and>
    length n' \<le> length ?n0 + (f - 1) * length (concat ?segs) \<and>
    (\<forall>k < length ?n0. k < length nodes \<or> length nodes + length ?segs \<le> k \<longrightarrow> n' ! k = ?n0 ! k) \<and>
    (\<forall>m < length ?segs. good n' (length nodes + m) (length ?n0) (length n') (covers (?segs ! m)))"
    using segs bound sz by (intro children_correct assms) (auto simp: nth_append)
  then obtain n' where n':
    "for_each (fill_child f) ?segs (?n0, length nodes) = Some (n', length nodes + length ?segs)"
    "length ?n0 \<le> length n'" "length n' \<le> length ?n0 + (f - 1) * length (concat ?segs)"
    "\<And>k. k < length nodes \<Longrightarrow> n' ! k = ?n0 ! k"
    "\<And>m. m < length ?segs \<Longrightarrow> good n' (length nodes + m) (length ?n0) (length n') (covers (?segs ! m))"
    by auto
  have M: "n' ! idx = ?M" using n'(4) idx by (simp add: nth_append)
  have "good n' idx (length nodes) (length n') (covers data)"
    unfolding good_def
  proof (intro allI impI)
    fix n'' w
    assume ext: "length n' \<le> length n''" "n'' ! idx = n' ! idx"
      "\<forall>k. length nodes \<le> k \<longrightarrow> k < length n' \<longrightarrow> n'' ! k = n' ! k"
    have "lookup_from n'' (n'' ! (length nodes + m)) v = Some (covers (?segs ! m) v)"
      if "m < length ?segs" for m v
      using n'(5) [OF that] that n'(2) ext unfolding good_def by simp
    then show "lookup_from n'' (n'' ! idx) w = Some (covers data w)"
      using n'(2,3) sz bound ext(1)
      by (intro lookup_level [OF wf]) (auto simp: ext(2) M level_node_bits)
  qed
  then have "fill_post (Suc f) nodes data idx n'"
    using n' sz by (auto simp: fill_post_def nth_append)
  moreover have "fill_node (Suc f) nodes data idx = Some n'"
    using fill_node_Suc [OF _ idx, of data f] wf n'(1) by (simp add: wf_data_def)
  ultimately show "\<exists>n'. fill_node (Suc f) nodes data idx = Some n' \<and> fill_post (Suc f) nodes data idx n'"
    by blast
qed

lemma fill_ok: "fill_ok f"
  by (induction f) (simp add: fill_ok_def, rule fill_ok_Suc)

lemma unat_apply_mask:
  assumes "unat l \<le> 128"
  shows "unat (apply_mask v l) = unat v div 2 ^ (128 - unat l) * 2 ^ (128 - unat l)"
proof (cases "unat l = 0")
  case True
  then have "l = 0" by (simp add: unat_eq_0)
  then show ?thesis using unat_lt2p [of v] by (simp add: apply_mask_def checked_shl_def)
next
  case False
  define k where "k = 128 - unat l"
  have k: "k < 128" "unat (128 - l) = k" using False assms by (simp_all add: k_def unat_sub_if')
  have "apply_mask v l = v AND push_bit k (- 1)" using k by (simp add: apply_mask_def checked_shl_def)
  also have "\<dots> = push_bit k (drop_bit k v)" by (auto simp: bit_eq_iff bit_simps)
  finally have "unat (apply_mask v l) = take_bit 128 (push_bit k (drop_bit k (take_bit 128 (unat v))))"
    using k by (simp add: unsigned_push_bit_eq unsigned_drop_bit_eq)
  also have "\<dots> = unat v div 2 ^ k * 2 ^ k"
  proof -
    have v: "unat v < 2 ^ 128" using unat_lt2p [of v] by simp
    moreover have "unat v div 2 ^ k * 2 ^ k < 2 ^ 128"
      by (rule le_less_trans [OF _ v]) simp
    ultimately show ?thesis
      by (simp add: push_bit_eq_mult [where ?'a = nat] drop_bit_eq_div [where ?'a = nat]
          take_bit_nat_eq_self)
  qed
  finally show ?thesis by (simp add: k_def)
qed

lemma masked_apply_mask: "unat l \<le> 128 \<Longrightarrow> masked (apply_mask v l, l)"
  by (simp add: masked_def unat_apply_mask)

lemma pcovers_apply_mask: "unat l \<le> 128 \<Longrightarrow> pcovers (apply_mask v l, l) w \<longleftrightarrow> pcovers (v, l) w"
  by (simp add: pcovers_def unat_apply_mask)

lemma create_correct:
  assumes "\<forall>(v, l) \<in> set data. unat l \<le> 128" "length data < 2 ^ 27"
  shows "\<exists>nodes. create data = Some nodes \<and> (\<forall>w. lookup nodes w = Some (covers data w))"
proof -
  let ?data = "sort (map (\<lambda>(val, len). (apply_mask val len, len)) data)"
  have wf: "wf_data 32 ?data"
    using assms(1) by (auto simp: wf_data_def masked_apply_mask)
  have "\<exists>nodes. fill_node 32 [tree_node_default] ?data 0 = Some nodes \<and>
      fill_post 32 [tree_node_default] ?data 0 nodes"
    using fill_ok [of 32] wf assms(2) unfolding fill_ok_def by simp
  then obtain nodes where n: "create data = Some nodes" "fill_post 32 [tree_node_default] ?data 0 nodes"
    by (auto simp: create_def)
  then have "nodes \<noteq> []" "\<forall>w. lookup_from nodes (nodes ! 0) w = Some (covers ?data w)"
    unfolding fill_post_def good_def by auto
  then have "lookup nodes w = Some (covers ?data w)" for w
    by (cases nodes) (simp_all add: lookup_def)
  moreover have "covers ?data w = covers data w" for w
    using assms(1) by (force simp: covers_def pcovers_apply_mask)
  ultimately show ?thesis using n(1) by simp
qed

section \<open>The filter agrees with a search through the subnets\<close>

lemma and_mask_eq_iff:
  "v AND push_bit k (- 1) = w AND push_bit k (- 1) \<longleftrightarrow>
     unat (v :: 'a::len word) div 2 ^ k = unat w div 2 ^ k"
proof -
  have "v AND push_bit k (- 1) = w AND push_bit k (- 1) \<longleftrightarrow> drop_bit k v = drop_bit k w"
  proof
    assume *: "v AND push_bit k (- 1) = w AND push_bit k (- 1)"
    have "bit (drop_bit k v) n \<longleftrightarrow> bit (v AND push_bit k (- 1)) (k + n)" for n and v :: "'a word"
      by (auto simp: bit_simps dest: bit_imp_le_length)
    with * show "drop_bit k v = drop_bit k w" by (intro bit_eqI) simp
  next
    assume "drop_bit k v = drop_bit k w"
    moreover have "v AND push_bit k (- 1) = push_bit k (drop_bit k v)" for v :: "'a word"
      by (auto simp: bit_eq_iff bit_simps)
    ultimately show "v AND push_bit k (- 1) = w AND push_bit k (- 1)" by simp
  qed
  also have "\<dots> \<longleftrightarrow> unat (drop_bit k v) = unat (drop_bit k w)" by (simp add: word_unat_eq_iff)
  also have "\<dots> \<longleftrightarrow> unat v div 2 ^ k = unat w div 2 ^ k"
  proof -
    have "unat (drop_bit k v) = unat v div 2 ^ k" for v :: "'a word"
    proof -
      have "take_bit LENGTH('a) (unat v) = unat v" using unat_lt2p [of v] by (simp add: take_bit_nat_eq_self)
      then show ?thesis
        by (simp add: unsigned_drop_bit_eq drop_bit_eq_div [where ?'a = nat])
    qed
    then show ?thesis by simp
  qed
  finally show ?thesis .
qed

lemma mask_search:
  fixes v w :: "'a::len word"
  assumes "k \<le> LENGTH('a)"
  shows "v AND case_option 0 (\<lambda>m. m) (checked_shl (- 1) k) = w AND case_option 0 (\<lambda>m. m) (checked_shl (- 1) k) \<longleftrightarrow>
    unat v div 2 ^ k = unat w div 2 ^ k"
  using assms unat_lt2p [of v] unat_lt2p [of w]
  by (cases "k = LENGTH('a)") (simp_all add: checked_shl_def
      and_mask_eq_iff [unfolded push_bit_minus_one_eq_not_mask])

lemma pcovers_v4:
  fixes a b :: u32
  assumes "unat l \<le> 32"
  shows "pcovers (push_bit 96 (ucast a), l) (push_bit 96 (ucast b)) \<longleftrightarrow>
    unat a div 2 ^ (32 - unat l) = unat b div 2 ^ (32 - unat l)"
proof -
  have u: "unat (push_bit 96 (ucast a) :: u128) = unat a * 2 ^ 96" for a :: u32
    using unat_lt2p [of a]
    by (simp add: unsigned_push_bit_eq unsigned_ucast_eq take_bit_nat_eq_self push_bit_eq_mult [where ?'a = nat])
  have "128 - unat l = (32 - unat l) + 96" using assms by simp
  then have e: "(2 :: nat) ^ (128 - unat l) = 2 ^ 96 * 2 ^ (32 - unat l)" by (simp only: power_add mult.commute)
  show ?thesis unfolding pcovers_def fst_conv snd_conv u e div_mult2_eq by auto
qed

lemma any_contains_iff: "any_contains nets a \<longleftrightarrow> (\<exists>n \<in> set nets. subnet_contains n a)"
  by (induction nets) auto

lemma all_ones: "(0xFFFFFFFF :: u32) = - 1" "(0xFFFFFFFFFFFFFFFFFFFFFFFFFFFFFFFF :: u128) = - 1"
  by simp_all

lemma subnet_contains_v4:
  assumes "subnet_ok n" "subnet_addr n = IpV4 net"
  shows "subnet_contains n (IpV4 a) \<longleftrightarrow>
    pcovers (push_bit 96 (ucast net), subnet_mask n) (push_bit 96 (ucast a))"
proof -
  have l: "unat (subnet_mask n) \<le> 32" using assms by (simp add: subnet_ok_def)
  then have k: "unat (32 - subnet_mask n) = 32 - unat (subnet_mask n)" by (simp add: unat_sub_if')
  show ?thesis
    unfolding pcovers_v4 [OF l]
    by (simp only: subnet_contains_def assms(2) prod.case ip_addr.case Let_def all_ones k)
      (use mask_search [of "32 - unat (subnet_mask n)" net a] in auto)
qed

lemma subnet_contains_v6:
  assumes "subnet_ok n" "subnet_addr n = IpV6 net"
  shows "subnet_contains n (IpV6 a) \<longleftrightarrow> pcovers (net, subnet_mask n) a"
proof -
  have l: "unat (subnet_mask n) \<le> 128" using assms by (simp add: subnet_ok_def)
  then have k: "unat (128 - subnet_mask n) = 128 - unat (subnet_mask n)" by (simp add: unat_sub_if')
  show ?thesis
    unfolding pcovers_def fst_conv snd_conv
    by (simp only: subnet_contains_def assms(2) prod.case ip_addr.case Let_def all_ones k)
      (use mask_search [of "128 - unat (subnet_mask n)" net a] in auto)
qed

lemma set_ipv4_list:
  "set (ipv4_list nets) = {(push_bit 96 (ucast a), subnet_mask n) | a n. n \<in> set nets \<and> subnet_addr n = IpV4 a}"
  by (force simp: ipv4_list_def map_filter_def split: ip_addr.splits)

lemma set_ipv6_list:
  "set (ipv6_list nets) = {(a, subnet_mask n) | a n. n \<in> set nets \<and> subnet_addr n = IpV6 a}"
  by (force simp: ipv6_list_def map_filter_def split: ip_addr.splits)

lemma length_ip_lists:
  "length (ipv4_list nets) \<le> length nets" "length (ipv6_list nets) \<le> length nets"
  by (simp_all add: ipv4_list_def ipv6_list_def map_filter_def)

lemma covers_ipv4_list:
  assumes "\<forall>n \<in> set nets. subnet_ok n"
  shows "covers (ipv4_list nets) (push_bit 96 (ucast a)) \<longleftrightarrow> any_contains nets (IpV4 a)"
proof -
  have "subnet_contains n (IpV4 a) \<longleftrightarrow> (\<exists>net. subnet_addr n = IpV4 net \<and>
      pcovers (push_bit 96 (ucast net), subnet_mask n) (push_bit 96 (ucast a)))" if "n \<in> set nets" for n
    using subnet_contains_v4 [of n _ a] that assms
    by (cases "subnet_addr n") (simp_all add: subnet_contains_def)
  then show ?thesis unfolding any_contains_iff covers_def set_ipv4_list by blast
qed

lemma covers_ipv6_list:
  assumes "\<forall>n \<in> set nets. subnet_ok n"
  shows "covers (ipv6_list nets) a \<longleftrightarrow> any_contains nets (IpV6 a)"
proof -
  have "subnet_contains n (IpV6 a) \<longleftrightarrow> (\<exists>net. subnet_addr n = IpV6 net \<and>
      pcovers (net, subnet_mask n) a)" if "n \<in> set nets" for n
    using subnet_contains_v6 [of n _ a] that assms
    by (cases "subnet_addr n") (simp_all add: subnet_contains_def)
  then show ?thesis unfolding any_contains_iff covers_def set_ipv6_list by blast
qed

lemma ip_filter_new_correct:
  assumes "\<forall>n \<in> set nets. subnet_ok n" "length nets < 2 ^ 27"
  shows "\<exists>f. ip_filter_new nets = Some f \<and> (\<forall>a. is_in f a = Some (any_contains nets a))"
proof -
  have 4: "\<forall>(v, l) \<in> set (ipv4_list nets). unat l \<le> 128"
    using assms(1) by (auto simp: set_ipv4_list subnet_ok_def)
  have 6: "\<forall>(v, l) \<in> set (ipv6_list nets). unat l \<le> 128"
    using assms(1) by (auto simp: set_ipv6_list subnet_ok_def)
  obtain n4 where n4: "create (ipv4_list nets) = Some n4"
    "\<And>w. lookup n4 w = Some (covers (ipv4_list nets) w)"
    using create_correct [OF 4] length_ip_lists(1) [of nets] assms(2) by auto
  obtain n6 where n6: "create (ipv6_list nets) = Some n6"
    "\<And>w. lookup n6 w = Some (covers (ipv6_list nets) w)"
    using create_correct [OF 6] length_ip_lists(2) [of nets] assms(2) by auto
  have "is_in \<lparr>ipv4_filter = n4, ipv6_filter = n6\<rparr> a = Some (any_contains nets a)" for a
    by (cases a) (simp_all add: is_in_def is_in4_def is_in6_def n4 n6 covers_ipv4_list covers_ipv6_list assms(1))
  then show ?thesis by (simp add: ip_filter_new_def n4(1) n6(1))
qed

text \<open>
  C22: a filter built from subnets as \<^verbatim>\<open>IpSubnet::from_str\<close> accepts them (and fewer than \<open>2 ^ 27\<close> of
  them, so that node offsets fit their 32 bits) is built without running out of bounds, every
  lookup in it returns, and it returns whether one of the subnets contains the address, which is
  the reference search of the fuzz target.
\<close>
theorem ip_filter_is_subnet_search:
  assumes "\<forall>n \<in> set nets. subnet_ok n" "length nets < 2 ^ 27"
  shows "\<exists>f. ip_filter_new nets = Some f \<and> (\<forall>a. is_in f a = Some (any_contains nets a))"
  using assms by (rule ip_filter_new_correct)

theorem ip_filter_is_subnet_search_witness:
  "\<exists>f. ip_filter_new [\<lparr>subnet_addr = IpV4 0x0A000000, subnet_mask = 8\<rparr>] = Some f \<and>
     is_in f (IpV4 0x0A010203) = Some True \<and> is_in f (IpV4 0x0B010203) = Some False"
  using ip_filter_is_subnet_search [of "[\<lparr>subnet_addr = IpV4 0x0A000000, subnet_mask = 8\<rparr>]"]
  by (auto simp: subnet_ok_def subnet_contains_def checked_shl_def)

end
