(* ===== verification/Ntp_Server.thy ===== *)
theory Ntp_Server
  imports Packet_Wire Ip_Filter
begin

text \<open>
  The server: \<^verbatim>\<open>ntp-proto/src/server.rs\<close>. Handling a datagram is a function from the server's
  state to a new state, the statistics it registers and the datagram it answers with, if any. The
  clocks (\<^verbatim>\<open>Instant::now\<close> for rate limiting, the NTP clock for the transmit timestamp), the hash
  function of the rate limiting cache and the random values are arguments. \<open>None\<close> is a panic.
\<close>

section \<open>Configuration and state\<close>

datatype server_reason = RateLimit | ParseError | InvalidCrypto | InternalError | Policy

datatype server_response = NTSNak | RespDeny | RespIgnore | ProvideTime

datatype filter_action = FilterIgnore | FilterDeny

fun response_of_filter :: "filter_action \<Rightarrow> server_response" where
  "response_of_filter FilterIgnore = RespIgnore"
| "response_of_filter FilterDeny = RespDeny"

record filter_list =
  fl_filter :: "ip_subnet list"
  fl_action :: filter_action

text \<open>Instants and durations of the monotonic clock are counted in nanoseconds.\<close>

record server_config =
  denylist :: filter_list
  allowlist :: filter_list
  rate_limiting_cache_size :: nat
  rate_limiting_cutoff :: nat
  require_nts :: "filter_action option"
  accepted_versions :: "ntp_version list"

type_synonym timestamped_cache = "(ip_addr \<times> nat) option list"

definition cache_new :: "nat \<Rightarrow> timestamped_cache" where
  "cache_new len = replicate len None"

definition cache_index :: "(ip_addr \<Rightarrow> u64) \<Rightarrow> timestamped_cache \<Rightarrow> ip_addr \<Rightarrow> nat" where
  "cache_index hash elements item = unat (hash item) mod length elements"

definition is_allowed ::
  "(ip_addr \<Rightarrow> u64) \<Rightarrow> timestamped_cache \<Rightarrow> ip_addr \<Rightarrow> nat \<Rightarrow> nat \<Rightarrow> timestamped_cache \<times> bool" where
  "is_allowed hash elements item instant cutoff =
     (if elements = [] then (elements, True)
      else
        let index = cache_index hash elements item;
            timestamp_if_same =
              (case elements ! index of
                 None \<Rightarrow> None
               | Some (v, t) \<Rightarrow> if item = v then Some t else None);
            elements = elements[index := Some (item, instant)]
        in (elements,
            case timestamp_if_same of
              Some old_timestamp \<Rightarrow> instant - old_timestamp \<ge> cutoff
            | None \<Rightarrow> True))"

record server =
  srv_config :: server_config
  srv_denyfilter :: ip_filter
  srv_allowfilter :: ip_filter
  srv_client_cache :: timestamped_cache
  srv_server_info :: ntp_server_info
  srv_keyset :: key_set

definition fallback_message_version :: "bytes \<Rightarrow> byte" where
  "fallback_message_version message = (case message of [] \<Rightarrow> 0 | v # _ \<Rightarrow> drop_bit 3 (v AND 0x38))"

definition server_new :: "server_config \<Rightarrow> ntp_server_info \<Rightarrow> key_set \<Rightarrow> server option" where
  "server_new config info keyset =
     Option.bind (ip_filter_new (fl_filter (denylist config))) (\<lambda>denyfilter.
     Option.bind (ip_filter_new (fl_filter (allowlist config))) (\<lambda>allowfilter.
     Some \<lparr>srv_config = config, srv_denyfilter = denyfilter, srv_allowfilter = allowfilter,
           srv_client_cache = cache_new (rate_limiting_cache_size config),
           srv_server_info = info, srv_keyset = keyset\<rparr>))"

definition update_keyset :: "key_set \<Rightarrow> server \<Rightarrow> server" where
  "update_keyset keyset srv = srv\<lparr>srv_keyset := keyset\<rparr>"

fun version_as_u8 :: "ntp_version \<Rightarrow> byte" where
  "version_as_u8 NtpV3 = 3"
| "version_as_u8 NtpV4 = 4"
| "version_as_u8 NtpV5 = 5"

section \<open>Handling a request\<close>

definition intended_action ::
  "(ip_addr \<Rightarrow> u64) \<Rightarrow> nat \<Rightarrow> server \<Rightarrow> ip_addr \<Rightarrow> (server \<times> server_response \<times> server_reason) option" where
  "intended_action hash instant srv client_ip =
     Option.bind (is_in (srv_denyfilter srv) client_ip) (\<lambda>denied.
     if denied then
       Some (srv, response_of_filter (fl_action (denylist (srv_config srv))), Policy)
     else
       Option.bind (is_in (srv_allowfilter srv) client_ip) (\<lambda>allowed.
       if \<not> allowed then
         Some (srv, response_of_filter (fl_action (allowlist (srv_config srv))), Policy)
       else
         let (cache, ok) = is_allowed hash (srv_client_cache srv) client_ip instant
                             (rate_limiting_cutoff (srv_config srv));
             srv = srv\<lparr>srv_client_cache := cache\<rparr>
         in if \<not> ok then Some (srv, RespIgnore, RateLimit)
            else Some (srv, ProvideTime, Policy)))"

text \<open>The arguments of \<^verbatim>\<open>ServerStatHandler::register\<close>.\<close>

record stat =
  stat_version :: byte
  stat_nts :: bool
  stat_reason :: server_reason
  stat_response :: server_response

record handle_inner_data =
  hid_action :: server_response
  hid_reason :: server_reason
  hid_version :: ntp_version
  hid_nts :: bool
  hid_packet :: ntp_packet
  hid_cipher :: "cipher option"
  hid_desired_size :: "nat option"

text \<open>Random values and clock readings of one call.\<close>

record environment =
  env_aead :: aead
  env_hash :: "ip_addr \<Rightarrow> u64"
  env_instant :: nat
  env_now :: ntp_timestamp
  env_server_cookie :: bytes
  env_cookie_nonces :: "nat \<Rightarrow> bytes"
  env_seal_nonce :: bytes

text \<open>The response for an action that has been decided, with the cipher and the size to seal and pad it to.\<close>

definition build_response ::
  "environment \<Rightarrow> server \<Rightarrow> ntp_timestamp \<Rightarrow> bytes \<Rightarrow> server_response \<Rightarrow> ntp_packet \<Rightarrow>
   decoded_server_cookie option \<Rightarrow> (ntp_packet \<times> cipher option \<times> nat option) option" where
  "build_response env srv recv message action packet cookie =
     (let rnd = env_server_cookie env in
      case action of
        NTSNak \<Rightarrow> map_option (\<lambda>p. (p, None, None)) (nts_nak_response rnd packet)
      | RespDeny \<Rightarrow>
          (case cookie of
             Some c \<Rightarrow> map_option (\<lambda>p. (p, Some (dsc_s2c c), None)) (nts_deny_response rnd packet)
           | None \<Rightarrow> Some (deny_response rnd packet, None, None))
      | ProvideTime \<Rightarrow>
          (case cookie of
             Some c \<Rightarrow>
               map_option (\<lambda>p. (p, Some (dsc_s2c c), Some (length message)))
                 (nts_timestamp_response (env_aead env) (env_cookie_nonces env) rnd (srv_server_info srv) packet
                    recv (env_now env) c (srv_keyset srv))
           | None \<Rightarrow>
               Some (timestamp_response rnd (srv_server_info srv) packet recv (env_now env), None,
                     Some (length message)))
      | RespIgnore \<Rightarrow> None)"

text \<open>
  The result is the state, the statistics registered so far, and either the data for the response
  or \<open>None\<close> for the early return of \<^verbatim>\<open>ServerAction::Ignore\<close>.
\<close>

definition ignore_with ::
  "server \<Rightarrow> byte \<Rightarrow> bool \<Rightarrow> server_reason \<Rightarrow> server_response \<Rightarrow> (server \<times> stat list \<times> handle_inner_data option) option" where
  "ignore_with srv version nts reason response =
     Some (srv, [\<lparr>stat_version = version, stat_nts = nts, stat_reason = reason, stat_response = response\<rparr>], None)"

definition handle_parsed ::
  "environment \<Rightarrow> server \<Rightarrow> ntp_timestamp \<Rightarrow> bytes \<Rightarrow> server_response \<Rightarrow> server_reason \<Rightarrow> ntp_packet \<Rightarrow>
   decoded_server_cookie option \<Rightarrow> (server \<times> stat list \<times> handle_inner_data option) option" where
  "handle_parsed env srv recv message action reason packet cookie =
     (let version = packet_version packet in
      if version \<notin> set (accepted_versions (srv_config srv)) then
        ignore_with srv (version_as_u8 version) False Policy RespIgnore
      else
        let nts = (cookie \<noteq> None \<or> action = NTSNak) in
        if \<not> nts \<and> require_nts (srv_config srv) = Some FilterIgnore then
          ignore_with srv (version_as_u8 version) nts Policy RespIgnore
        else
          let (action, reason) =
                (if \<not> nts \<and> require_nts (srv_config srv) \<noteq> None then (RespDeny, Policy) else (action, reason))
          in Option.bind (build_response env srv recv message action packet cookie) (\<lambda>(p, c, desired).
             Some (srv, [],
               Some \<lparr>hid_action = action, hid_reason = reason, hid_version = version, hid_nts = nts,
                     hid_packet = p, hid_cipher = c, hid_desired_size = desired\<rparr>)))"

definition handle_inner ::
  "environment \<Rightarrow> server \<Rightarrow> ip_addr \<Rightarrow> ntp_timestamp \<Rightarrow> bytes \<Rightarrow>
   (server \<times> stat list \<times> handle_inner_data option) option" where
  "handle_inner env srv client_ip recv message =
     Option.bind (intended_action (env_hash env) (env_instant env) srv client_ip) (\<lambda>(srv, action, reason).
     if action = RespIgnore then
       ignore_with srv (fallback_message_version message) False reason action
     else
       case packet_deserialize (env_aead env) message (keyset_get (env_aead env) (srv_keyset srv)) of
         Inr (packet, cookie) \<Rightarrow>
           if packet_mode packet = Client then handle_parsed env srv recv message action reason packet cookie
           else ignore_with srv (fallback_message_version message) False ParseError RespIgnore
       | Inl (DecryptError packet) \<Rightarrow>
           let (action, reason) = (if action \<noteq> RespDeny then (NTSNak, InvalidCrypto) else (action, reason))
           in handle_parsed env srv recv message action reason packet None
       | Inl Unreachable \<Rightarrow> None
       | Inl _ \<Rightarrow> ignore_with srv (fallback_message_version message) False ParseError RespIgnore)"

datatype server_action = ActIgnore | ActRespond bytes

definition handle ::
  "environment \<Rightarrow> server \<Rightarrow> ip_addr \<Rightarrow> ntp_timestamp \<Rightarrow> bytes \<Rightarrow> bytes \<Rightarrow> (server \<times> stat list \<times> server_action) option" where
  "handle env srv client_ip recv message buffer =
     Option.bind (handle_inner env srv client_ip recv message) (\<lambda>(srv, stats, inner).
     case inner of
       None \<Rightarrow> Some (srv, stats, ActIgnore)
     | Some d \<Rightarrow>
         (case packet_serialize (env_aead env) (env_seal_nonce env) (hid_packet d) (opt_cipher (hid_cipher d))
                 (hid_desired_size d) (new_cursor buffer) of
            Inr w \<Rightarrow>
              Some (srv,
                stats @ [\<lparr>stat_version = version_as_u8 (hid_version d), stat_nts = hid_nts d,
                          stat_reason = hid_reason d, stat_response = hid_action d\<rparr>],
                ActRespond (take (cur_pos w) (cur_buf w)))
          | Inl Panicked \<Rightarrow> None
          | Inl _ \<Rightarrow>
              Some (srv,
                stats @ [\<lparr>stat_version = version_as_u8 (hid_version d), stat_nts = hid_nts d,
                          stat_reason = InternalError, stat_response = RespIgnore\<rparr>],
                ActIgnore)))"

section \<open>Serialisation does not panic\<close>

text \<open>A writer that may fail for lack of room or for an oversized field, but never aborts.\<close>

definition no_abort :: "writer \<Rightarrow> bool" where
  "no_abort f \<longleftrightarrow> (\<forall>w. f w \<noteq> Inl Panicked)"

lemma no_abort_writes: "writes f d \<Longrightarrow> no_abort f"
  by (auto simp: no_abort_def writes_def write_all_def)

lemma no_abort_seq: "\<forall>f \<in> set fs. no_abort f \<Longrightarrow> no_abort (write_seq fs)"
proof (induction fs)
  case (Cons f fs)
  then have "f w \<noteq> Inl Panicked" "no_abort (write_seq fs)" for w by (auto simp: no_abort_def)
  then show ?case by (simp add: no_abort_def bindR_eq_Inl_iff)
qed (simp add: no_abort_def)

lemma no_abort_fail: "e \<noteq> Panicked \<Longrightarrow> no_abort (fail_with e)"
  by (simp add: no_abort_def fail_with_def)

lemma no_abort_basic [simp]: "no_abort (write_all d)" "no_abort (write_zeros n)"
  by (rule no_abort_writes [OF writes_write_all], rule no_abort_writes [OF writes_write_zeros])

lemma no_abort_framing [simp]: "no_abort (encode_framing t n m version)" "no_abort (encode_padding n m)"
  by (auto simp: encode_framing_def encode_padding_def Let_def intro!: no_abort_fail no_abort_seq)

fun reply_field :: "ext_field \<Rightarrow> bool" where
  "reply_field (RefIdRequest _) = False"
| "reply_field (RefIdResponse r) \<longleftrightarrow> length (response_bytes r) \<le> 65535"
| "reply_field _ = True"

lemma no_abort_field: "reply_field f \<Longrightarrow> no_abort (ef_serialize f m version)"
  by (cases f)
    (auto simp: encode_unique_identifier_def encode_nts_cookie_def encode_nts_cookie_placeholder_def encode_unknown_def
      encode_draft_identification_def encode_padding_field_def rid_response_serialize_def Let_def
      intro!: no_abort_seq no_abort_fail)

lemma no_abort_untrusted: "\<forall>f \<in> set fs. reply_field f \<Longrightarrow> no_abort (serialize_untrusted fs version)"
proof (induction fs)
  case (Cons f fs)
  then have "ef_serialize f m version w \<noteq> Inl Panicked" "no_abort (serialize_untrusted fs version)" for m w
    using no_abort_field by (auto simp: no_abort_def)
  then show ?case by (simp add: no_abort_def bindR_eq_Inl_iff)
qed (simp add: no_abort_def)

lemma cipher_encrypt_no_abort: "cipher_encrypt A c nonce buffer n aad \<noteq> Inl Panicked"
  by (auto simp: cipher_encrypt_def prepend_slice_def Let_def)

lemma no_abort_encrypted:
  assumes "\<forall>f \<in> set fs. reply_field f"
  shows "no_abort (encode_encrypted A nonce fs c version)"
proof -
  have "no_abort (write_seq (map (\<lambda>f. ef_serialize f 0 version) fs))"
    using assms by (intro no_abort_seq) (auto intro: no_abort_field)
  moreover have "no_abort (write_seq (map write_all ds))" for ds by (rule no_abort_seq) auto
  from this [of "[a, b, c, d]" for a b c d]
  have "no_abort (write_seq [write_all a, write_all b, write_all c, write_all d])" for a b c d by simp
  ultimately show ?thesis
    unfolding no_abort_def encode_encrypted_def Let_def
    by (auto simp: bindR_eq_Inl_iff cipher_encrypt_no_abort split: prod.splits if_splits simp del: write_seq.simps)
qed

lemma no_abort_efdata:
  assumes "\<forall>f \<in> set (authenticated d @ encrypted d @ untrusted d). reply_field f"
  shows "no_abort (efdata_serialize A nonce d provider version)"
proof -
  have "no_abort (write_seq (map (\<lambda>f. ef_serialize f 16 version) (authenticated d)))"
    using assms by (intro no_abort_seq) (auto intro: no_abort_field)
  moreover have "no_abort (encode_encrypted A nonce (encrypted d) c version)" for c
    using assms by (intro no_abort_encrypted) simp
  moreover have "no_abort (serialize_untrusted (untrusted d) version)"
    using assms by (intro no_abort_untrusted) simp
  ultimately show ?thesis
    unfolding no_abort_def efdata_serialize_def
    by (auto simp: bindR_eq_Inl_iff split: option.splits if_splits)
qed

fun header_nonneg :: "ntp_header \<Rightarrow> bool" where
  "header_nonneg (HV5 h) \<longleftrightarrow> 0 \<le> dur_val (h5_root_delay h) \<and> 0 \<le> dur_val (h5_root_dispersion h)"
| "header_nonneg (HV3 h) \<longleftrightarrow> 0 \<le> dur_val (h4_root_delay h) \<and> 0 \<le> dur_val (h4_root_dispersion h)"
| "header_nonneg (HV4 h) \<longleftrightarrow> 0 \<le> dur_val (h4_root_delay h) \<and> 0 \<le> dur_val (h4_root_dispersion h)"

lemma no_abort_header:
  assumes "header_nonneg h"
  shows "no_abort (header_serialize h)"
proof -
  have s: "\<exists>bs. dur_to_bits_short d = Some bs" "\<exists>bs. dur_to_bits_time32 d = Some bs" if "0 \<le> dur_val d" for d
    using that by (simp_all add: dur_to_bits_short_def dur_to_bits_time32_def Let_def)
  show ?thesis
  proof (cases h)
    case (HV3 g)
    with assms s(1) [of "h4_root_delay g"] s(1) [of "h4_root_dispersion g"] show ?thesis
      by (auto intro: no_abort_writes [OF h4_serialize_writes])
  next
    case (HV4 g)
    with assms s(1) [of "h4_root_delay g"] s(1) [of "h4_root_dispersion g"] show ?thesis
      by (auto intro: no_abort_writes [OF h4_serialize_writes])
  next
    case (HV5 g)
    with assms s(2) [of "h5_root_delay g"] s(2) [of "h5_root_dispersion g"] show ?thesis
      by (auto intro: no_abort_writes [OF h5_serialize_writes])
  qed
qed

lemma packet_serialize_no_panic:
  assumes "header_nonneg (header p)" "packet_mac p = None"
    and "\<forall>f \<in> set (authenticated (efdata p) @ encrypted (efdata p) @ untrusted (efdata p)). reply_field f"
  shows "packet_serialize A nonce p provider desired w \<noteq> Inl Panicked"
proof -
  have "header_serialize (header p) w \<noteq> Inl Panicked" for w
    using no_abort_header [OF assms(1)] by (simp add: no_abort_def)
  moreover have "efdata_serialize A nonce (efdata p) provider version w \<noteq> Inl Panicked" for version w
    using no_abort_efdata [OF assms(3)] by (simp add: no_abort_def)
  moreover have "ef_serialize (Padding k) 4 EfV5 w \<noteq> Inl Panicked" for k w
    using no_abort_field [of "Padding k"] by (simp add: no_abort_def)
  ultimately show ?thesis
    using assms(2) by (cases "header p")
      (fastforce simp: packet_serialize_def Let_def bindR_eq_Inl_iff split: option.splits if_splits)+
qed

section \<open>Every datagram is handled\<close>

lemma construct_packet_header: "construct_packet h r d = Inr p \<Longrightarrow> header p = h"
  by (auto simp: construct_packet_def result_simps split: if_splits)

lemma no_decrypt_error [simp]:
  "mac_deserialize r \<noteq> Inl (DecryptError p)" "construct_packet h r d \<noteq> Inl (DecryptError q)"
  "leap_from_bits b \<noteq> Inl (DecryptError p)" "mode_from_bits b \<noteq> Inl (DecryptError p)"
  "ntp_mode_from_bits b \<noteq> Inl (DecryptError p)" "timescale_from_bits b \<noteq> Inl (DecryptError p)"
  "flags_from_bits bs \<noteq> Inl (DecryptError p)" "get_decrypt_error e \<noteq> Inl (DecryptError p)"
proof -
  show "mac_deserialize r \<noteq> Inl (DecryptError p)" for p :: 'a by (simp add: mac_deserialize_def)
  then show "construct_packet h r d \<noteq> Inl (DecryptError q)"
    by (simp add: construct_packet_def bindR_eq_Inl_iff mac_deserialize_def)
  show "get_decrypt_error e \<noteq> Inl (DecryptError p)" by (cases e) simp_all
qed (simp_all add: leap_from_bits_def mode_from_bits_def ntp_mode_from_bits_def timescale_from_bits_def flags_from_bits_def)

lemma header_no_decrypt_error [simp]:
  "h4_deserialize m \<noteq> Inl (DecryptError p)" "h5_deserialize m \<noteq> Inl (DecryptError p)"
  by (simp_all add: h4_deserialize_def h5_deserialize_def Let_def bindR_eq_Inl_iff)

lemma packet_with_fields_header:
  "packet_with_fields A g message n provider v = Inr (p, d) \<Longrightarrow> header p = g"
  "packet_with_fields A g message n provider v = Inl (DecryptError p) \<Longrightarrow> header p = g"
  by (auto simp: packet_with_fields_def result_simps dest: construct_packet_header split: sum.splits)

lemma parsed_not_v3:
  "packet_deserialize A message provider = Inr (p, Some c) \<Longrightarrow> header p \<noteq> HV3 h"
  "packet_deserialize A message provider = Inl (DecryptError p) \<Longrightarrow> header p \<noteq> HV3 h"
  by (auto simp: packet_deserialize_def Let_def result_simps dest!: packet_with_fields_header split: if_splits)

lemma fresh_cookies_succeed:
  assumes "unat (ks_primary ks) < length (ks_keys ks)" "aead_overhead A" "\<And>j. length (nonces j) = 16"
  shows "\<exists>new. fresh_cookies A nonces ks keys i efs = Some new"
proof (induction efs arbitrary: i)
  case (Cons f efs)
  from Cons [of "Suc i"] encode_cookie_sealed [OF assms(1) assms(3) [of i] assms(2), of keys]
  show ?case by (cases f) auto
qed simp

lemma reply_fields:
  "\<forall>f \<in> set (filter is_unique_identifier efs). reply_field f"
  "\<forall>f \<in> set (List.map_filter (v5_reply_field bloom) efs). reply_field f"
  "reply_field draft_identification"
proof -
  show "\<forall>f \<in> set (filter is_unique_identifier efs). reply_field f"
    by (auto elim!: is_unique_identifier.elims)
  have u: "unat w \<le> 65535" for w :: u16 using unat_lt2p [of w] by simp
  have "reply_field g" if "v5_reply_field bloom f = Some g" for f g
    using that u by (cases f) (auto simp: rid_to_response_def Let_def get_range_def bind_eq_Some_conv split: if_splits)
  then show "\<forall>f \<in> set (List.map_filter (v5_reply_field bloom) efs). reply_field f"
    by (auto simp: List.map_filter_def)
qed (simp add: draft_identification_def)

definition info_nonneg :: "ntp_server_info \<Rightarrow> ntp_timestamp \<Rightarrow> bool" where
  "info_nonneg info recv \<longleftrightarrow>
     0 \<le> dur_val (ts_root_delay (time_snapshot_of info)) \<and> 0 \<le> dur_val (ts_root_dispersion (time_snapshot_of info) recv)"

definition serializable :: "ntp_packet \<Rightarrow> bool" where
  "serializable p \<longleftrightarrow> header_nonneg (header p) \<and> packet_mac p = None \<and>
     (\<forall>f \<in> set (authenticated (efdata p) @ encrypted (efdata p) @ untrusted (efdata p)). reply_field f)"

lemma new_headers_nonneg [simp]:
  "0 \<le> dur_val (h4_root_delay h4_new)" "0 \<le> dur_val (h4_root_dispersion h4_new)"
  "0 \<le> dur_val (h5_root_delay h5_new)" "0 \<le> dur_val (h5_root_dispersion h5_new)"
  by (simp_all add: h4_new_def h5_new_def dur_ZERO_def)

lemma responses_serializable:
  assumes "info_nonneg info recv"
  shows "serializable (timestamp_response rnd info p recv now)" "serializable (deny_response rnd p)"
    "nts_deny_response rnd p = Some q \<Longrightarrow> serializable q" "nts_nak_response rnd p = Some q \<Longrightarrow> serializable q"
    "nts_timestamp_response A nonces rnd info p recv now keys ks = Some q \<Longrightarrow> serializable q"
proof -
  note r = reply_fields(1,2) [THEN bspec] reply_fields(3)
  have c: "\<forall>f \<in> set new. reply_field f" if "fresh_cookies A nonces ks keys 0 efs = Some new" for efs new
    using fresh_cookies_are_cookies [OF that] by force
  show "serializable (timestamp_response rnd info p recv now)"
    using assms by (cases "header p")
      (auto simp: serializable_def response_defs header_response_defs info_nonneg_def Let_def intro: r)
  show "serializable (deny_response rnd p)"
    by (cases "header p") (auto simp: serializable_def response_defs header_response_defs Let_def intro: r)
  show "nts_deny_response rnd p = Some q \<Longrightarrow> serializable q" "nts_nak_response rnd p = Some q \<Longrightarrow> serializable q"
    by (cases "header p"; auto simp: serializable_def response_defs header_response_defs Let_def intro: r)+
  show "serializable q" if "nts_timestamp_response A nonces rnd info p recv now keys ks = Some q"
    using that assms c
    by (cases "header p")
      (auto simp: serializable_def response_defs header_response_defs info_nonneg_def Let_def intro: r)
qed

text \<open>The state that \<^verbatim>\<open>Server::new\<close> makes from a valid configuration, and that handling a datagram keeps.\<close>

definition nets_ok :: "ip_subnet list \<Rightarrow> bool" where
  "nets_ok nets \<longleftrightarrow> (\<forall>n \<in> set nets. subnet_ok n) \<and> length nets < 2 ^ 27"

definition server_inv :: "server \<Rightarrow> bool" where
  "server_inv srv \<longleftrightarrow>
     (let c = srv_config srv in
      nets_ok (fl_filter (denylist c)) \<and> nets_ok (fl_filter (allowlist c)) \<and>
      ip_filter_new (fl_filter (denylist c)) = Some (srv_denyfilter srv) \<and>
      ip_filter_new (fl_filter (allowlist c)) = Some (srv_allowfilter srv) \<and>
      length (srv_client_cache srv) = rate_limiting_cache_size c \<and>
      unat (ks_primary (srv_keyset srv)) < length (ks_keys (srv_keyset srv)))"

lemma server_inv_new:
  assumes "nets_ok (fl_filter (denylist c))" "nets_ok (fl_filter (allowlist c))" "unat (ks_primary ks) < length (ks_keys ks)"
  shows "\<exists>srv. server_new c info ks = Some srv \<and> server_inv srv"
  using ip_filter_new_correct [of "fl_filter (denylist c)"] ip_filter_new_correct [of "fl_filter (allowlist c)"] assms
  by (auto simp: server_new_def server_inv_def nets_ok_def Let_def cache_new_def)

lemma server_filters:
  assumes "server_inv srv"
  shows "is_in (srv_denyfilter srv) a = Some (any_contains (fl_filter (denylist (srv_config srv))) a)"
    "is_in (srv_allowfilter srv) a = Some (any_contains (fl_filter (allowlist (srv_config srv))) a)"
  using assms ip_filter_new_correct [of "fl_filter (denylist (srv_config srv))"]
    ip_filter_new_correct [of "fl_filter (allowlist (srv_config srv))"]
  by (auto simp: server_inv_def nets_ok_def Let_def)

text \<open>The policy, with the filters as plain searches through the configured subnets.\<close>

definition policy :: "server_config \<Rightarrow> ip_addr \<Rightarrow> bool \<Rightarrow> server_response \<times> server_reason" where
  "policy c ip rate_ok =
     (if any_contains (fl_filter (denylist c)) ip then (response_of_filter (fl_action (denylist c)), Policy)
      else if \<not> any_contains (fl_filter (allowlist c)) ip then (response_of_filter (fl_action (allowlist c)), Policy)
      else if \<not> rate_ok then (RespIgnore, RateLimit)
      else (ProvideTime, Policy))"

definition filtered :: "server_config \<Rightarrow> ip_addr \<Rightarrow> bool" where
  "filtered c ip \<longleftrightarrow> any_contains (fl_filter (denylist c)) ip \<or> \<not> any_contains (fl_filter (allowlist c)) ip"

definition rate_check :: "environment \<Rightarrow> server \<Rightarrow> ip_addr \<Rightarrow> timestamped_cache \<times> bool" where
  "rate_check env srv ip =
     is_allowed (env_hash env) (srv_client_cache srv) ip (env_instant env) (rate_limiting_cutoff (srv_config srv))"

definition after_policy :: "environment \<Rightarrow> server \<Rightarrow> ip_addr \<Rightarrow> server" where
  "after_policy env srv ip =
     (if filtered (srv_config srv) ip then srv else srv\<lparr>srv_client_cache := fst (rate_check env srv ip)\<rparr>)"

lemma intended_action_policy:
  assumes "server_inv srv"
  shows "intended_action (env_hash env) (env_instant env) srv ip =
    Some (after_policy env srv ip, policy (srv_config srv) ip (snd (rate_check env srv ip)))"
  by (simp add: intended_action_def server_filters [OF assms] policy_def filtered_def after_policy_def rate_check_def
      split: prod.split)

lemma length_is_allowed [simp]: "length (fst (is_allowed hash cache ip t cutoff)) = length cache"
  by (simp add: is_allowed_def Let_def)

lemma server_inv_cache:
  "server_inv srv \<Longrightarrow> length cache = length (srv_client_cache srv) \<Longrightarrow> server_inv (srv\<lparr>srv_client_cache := cache\<rparr>)"
  by (simp add: server_inv_def Let_def)

lemma policy_not_nak: "fst (policy c ip ok) \<noteq> NTSNak"
  by (auto simp: policy_def elim: response_of_filter.elims)

text \<open>A request that has been parsed, for an action that is not to ignore it.\<close>

lemma build_response_serializable:
  assumes "server_inv srv" "aead_overhead (env_aead env)" "\<And>j. length (env_cookie_nonces env j) = 16"
    and "info_nonneg (srv_server_info srv) recv" "action \<noteq> RespIgnore"
    and "cookie \<noteq> None \<or> action = NTSNak \<Longrightarrow> \<forall>h. header p \<noteq> HV3 h"
  shows "\<exists>q c desired. build_response env srv recv message action p cookie = Some (q, c, desired) \<and> serializable q"
proof -
  have ks: "unat (ks_primary (srv_keyset srv)) < length (ks_keys (srv_keyset srv))"
    using assms(1) by (simp add: server_inv_def Let_def)
  note new = fresh_cookies_succeed [where nonces = "env_cookie_nonces env", OF ks assms(2,3)]
  have nak: "\<exists>q. nts_nak_response rnd p = Some q" and deny: "\<exists>q. nts_deny_response rnd p = Some q"
    and time: "\<exists>q. nts_timestamp_response (env_aead env) (env_cookie_nonces env) rnd info p recv now keys (srv_keyset srv) = Some q"
    if "\<forall>h. header p \<noteq> HV3 h" for rnd info now keys
    using that new by (cases "header p"; fastforce simp: response_defs Let_def)+
  note s = responses_serializable [OF assms(4)]
  show ?thesis
  proof (cases action)
    case NTSNak
    with nak [of "env_server_cookie env"] assms(6) s(4) show ?thesis by (auto simp: build_response_def)
  next
    case RespDeny
    with deny [of "env_server_cookie env"] assms(6) s(2,3) show ?thesis
      by (cases cookie) (auto simp: build_response_def)
  next
    case ProvideTime
    with time [of "env_server_cookie env" "srv_server_info srv" "env_now env"] assms(6) s(1,5) show ?thesis
      by (cases cookie) (fastforce simp: build_response_def)+
  qed (use assms(5) in simp)
qed

text \<open>What a call of \<^verbatim>\<open>handle_inner\<close> may do: ignore the datagram with one statistic, or prepare a response.\<close>

definition handled :: "server \<Rightarrow> (server \<times> stat list \<times> handle_inner_data option) option \<Rightarrow> bool" where
  "handled srv r \<longleftrightarrow>
     (\<exists>st. r = Some (srv, [st], None) \<and> stat_response st = RespIgnore) \<or>
     (\<exists>d. r = Some (srv, [], Some d) \<and> hid_action d \<noteq> RespIgnore \<and> serializable (hid_packet d))"

definition env_ok :: "environment \<Rightarrow> server \<Rightarrow> ntp_timestamp \<Rightarrow> bool" where
  "env_ok env srv recv \<longleftrightarrow> aead_overhead (env_aead env) \<and> (\<forall>j. length (env_cookie_nonces env j) = 16) \<and>
     info_nonneg (srv_server_info srv) recv"

lemma handled_ignore: "handled srv (ignore_with srv version nts reason RespIgnore)"
  by (simp add: handled_def ignore_with_def)

lemma handled_parsed:
  assumes "server_inv srv" "env_ok env srv recv"
    and "action \<noteq> RespIgnore" "cookie \<noteq> None \<or> action = NTSNak \<Longrightarrow> \<forall>h. header p \<noteq> HV3 h"
  shows "handled srv (handle_parsed env srv recv message action reason p cookie)"
proof -
  let ?nts = "cookie \<noteq> None \<or> action = NTSNak"
  let ?a = "if \<not> ?nts \<and> require_nts (srv_config srv) \<noteq> None then RespDeny else action"
  have a: "?a \<noteq> RespIgnore" "cookie \<noteq> None \<or> ?a = NTSNak \<Longrightarrow> \<forall>h. header p \<noteq> HV3 h"
    using assms(3,4) by (auto split: if_splits)
  have "aead_overhead (env_aead env)" "\<And>j. length (env_cookie_nonces env j) = 16"
    "info_nonneg (srv_server_info srv) recv" using assms(2) by (auto simp: env_ok_def)
  from build_response_serializable [where message = message, OF assms(1) this a]
  obtain q c desired where "build_response env srv recv message ?a p cookie = Some (q, c, desired)" "serializable q"
    by blast
  with a(1) show ?thesis
    by (auto simp: handle_parsed_def Let_def handled_def ignore_with_def split: if_splits)
qed

lemma server_inv_after: "server_inv srv \<Longrightarrow> server_inv (after_policy env srv ip)"
  by (simp add: after_policy_def rate_check_def server_inv_cache)

lemma after_policy_fields [simp]:
  "srv_config (after_policy env srv ip) = srv_config srv"
  "srv_server_info (after_policy env srv ip) = srv_server_info srv"
  "srv_keyset (after_policy env srv ip) = srv_keyset srv"
  by (simp_all add: after_policy_def)

lemma handle_inner_run:
  assumes "server_inv srv" "policy (srv_config srv) ip (snd (rate_check env srv ip)) = (action, reason)"
  shows "handle_inner env srv ip recv message =
      (if action = RespIgnore then ignore_with (after_policy env srv ip) (fallback_message_version message) False reason action
       else case packet_deserialize (env_aead env) message (keyset_get (env_aead env) (srv_keyset srv)) of
         Inr (packet, cookie) \<Rightarrow>
           if packet_mode packet = Client then handle_parsed env (after_policy env srv ip) recv message action reason packet cookie
           else ignore_with (after_policy env srv ip) (fallback_message_version message) False ParseError RespIgnore
       | Inl (DecryptError packet) \<Rightarrow>
           let (action, reason) = (if action \<noteq> RespDeny then (NTSNak, InvalidCrypto) else (action, reason))
           in handle_parsed env (after_policy env srv ip) recv message action reason packet None
       | Inl Unreachable \<Rightarrow> None
       | Inl _ \<Rightarrow> ignore_with (after_policy env srv ip) (fallback_message_version message) False ParseError RespIgnore)"
  by (simp add: handle_inner_def intended_action_policy [OF assms(1)] assms(2))

lemma handle_inner_handled:
  assumes "server_inv srv" "env_ok env srv recv"
  shows "handled (after_policy env srv ip) (handle_inner env srv ip recv message)"
proof -
  let ?srv = "after_policy env srv ip"
  let ?parse = "packet_deserialize (env_aead env) message (keyset_get (env_aead env) (srv_keyset srv))"
  obtain action reason where pol: "policy (srv_config srv) ip (snd (rate_check env srv ip)) = (action, reason)" by fastforce
  have nak: "action \<noteq> NTSNak" using policy_not_nak [of "srv_config srv" ip] pol by (metis fst_conv)
  have inv: "server_inv ?srv" and env: "env_ok env ?srv recv"
    using server_inv_after [OF assms(1)] assms(2) by (simp_all add: env_ok_def)
  note parsed = handled_parsed [OF inv env]
  note run = handle_inner_run [OF assms(1) pol]
  show ?thesis
  proof (cases "action = RespIgnore")
    case True
    then show ?thesis by (simp add: run handled_ignore)
  next
    case False
    show ?thesis
    proof (cases ?parse)
      case (Inr r)
      obtain p cookie where r: "r = (p, cookie)" by (cases r)
      have "handled ?srv (handle_parsed env ?srv recv message action reason p cookie)"
        using Inr r False nak parsed_not_v3(1) by (intro parsed) auto
      with Inr False r show ?thesis by (simp add: run handled_ignore)
    next
      case (Inl e)
      then have "e \<noteq> Unreachable" using packet_parsing_no_panic by blast
      moreover have "handled ?srv (handle_parsed env ?srv recv message a re p None)"
        if "e = DecryptError p" "a \<noteq> RespIgnore" for a re p
        using that Inl parsed_not_v3(2) by (intro parsed) auto
      ultimately show ?thesis using Inl False by (cases e) (auto simp: run handled_ignore)
    qed
  qed
qed

text \<open>
  C2: the server handles every datagram. From a state with a valid configuration and key set, with
  a root delay and dispersion that are not negative, handling any bytes from any address returns:
  it does not panic, registers exactly one statistic, says in it that the datagram was ignored
  exactly when it sends nothing, and keeps the state valid and the configuration, the keys and the
  clock data unchanged.
\<close>
theorem server_handles_every_datagram:
  assumes "server_inv srv" "env_ok env srv recv"
  shows "\<exists>srv' st act. handle env srv ip recv message buffer = Some (srv', [st], act) \<and>
    server_inv srv' \<and> srv' = srv\<lparr>srv_client_cache := srv_client_cache srv'\<rparr> \<and>
    (act = ActIgnore \<longleftrightarrow> stat_response st = RespIgnore)"
proof -
  let ?srv = "after_policy env srv ip"
  have s: "server_inv ?srv" "?srv = srv\<lparr>srv_client_cache := srv_client_cache ?srv\<rparr>"
    using server_inv_after [OF assms(1)] by (simp_all add: after_policy_def)
  from handle_inner_handled [OF assms, of ip message] consider
    (ignored) st where "handle_inner env srv ip recv message = Some (?srv, [st], None)" "stat_response st = RespIgnore"
    | (answer) d where "handle_inner env srv ip recv message = Some (?srv, [], Some d)" "hid_action d \<noteq> RespIgnore"
        "serializable (hid_packet d)"
    by (auto simp: handled_def)
  then show ?thesis
  proof cases
    case ignored
    with s show ?thesis by (simp add: handle_def)
  next
    case answer
    let ?ser = "packet_serialize (env_aead env) (env_seal_nonce env) (hid_packet d) (opt_cipher (hid_cipher d))
      (hid_desired_size d) (new_cursor buffer)"
    have "?ser \<noteq> Inl Panicked" using answer(3) by (intro packet_serialize_no_panic) (simp_all add: serializable_def)
    then show ?thesis using s answer(1,2)
      by (cases ?ser) (auto simp: handle_def split: io_error.split)
  qed
qed

definition example_config :: server_config where
  "example_config = \<lparr>denylist = \<lparr>fl_filter = [\<lparr>subnet_addr = IpV4 0x0A000000, subnet_mask = 8\<rparr>], fl_action = FilterDeny\<rparr>,
     allowlist = \<lparr>fl_filter = [\<lparr>subnet_addr = IpV4 0, subnet_mask = 0\<rparr>], fl_action = FilterIgnore\<rparr>,
     rate_limiting_cache_size = 0, rate_limiting_cutoff = 0, require_nts = None, accepted_versions = [NtpV3, NtpV4, NtpV5]\<rparr>"

definition example_env :: environment where
  "example_env = \<lparr>env_aead = example_aead, env_hash = (\<lambda>_. 0), env_instant = 0, env_now = NtpTimestamp 6,
     env_server_cookie = replicate 8 0, env_cookie_nonces = (\<lambda>_. replicate 16 1), env_seal_nonce = replicate 16 2\<rparr>"

lemma example_server:
  "\<exists>srv. server_new example_config example_info example_ks = Some srv \<and> server_inv srv \<and>
     env_ok example_env srv recv \<and> srv_config srv = example_config \<and> srv_keyset srv = example_ks \<and>
     srv_server_info srv = example_info \<and> srv_client_cache srv = []"
proof -
  obtain srv where srv: "server_new example_config example_info example_ks = Some srv" "server_inv srv"
    using server_inv_new [of example_config example_ks example_info]
    by (auto simp: example_config_def nets_ok_def subnet_ok_def example_ks_def)
  then have "srv_config srv = example_config" "srv_keyset srv = example_ks" "srv_server_info srv = example_info"
    "srv_client_cache srv = []"
    by (auto simp: server_new_def bind_eq_Some_conv cache_new_def example_config_def)
  moreover have "info_nonneg example_info recv" by (simp add: info_nonneg_def example_info_def dur_ZERO_def)
  ultimately show ?thesis
    using srv example_aead_ok(2) by (auto simp: env_ok_def example_env_def)
qed

theorem server_handles_every_datagram_witness:
  "\<exists>srv srv' st act. server_new example_config example_info example_ks = Some srv \<and>
     handle example_env srv (IpV4 7) (NtpTimestamp 5) [0x23, 2, 3] (replicate 100 0) = Some (srv', [st], act) \<and> server_inv srv'"
  using example_server [of "NtpTimestamp 5"] server_handles_every_datagram by blast

section \<open>Who is served\<close>

lemma handle_parsed_action:
  assumes "handle_parsed env srv recv message action reason p cookie = Some (srv', stats, Some d)"
  shows "stats = []" "packet_version p \<in> set (accepted_versions (srv_config srv))" "hid_version d = packet_version p"
    "hid_nts d \<longleftrightarrow> cookie \<noteq> None \<or> action = NTSNak"
    "hid_action d = (if \<not> hid_nts d \<and> require_nts (srv_config srv) \<noteq> None then RespDeny else action)"
    "\<not> (\<not> hid_nts d \<and> require_nts (srv_config srv) = Some FilterIgnore)"
    "build_response env srv recv message (hid_action d) p cookie = Some (hid_packet d, hid_cipher d, hid_desired_size d)"
  using assms by (auto simp: handle_parsed_def ignore_with_def Let_def bind_eq_Some_conv split: if_splits)

lemma handle_parsed_ignored:
  "handle_parsed env srv recv message action reason p cookie = Some (srv', stats, None) \<Longrightarrow>
   \<forall>st \<in> set stats. stat_response st = RespIgnore"
  by (auto simp: handle_parsed_def ignore_with_def Let_def bind_eq_Some_conv split: if_splits)

text \<open>The requests for which a response is prepared, and the action each gets.\<close>

lemma handle_inner_answer:
  assumes "server_inv srv" "handle_inner env srv ip recv message = Some (srv', stats, Some d)"
  obtains (Parsed) p cookie action reason where
      "policy (srv_config srv) ip (snd (rate_check env srv ip)) = (action, reason)" "action \<noteq> RespIgnore"
      "packet_deserialize (env_aead env) message (keyset_get (env_aead env) (srv_keyset srv)) = Inr (p, cookie)"
      "packet_mode p = Client"
      "handle_parsed env (after_policy env srv ip) recv message action reason p cookie = Some (srv', stats, Some d)"
    | (Undecryptable) p action reason where
      "policy (srv_config srv) ip (snd (rate_check env srv ip)) = (action, reason)" "action \<noteq> RespIgnore"
      "packet_deserialize (env_aead env) message (keyset_get (env_aead env) (srv_keyset srv)) = Inl (DecryptError p)"
      "handle_parsed env (after_policy env srv ip) recv message (if action \<noteq> RespDeny then NTSNak else RespDeny)
         (if action \<noteq> RespDeny then InvalidCrypto else reason) p None = Some (srv', stats, Some d)"
proof -
  obtain action reason where pol: "policy (srv_config srv) ip (snd (rate_check env srv ip)) = (action, reason)" by fastforce
  note run = handle_inner_run [OF assms(1) pol]
  show thesis
    using assms(2) pol that
    by (auto simp: run ignore_with_def split: if_splits sum.splits parsing_error.splits)
qed

lemma handle_inner_ignored:
  assumes "server_inv srv" "handle_inner env srv ip recv message = Some (srv', stats, None)"
  shows "\<forall>st \<in> set stats. stat_response st = RespIgnore"
proof -
  obtain action reason where pol: "policy (srv_config srv) ip (snd (rate_check env srv ip)) = (action, reason)" by fastforce
  show ?thesis
    using assms(2) handle_parsed_ignored
    by (auto simp: handle_inner_run [OF assms(1) pol] ignore_with_def Let_def
        split: if_splits sum.splits parsing_error.splits)
qed

lemma handle_cases:
  assumes "handle env srv ip recv message buffer = Some (srv', stats, act)"
  obtains (Ignored) "handle_inner env srv ip recv message = Some (srv', stats, None)" "act = ActIgnore"
    | (Failed) d stats0 st where "handle_inner env srv ip recv message = Some (srv', stats0, Some d)"
        "stats = stats0 @ [st]" "stat_response st = RespIgnore" "act = ActIgnore"
    | (Answered) d stats0 st w where "handle_inner env srv ip recv message = Some (srv', stats0, Some d)"
        "packet_serialize (env_aead env) (env_seal_nonce env) (hid_packet d) (opt_cipher (hid_cipher d))
           (hid_desired_size d) (new_cursor buffer) = Inr w"
        "stats = stats0 @ [st]" "stat_response st = hid_action d" "act = ActRespond (take (cur_pos w) (cur_buf w))"
proof -
  obtain s1 stats0 inner where i: "handle_inner env srv ip recv message = Some (s1, stats0, inner)"
    using assms by (cases "handle_inner env srv ip recv message") (auto simp: handle_def)
  show thesis
  proof (cases inner)
    case None
    with i assms show ?thesis by (intro Ignored) (simp_all add: handle_def)
  next
    case (Some d)
    let ?ser = "packet_serialize (env_aead env) (env_seal_nonce env) (hid_packet d) (opt_cipher (hid_cipher d))
      (hid_desired_size d) (new_cursor buffer)"
    show ?thesis
    proof (cases ?ser)
      case (Inl e)
      have "srv' = s1 \<and> (\<exists>st. stats = stats0 @ [st] \<and> stat_response st = RespIgnore) \<and> act = ActIgnore"
        using assms i Some Inl by (cases e) (auto simp: handle_def)
      with i Some show ?thesis by (metis Failed)
    next
      case (Inr w)
      with assms i Some show ?thesis by (intro Answered [of stats0 d w]) (auto simp: handle_def)
    qed
  qed
qed

lemma provided_by_answer:
  assumes "server_inv srv" "handle env srv ip recv message buffer = Some (srv', stats, act)"
    and "st \<in> set stats" "stat_response st \<noteq> RespIgnore"
  shows "\<exists>d stats0. handle_inner env srv ip recv message = Some (srv', stats0, Some d) \<and> hid_action d = stat_response st"
proof -
  have e: "stats0 = []" if "handle_inner env srv ip recv message = Some (srv', stats0, Some d)" for d stats0
    using assms(1) that by (cases rule: handle_inner_answer) (simp_all add: handle_parsed_action(1))
  from assms(2) show ?thesis
  proof (cases rule: handle_cases)
    case Ignored
    with handle_inner_ignored [OF assms(1)] assms(3,4) show ?thesis by blast
  next
    case (Failed d stats0 st')
    with e assms(3,4) show ?thesis by auto
  next
    case (Answered d stats0 st' w)
    with e assms(3,4) show ?thesis by auto
  qed
qed

text \<open>
  C6: only authorised clients get the time. When the server registers that it provided the time,
  the client's address is in none of the denied subnets and in an allowed one, the rate limiter let
  it through, the datagram parsed to a client request of an accepted version, and if the server is
  configured to require authentication the request was authenticated by a cookie of the server.
\<close>
theorem time_only_for_authorised_clients:
  assumes "server_inv srv" "handle env srv ip recv message buffer = Some (srv', stats, act)"
    and "st \<in> set stats" "stat_response st = ProvideTime"
  shows "\<not> filtered (srv_config srv) ip \<and> snd (rate_check env srv ip) \<and>
    (\<exists>p cookie. packet_deserialize (env_aead env) message (keyset_get (env_aead env) (srv_keyset srv)) = Inr (p, cookie) \<and>
       packet_mode p = Client \<and> packet_version p \<in> set (accepted_versions (srv_config srv)) \<and>
       (require_nts (srv_config srv) \<noteq> None \<longrightarrow> cookie \<noteq> None))"
proof -
  from provided_by_answer [OF assms(1-3)] assms(4) obtain d stats0 where
    d: "handle_inner env srv ip recv message = Some (srv', stats0, Some d)" "hid_action d = ProvideTime" by auto
  have pol: "\<not> filtered (srv_config srv) ip \<and> snd (rate_check env srv ip)"
    if "policy (srv_config srv) ip (snd (rate_check env srv ip)) = (ProvideTime, reason)" for reason
    using that by (auto simp: policy_def filtered_def elim: response_of_filter.elims split: if_splits)
  from assms(1) d(1) show ?thesis
  proof (cases rule: handle_inner_answer)
    case (Parsed p cookie action reason)
    note a = handle_parsed_action [OF Parsed(5)]
    then have act: "action = ProvideTime" and req: "hid_nts d \<or> require_nts (srv_config srv) = None"
      using d(2) by (auto split: if_splits)
    then have "require_nts (srv_config srv) \<noteq> None \<longrightarrow> cookie \<noteq> None" using a(4) by auto
    then show ?thesis using pol Parsed(1,3,4) act a(2) by auto
  next
    case (Undecryptable p action reason)
    from handle_parsed_action(5) [OF Undecryptable(4)] d(2) show ?thesis by (auto split: if_splits)
  qed
qed

section \<open>Authenticated requests are answered\<close>

lemma opt_cipher_the: "opt_cipher (Some c) = the_cipher c"
  by (simp add: fun_eq_iff opt_cipher_def the_cipher_def)

lemma packet_serialize_desired:
  assumes "packet_serialize A nonce p provider None w0 = Inr w" "d \<le> cur_pos w - cur_pos w0"
  shows "packet_serialize A nonce p provider (Some d) w0 = Inr w"
proof (cases "header p")
  case (HV5 h)
  with assms(1) obtain x y where "h5_serialize h w0 = Inr x" "efdata_serialize A nonce (efdata p) provider EfV5 x = Inr y"
    "(case packet_mac p of None \<Rightarrow> Inr y | Some m \<Rightarrow> mac_serialize m y) = Inr w"
    by (auto simp: packet_serialize_def Let_def bindR_eq_Inr_iff)
  with HV5 assms(2) show ?thesis by (simp add: packet_serialize_def Let_def)
qed (use assms in \<open>simp_all add: packet_serialize_def Let_def\<close>)

lemma request_as_read:
  assumes "(req, rid) \<in> {nts_poll_message t uid cookie n i, nts_poll_message_v5 (ts_to_bits t) uid cookie n i}"
  shows "packet_mode (req\<lparr>header := header_as_read (header req)\<rparr>) = Client"
    "packet_version (req\<lparr>header := header_as_read (header req)\<rparr>) = packet_version req"
  using assms
  by (auto simp: nts_poll_message_def nts_poll_message_v5_def h4_poll_message_def h5_poll_message_def
      packet_mode_def packet_version_def fix_leap_indicator_def h5_new_def)

lemma time_response_run:
  assumes "server_inv srv" "\<not> filtered (srv_config srv) ip" "snd (rate_check env srv ip)"
    and "packet_deserialize (env_aead env) message (keyset_get (env_aead env) (srv_keyset srv)) = Inr (p, cookie)"
    and "packet_mode p = Client" "packet_version p \<in> set (accepted_versions (srv_config srv))"
    and "cookie \<noteq> None \<or> require_nts (srv_config srv) = None"
    and "build_response env (after_policy env srv ip) recv message ProvideTime p cookie = Some (q, c, desired)"
    and "packet_serialize (env_aead env) (env_seal_nonce env) q (opt_cipher c) desired (new_cursor buffer) = Inr w"
  shows "handle env srv ip recv message buffer = Some (after_policy env srv ip,
    [\<lparr>stat_version = version_as_u8 (packet_version p), stat_nts = (cookie \<noteq> None), stat_reason = Policy,
      stat_response = ProvideTime\<rparr>], ActRespond (take (cur_pos w) (cur_buf w)))"
proof -
  have pol: "policy (srv_config srv) ip (snd (rate_check env srv ip)) = (ProvideTime, Policy)"
    using assms(2,3) by (auto simp: policy_def filtered_def)
  have "handle_parsed env (after_policy env srv ip) recv message ProvideTime Policy p cookie =
      Some (after_policy env srv ip, [],
        Some \<lparr>hid_action = ProvideTime, hid_reason = Policy, hid_version = packet_version p, hid_nts = (cookie \<noteq> None),
              hid_packet = q, hid_cipher = c, hid_desired_size = desired\<rparr>)"
    using assms(6-8) by (auto simp: handle_parsed_def Let_def)
  then have "handle_inner env srv ip recv message =
      Some (after_policy env srv ip, [],
        Some \<lparr>hid_action = ProvideTime, hid_reason = Policy, hid_version = packet_version p, hid_nts = (cookie \<noteq> None),
              hid_packet = q, hid_cipher = c, hid_desired_size = desired\<rparr>)"
    using assms(4,5) by (simp add: handle_inner_run [OF assms(1) pol])
  then show ?thesis using assms(9) by (simp add: handle_def)
qed

lemma nts_request_answer_full:
  assumes "server_inv srv" "\<not> filtered (srv_config srv) ip" "snd (rate_check env srv ip)"
    and "aead_correct (env_aead env)" "aead_overhead (env_aead env)"
    and "length nonce = 16" "length nonce' = 16" "\<And>j. length (env_cookie_nonces env j) = 16"
    and "length (env_server_cookie env) = 8" "length (env_seal_nonce env) = 16"
    and "info_in_range (srv_server_info srv) recv"
    and "cookie_wf keys" "encode_cookie (env_aead env) nonce' (srv_keyset srv) keys = Some cookie"
    and "(req, rid) \<in> {nts_poll_message t uid cookie n i, nts_poll_message_v5 (ts_to_bits t) uid cookie n i}"
      "length uid = 32" "1 \<le> unat n" "unat n \<le> 7"
    and "packet_version req \<in> set (accepted_versions (srv_config srv))"
    and "packet_serialize (env_aead env) nonce req (the_cipher (dsc_c2s keys)) None (new_cursor buf) = Inr w" "length buf \<le> 65500"
    and "message = take (cur_pos w) (cur_buf w)" "length buffer = length message"
  shows "\<exists>st resp resp0 resp'. handle env srv ip recv message buffer = Some (after_policy env srv ip, [st], ActRespond resp) \<and>
    stat_response st = ProvideTime \<and> stat_nts st \<and> length resp = length message \<and>
    packet_deserialize (env_aead env) resp (the_cipher (dsc_s2c keys)) = Inr (resp', None) \<and>
    valid_server_response resp' rid True \<and> length (new_cookies resp') = unat n \<and>
    (\<forall>c \<in> set (new_cookies resp'). \<exists>j. encode_cookie (env_aead env) (env_cookie_nonces env j) (srv_keyset srv) keys = Some c) \<and>
    nts_timestamp_response (env_aead env) (env_cookie_nonces env) (env_server_cookie env) (srv_server_info srv) req recv
      (env_now env) keys (srv_keyset srv) = Some resp0 \<and> header_close (header resp0) (header resp')"
proof -
  let ?A = "env_aead env" and ?ks = "srv_keyset srv" and ?info = "srv_server_info srv" and ?rnd = "env_server_cookie env"
  let ?req' = "req\<lparr>header := header_as_read (header req)\<rparr>"
  note rd = nts_request_read_back [OF assms(4,5,6,7,12,13,14,15,19,20), folded assms(21)]
  have p: "unat (ks_primary ?ks) < length (ks_keys ?ks)" using assms(1) by (simp add: server_inv_def Let_def)
  have c: "length cookie = length (dsc_plaintext keys) + 38" "length cookie < 65536"
    using encode_cookie_sealed [OF p assms(7,5), of keys] assms(13) length_sealed_cookie [OF assms(7,5)]
      length_encoded_cookie [OF assms(13,12,7,5)] by auto
  obtain resp where resp: "nts_timestamp_response ?A (env_cookie_nonces env) ?rnd ?info req recv (env_now env) keys ?ks = Some resp"
    by (rule nts_timestamp_response_packet [where nonces = "env_cookie_nonces env" and info = ?info and rnd = ?rnd
          and recv = recv and now = "env_now env", OF assms(14,16) c p assms(5,8)]) blast
  have v: "valid_server_response resp rid True"
    using nts_response_valid_iff [OF assms(14,14,15,15), of resp ?A "env_cookie_nonces env" ?rnd ?info recv "env_now env" keys ?ks] resp
    by simp
  have len: "length message = exchange_overhead (header req) + unat n * (length cookie + 4)" using rd(2) assms(16) by simp
  then have room: "exchange_overhead (header req) + min (unat n) 7 * (length cookie + 4) \<le> length buffer"
    using assms(17,22) by simp
  have "exchange_overhead (header req) \<le> 152" by (cases "header req") simp_all
  moreover have "unat n * (length cookie + 4) \<le> 7 * 172"
    using length_encoded_cookie [OF assms(13,12,7,5)] assms(17) by (intro mult_le_mono) auto
  ultimately have small: "length buffer \<le> 65500" using len assms(22) by linarith
  obtain w' resp' where w': "packet_serialize ?A (env_seal_nonce env) resp (the_cipher (dsc_s2c keys)) None (new_cursor buffer) = Inr w'"
    "length (take (cur_pos w') (cur_buf w')) = exchange_overhead (header req) + min (unat n) 7 * (length cookie + 4)"
    "packet_deserialize ?A (take (cur_pos w') (cur_buf w')) (the_cipher (dsc_s2c keys)) = Inr (resp', None)"
    "header_close (header resp) (header resp')" "efdata resp = efdata resp'" "length (new_cookies resp') = min (unat n) 7"
    "\<forall>c \<in> set (new_cookies resp'). decode_cookie ?A ?ks c = Some keys \<and>
       (\<exists>j. encode_cookie ?A (env_cookie_nonces env j) ?ks keys = Some c)"
    by (rule nts_response_reads_back [where nonces = "env_cookie_nonces env",
          OF assms(4,5,10,8,12,13,7,14,15,16,11,9) resp room small])
  have l': "length (take (cur_pos w') (cur_buf w')) = length message" using w'(2) len assms(17) by simp
  then have "length message \<le> cur_pos w' - cur_pos (new_cursor buffer)" by (simp add: new_cursor_def)
  from packet_serialize_desired [OF w'(1) this]
  have ser: "packet_serialize ?A (env_seal_nonce env) resp (opt_cipher (Some (dsc_s2c keys))) (Some (length message)) (new_cursor buffer) = Inr w'"
    by (simp add: opt_cipher_the)
  have build: "build_response env (after_policy env srv ip) recv message ProvideTime ?req' (Some keys) =
      Some (resp, Some (dsc_s2c keys), Some (length message))"
    using resp by (simp add: build_response_def response_to_read_request)
  have acc: "packet_version ?req' \<in> set (accepted_versions (srv_config srv))" using request_as_read(2) [OF assms(14)] assms(18) by simp
  have "valid_server_response resp' rid True" using v header_close_valid(1) [OF w'(4,5)] by blast
  moreover have "length (new_cookies resp') = unat n" using w'(6) assms(17) by simp
  ultimately show ?thesis
    using time_response_run [OF assms(1-3) rd(1) request_as_read(1) [OF assms(14)] acc _ build ser] l' w'(3,4,7) resp by auto
qed

lemma nts_request_answer:
  assumes "server_inv srv" "\<not> filtered (srv_config srv) ip" "snd (rate_check env srv ip)"
    and "aead_correct (env_aead env)" "aead_overhead (env_aead env)"
    and "length nonce = 16" "length nonce' = 16" "\<And>j. length (env_cookie_nonces env j) = 16"
    and "length (env_server_cookie env) = 8" "length (env_seal_nonce env) = 16"
    and "info_in_range (srv_server_info srv) recv"
    and "cookie_wf keys" "encode_cookie (env_aead env) nonce' (srv_keyset srv) keys = Some cookie"
    and "(req, rid) \<in> {nts_poll_message t uid cookie n i, nts_poll_message_v5 (ts_to_bits t) uid cookie n i}"
      "length uid = 32" "1 \<le> unat n" "unat n \<le> 7"
    and "packet_version req \<in> set (accepted_versions (srv_config srv))"
    and "packet_serialize (env_aead env) nonce req (the_cipher (dsc_c2s keys)) None (new_cursor buf) = Inr w" "length buf \<le> 65500"
    and "message = take (cur_pos w) (cur_buf w)" "length buffer = length message"
  shows "\<exists>srv' st resp resp'. handle env srv ip recv message buffer = Some (srv', [st], ActRespond resp) \<and>
    stat_response st = ProvideTime \<and> stat_nts st \<and> length resp = length message \<and>
    packet_deserialize (env_aead env) resp (the_cipher (dsc_s2c keys)) = Inr (resp', None) \<and>
    valid_server_response resp' rid True \<and> length (new_cookies resp') = unat n"
  using nts_request_answer_full [OF assms] by blast

text \<open>
  C3: a client with a cookie gets an answer it accepts. When the server allows the client's address,
  its rate and the version, and the client asks for at most seven cookies, the server answers the
  bytes of an authenticated request, in a buffer of just their length, with the time and registers
  that it did; the answer is as long as the request, and the client decrypts it, accepts it for
  this request and takes from it as many cookies as it asked for.
\<close>
theorem nts_request_is_answered:
  assumes "server_inv srv" "\<not> filtered (srv_config srv) ip" "snd (rate_check env srv ip)"
    and "aead_correct (env_aead env)" "aead_overhead (env_aead env)"
    and "length nonce = 16" "length nonce' = 16" "\<And>j. length (env_cookie_nonces env j) = 16"
    and "length (env_server_cookie env) = 8" "length (env_seal_nonce env) = 16"
    and "info_in_range (srv_server_info srv) recv"
    and "cookie_wf keys" "encode_cookie (env_aead env) nonce' (srv_keyset srv) keys = Some cookie"
    and "(req, rid) \<in> {nts_poll_message t uid cookie n i, nts_poll_message_v5 (ts_to_bits t) uid cookie n i}"
      "length uid = 32" "1 \<le> unat n" "unat n \<le> 7"
    and "packet_version req \<in> set (accepted_versions (srv_config srv))"
    and "packet_serialize (env_aead env) nonce req (the_cipher (dsc_c2s keys)) None (new_cursor buf) = Inr w" "length buf \<le> 65500"
    and "message = take (cur_pos w) (cur_buf w)" "length buffer = length message"
  shows "\<exists>srv' st resp resp'. handle env srv ip recv message buffer = Some (srv', [st], ActRespond resp) \<and>
    stat_response st = ProvideTime \<and> stat_nts st \<and> length resp = length message \<and>
    packet_deserialize (env_aead env) resp (the_cipher (dsc_s2c keys)) = Inr (resp', None) \<and>
    valid_server_response resp' rid True \<and> length (new_cookies resp') = unat n"
  using assms by (rule nts_request_answer)

lemma example_client_allowed:
  assumes "srv_config srv = example_config" "srv_client_cache srv = []"
  shows "\<not> filtered (srv_config srv) (IpV4 7)" "snd (rate_check example_env srv (IpV4 7))"
  using assms
  by (simp_all add: filtered_def example_config_def subnet_contains_def checked_shl_def rate_check_def is_allowed_def)

lemma example_in_range: "info_in_range example_info recv"
  by (simp add: info_in_range_def example_info_def duration_in_range_def dur_ZERO_def)

lemma example_request_in:
  "(fst example_request, snd example_request) \<in>
     {nts_poll_message (NtpTimestamp 9) (replicate 32 5) example_sealed 2 (PollInterval 4),
      nts_poll_message_v5 (ts_to_bits (NtpTimestamp 9)) (replicate 32 5) example_sealed 2 (PollInterval 4)}"
  "packet_version (fst example_request) = NtpV4"
  by (simp_all add: example_request_def nts_poll_message_def h4_poll_message_def packet_version_def)

lemma example_cookie_wf: "cookie_wf example_cookie"
  by (simp add: example_cookie_def)

lemma example_env_facts:
  "env_aead example_env = example_aead" "length (env_cookie_nonces example_env j) = 16"
  "length (env_server_cookie example_env) = 8" "length (env_seal_nonce example_env) = 16"
  by (simp_all add: example_env_def)

theorem nts_request_is_answered_witness:
  "\<exists>srv w srv' st resp resp'.
     server_new example_config example_info example_ks = Some srv \<and>
     packet_serialize example_aead (replicate 16 0) (fst example_request) (the_cipher (dsc_c2s example_cookie)) None
       (new_cursor (replicate 400 0)) = Inr w \<and>
     handle example_env srv (IpV4 7) (NtpTimestamp 5) (take (cur_pos w) (cur_buf w))
       (replicate (length (take (cur_pos w) (cur_buf w))) 0) = Some (srv', [st], ActRespond resp) \<and>
     stat_response st = ProvideTime \<and>
     packet_deserialize example_aead resp (the_cipher (dsc_s2c example_cookie)) = Inr (resp', None) \<and>
     valid_server_response resp' (snd example_request) True \<and> length (new_cookies resp') = 2"
proof -
  obtain srv where srv: "server_new example_config example_info example_ks = Some srv" "server_inv srv"
    "srv_config srv = example_config" "srv_keyset srv = example_ks" "srv_server_info srv = example_info" "srv_client_cache srv = []"
    using example_server by blast
  obtain w where w: "packet_serialize example_aead (replicate 16 0) (fst example_request) (the_cipher (dsc_c2s example_cookie)) None
       (new_cursor (replicate 400 0)) = Inr w" using example_request_fits by blast
  have "\<exists>srv' st resp resp'. handle example_env srv (IpV4 7) (NtpTimestamp 5) (take (cur_pos w) (cur_buf w))
       (replicate (length (take (cur_pos w) (cur_buf w))) 0) = Some (srv', [st], ActRespond resp) \<and>
     stat_response st = ProvideTime \<and> stat_nts st \<and> length resp = length (take (cur_pos w) (cur_buf w)) \<and>
     packet_deserialize (env_aead example_env) resp (the_cipher (dsc_s2c example_cookie)) = Inr (resp', None) \<and>
     valid_server_response resp' (snd example_request) True \<and> length (new_cookies resp') = unat (2 :: byte)"
    by (rule nts_request_is_answered [where nonce = "replicate 16 0" and nonce' = "replicate 16 7" and buf = "replicate 400 0"
          and cookie = example_sealed and uid = "replicate 32 5", OF srv(2) example_client_allowed [OF srv(3,6)]
          _ _ _ _ _ _ _ _ example_cookie_wf _ example_request_in(1)])
      (simp_all add: example_env_facts example_aead_ok srv example_in_range example_encode example_request_in(2) w,
       simp add: example_config_def)
  then show ?thesis using srv(1) w by (auto simp: example_env_facts)
qed

lemma example_answered:
  "\<exists>srv message srv' st resp.
     server_new example_config example_info example_ks = Some srv \<and> server_inv srv \<and> srv_config srv = example_config \<and>
     handle example_env srv (IpV4 7) (NtpTimestamp 5) message (replicate (length message) 0) = Some (srv', [st], ActRespond resp) \<and>
     stat_response st = ProvideTime"
proof -
  obtain srv where srv: "server_new example_config example_info example_ks = Some srv" "server_inv srv"
    "srv_config srv = example_config" "srv_keyset srv = example_ks" "srv_server_info srv = example_info" "srv_client_cache srv = []"
    using example_server by blast
  obtain w where w: "packet_serialize example_aead (replicate 16 0) (fst example_request) (the_cipher (dsc_c2s example_cookie)) None
       (new_cursor (replicate 400 0)) = Inr w" using example_request_fits by blast
  define message where "message = take (cur_pos w) (cur_buf w)"
  have "\<exists>srv' st resp resp'. handle example_env srv (IpV4 7) (NtpTimestamp 5) message
       (replicate (length message) 0) = Some (srv', [st], ActRespond resp) \<and>
     stat_response st = ProvideTime \<and> stat_nts st \<and> length resp = length message \<and>
     packet_deserialize (env_aead example_env) resp (the_cipher (dsc_s2c example_cookie)) = Inr (resp', None) \<and>
     valid_server_response resp' (snd example_request) True \<and> length (new_cookies resp') = unat (2 :: byte)"
    by (rule nts_request_answer [where nonce = "replicate 16 0" and nonce' = "replicate 16 7" and buf = "replicate 400 0"
          and cookie = example_sealed and uid = "replicate 32 5", OF srv(2) example_client_allowed [OF srv(3,6)]
          _ _ _ _ _ _ _ _ example_cookie_wf _ example_request_in(1)])
      (simp_all add: example_env_facts example_aead_ok srv example_in_range example_encode example_request_in(2) w message_def,
       simp add: example_config_def)
  with srv show ?thesis by blast
qed

theorem time_only_for_authorised_clients_witness:
  "\<exists>srv message srv' st resp.
     server_new example_config example_info example_ks = Some srv \<and>
     handle example_env srv (IpV4 7) (NtpTimestamp 5) message (replicate (length message) 0) = Some (srv', [st], ActRespond resp) \<and>
     stat_response st = ProvideTime \<and> \<not> filtered example_config (IpV4 7) \<and> snd (rate_check example_env srv (IpV4 7))"
proof -
  obtain srv message srv' st resp where h: "server_new example_config example_info example_ks = Some srv" "server_inv srv"
    "srv_config srv = example_config"
    "handle example_env srv (IpV4 7) (NtpTimestamp 5) message (replicate (length message) 0) = Some (srv', [st], ActRespond resp)"
    "stat_response st = ProvideTime"
    using example_answered by blast
  have "st \<in> set [st]" by simp
  from time_only_for_authorised_clients [OF h(2,4) this h(5)]
  have "\<not> filtered example_config (IpV4 7)" "snd (rate_check example_env srv (IpV4 7))" by (simp_all add: h(3))
  with h(1,4,5) show ?thesis by blast
qed

section \<open>The rate limiter\<close>

text \<open>The cache after a sequence of requests, each an address and an instant.\<close>

fun cache_after :: "(ip_addr \<Rightarrow> u64) \<Rightarrow> nat \<Rightarrow> timestamped_cache \<Rightarrow> (ip_addr \<times> nat) list \<Rightarrow> timestamped_cache" where
  "cache_after hash cutoff cache [] = cache"
| "cache_after hash cutoff cache ((ip, t) # reqs) = cache_after hash cutoff (fst (is_allowed hash cache ip t cutoff)) reqs"

text \<open>The reference: the last request that fell into a slot.\<close>

definition last_in_slot :: "(ip_addr \<Rightarrow> u64) \<Rightarrow> nat \<Rightarrow> nat \<Rightarrow> (ip_addr \<times> nat) list \<Rightarrow> (ip_addr \<times> nat) option" where
  "last_in_slot hash n slot reqs =
     (let rs = filter (\<lambda>(ip, _). unat (hash ip) mod n = slot) reqs in if rs = [] then None else Some (last rs))"

lemma cache_after_append:
  "cache_after hash cutoff cache (xs @ ys) = cache_after hash cutoff (cache_after hash cutoff cache xs) ys"
  by (induction hash cutoff cache xs rule: cache_after.induct) simp_all

lemma length_cache_after [simp]: "length (cache_after hash cutoff cache reqs) = length cache"
  by (induction hash cutoff cache reqs rule: cache_after.induct) simp_all

lemma cache_after_slot:
  assumes "slot < n"
  shows "cache_after hash cutoff (cache_new n) reqs ! slot = last_in_slot hash n slot reqs"
proof (induction reqs rule: rev_induct)
  case Nil
  then show ?case using assms by (simp add: cache_new_def last_in_slot_def)
next
  case (snoc r reqs)
  obtain ip t where r: "r = (ip, t)" by (cases r)
  let ?c = "cache_after hash cutoff (cache_new n) reqs"
  have l: "length ?c = n" "?c \<noteq> []" using assms by (auto simp: cache_new_def dest: arg_cong [of _ _ length])
  then have "fst (is_allowed hash ?c ip t cutoff) = ?c[unat (hash ip) mod n := Some (ip, t)]"
    by (simp add: is_allowed_def Let_def cache_index_def)
  moreover have "unat (hash ip) mod n < n" using assms by simp
  ultimately show ?case
    using snoc l by (auto simp: r cache_after_append last_in_slot_def Let_def nth_list_update)
qed

text \<open>
  C31: the rate limiter refuses a request exactly when the last request that fell into its slot came
  from the same address and less than the cutoff ago. It never refuses an address for the requests
  of another, a cache of size zero refuses nothing, and a clock that goes backwards counts as no
  time passed.
\<close>
theorem rate_limiter_remembers_the_last_of_a_slot:
  "\<not> snd (is_allowed hash (cache_after hash cutoff (cache_new n) reqs) ip t cutoff) \<longleftrightarrow>
     0 < n \<and>
     (\<exists>t'. last_in_slot hash n (unat (hash ip) mod n) reqs = Some (ip, t') \<and> t - t' < cutoff)"
proof (cases "n = 0")
  case True
  have "length (cache_after hash cutoff (cache_new n) reqs) = 0" using True by (simp add: cache_new_def)
  then have "cache_after hash cutoff (cache_new n) reqs = []" by (simp only: length_0_conv)
  with True show ?thesis by (simp only: is_allowed_def) simp
next
  case False
  then have s: "unat (hash ip) mod n < n" by simp
  have l: "length (cache_after hash cutoff (cache_new n) reqs) = n" by (simp add: cache_new_def)
  have "cache_after hash cutoff (cache_new n) reqs \<noteq> []"
  proof
    assume "cache_after hash cutoff (cache_new n) reqs = []"
    with l False show False by (simp only: list.size)
  qed
  with l False show ?thesis
    by (auto simp: is_allowed_def Let_def cache_index_def cache_after_slot [OF s] split: option.splits prod.splits)
qed

section \<open>Kiss codes\<close>

text \<open>
  A client recognises each refusal for what it is. A denial reads as a denial, the refusal of a
  cookie as that, and a rate limit as a demand to poll less often than the request said, in every
  version that has it, and none of them reads as one of the others.
\<close>
lemma kiss_responses_are_recognised:
  "is_kiss_deny (deny_response rnd p) \<and> \<not> is_kiss_ntsn (deny_response rnd p) \<and> \<not> is_kiss_rate own (deny_response rnd p) \<and>
   (as_log (packet_poll p) < 126 \<longrightarrow> own = packet_poll p \<longrightarrow>
      is_kiss_rate own (rate_limit_response rnd p) \<and> \<not> is_kiss_deny (rate_limit_response rnd p) \<and>
      \<not> is_kiss_ntsn (rate_limit_response rnd p)) \<and>
   (\<forall>q. nts_nak_response rnd p = Some q \<longrightarrow> is_kiss_ntsn q \<and> \<not> is_kiss_deny q \<and> \<not> (0 \<le> as_log own \<and> is_kiss_rate own q))"
proof -
  have inc: "as_log (poll_force_inc i) = as_log i + 1" if "as_log i < 126" for i
    using that sint_ge [of "poll_byte i"]
    by (simp add: poll_force_inc_def sint_word_of_int_byte del: of_int_add wi_hom_add)
  note k = is_kiss_deny_def is_kiss_rate_def is_kiss_ntsn_def is_kiss_def packet_stratum_def kiss_code_def
    is_deny_def is_rate_def is_ntsn_def kiss_code_defs
  have never: "as_log poll_NEVER = 127" by (simp add: poll_NEVER_def)
  show ?thesis
  proof (cases "header p")
    case (HV5 h)
    have "poll_force_inc (h5_poll h) \<noteq> poll_NEVER" "h5_poll h < poll_force_inc (h5_poll h)" if "as_log (h5_poll h) < 126"
      using inc [OF that] that never by (auto simp: less_poll_interval_def)
    with HV5 show ?thesis
      by (auto simp: response_defs header_response_defs k Let_def h5_new_def poll_NEVER_def packet_poll_def
          poll_from_byte_def less_poll_interval_def)
  qed (auto simp: response_defs header_response_defs k Let_def)
qed

lemma kiss_responses_are_recognised_witness:
  "is_kiss_rate (PollInterval 6) (rate_limit_response (replicate 8 0)
     \<lparr>header = HV5 (h5_new\<lparr>h5_poll := PollInterval 6\<rparr>), efdata = ext_field_data_default, packet_mac = None\<rparr>)"
  using kiss_responses_are_recognised [of "replicate 8 0"
      "\<lparr>header = HV5 (h5_new\<lparr>h5_poll := PollInterval 6\<rparr>), efdata = ext_field_data_default, packet_mac = None\<rparr>" "PollInterval 6"]
  by (simp add: packet_poll_def)

end
