(* ===== verification/Ntp_Config.thy ===== *)
theory Ntp_Config
  imports Time_Types Identifiers
begin

text \<open>
  The configuration of sources and of the synchronisation (\<^verbatim>\<open>ntp-proto/src/config.rs\<close>). The visitors that
  read it get what the deserialiser hands them as arguments: a string as its code points, a map as
  the sequence of its keys with the outcome of reading each value.
\<close>

record source_config =
  cfg_poll_interval_limits :: poll_interval_limits
  cfg_initial_poll_interval :: poll_interval

definition default_initial_poll_interval :: poll_interval where
  "default_initial_poll_interval = pil_min default_poll_interval_limits"

definition source_config_default :: source_config where
  "source_config_default =
     \<lparr>cfg_poll_interval_limits = default_poll_interval_limits,
      cfg_initial_poll_interval = default_initial_poll_interval\<rparr>"

section \<open>Reference identifiers\<close>

datatype reference_id_config = ReferenceIdConfig (config_id: u32)

definition to_reference_id :: "reference_id_config \<Rightarrow> reference_id" where
  "to_reference_id c = refid_from_int (config_id c)"

datatype de_error = InvalidLength nat | InvalidValue string | DuplicateField string | UnknownField string

definition encode_chars :: "u32 list \<Rightarrow> u32" where
  "encode_chars cs = foldl (\<lambda>acc c. push_bit 8 acc OR c) 0 cs"

definition reference_id_visit_str :: "u32 list \<Rightarrow> de_error + reference_id_config" where
  "reference_id_visit_str chars =
     (if length chars > 4 then Inl (InvalidLength (length chars))
      else Inr (ReferenceIdConfig (encode_chars (chars @ replicate (4 - length chars) 0x20))))"

definition default_reference_id :: reference_id_config where
  "default_reference_id = ReferenceIdConfig (encode_chars [0x58, 0x4E, 0x4F, 0x4E])"

section \<open>Thresholds on the steps of the clock\<close>

record step_threshold =
  step_forward :: "ntp_duration option"
  step_backward :: "ntp_duration option"

definition step_is_within :: "step_threshold \<Rightarrow> ntp_duration \<Rightarrow> bool" where
  "step_is_within t d \<longleftrightarrow>
     (case step_forward t of None \<Rightarrow> True | Some v \<Rightarrow> d < v) \<and>
     (case step_backward t of None \<Rightarrow> True | Some v \<Rightarrow> d > dur_neg v)"

definition threshold_part_visit_str :: "string \<Rightarrow> de_error + ntp_duration option" where
  "threshold_part_visit_str v = (if v \<noteq> ''inf'' then Inl (InvalidValue v) else Inr None)"

definition step_threshold_visit_str :: "string \<Rightarrow> de_error + step_threshold" where
  "step_threshold_visit_str v =
     (if v \<noteq> ''inf'' then Inl (InvalidValue v) else Inr \<lparr>step_forward = None, step_backward = None\<rparr>)"

fun step_threshold_visit_entries ::
  "(string \<times> (de_error + ntp_duration option)) list \<Rightarrow> ntp_duration option option \<Rightarrow> ntp_duration option option \<Rightarrow>
   de_error + step_threshold" where
  "step_threshold_visit_entries [] forward backward =
     Inr \<lparr>step_forward = Option.bind forward id, step_backward = Option.bind backward id\<rparr>"
| "step_threshold_visit_entries ((key, val) # rest) forward backward =
     (if key = ''forward'' then
        if forward \<noteq> None then Inl (DuplicateField ''forward'')
        else bindR val (\<lambda>raw. step_threshold_visit_entries rest (Some raw) backward)
      else if key = ''backward'' then
        if backward \<noteq> None then Inl (DuplicateField ''backward'')
        else bindR val (\<lambda>raw. step_threshold_visit_entries rest forward (Some raw))
      else Inl (UnknownField key))"

definition step_threshold_visit_map :: "(string \<times> (de_error + ntp_duration option)) list \<Rightarrow> de_error + step_threshold" where
  "step_threshold_visit_map entries = step_threshold_visit_entries entries None None"

definition accumulated_step_panic_threshold :: "ntp_duration \<Rightarrow> ntp_duration option" where
  "accumulated_step_panic_threshold d = (if d = dur_ZERO then None else Some d)"

section \<open>Synchronisation\<close>

record synchronization_config =
  minimum_agreeing_sources :: nat
  single_step_panic_threshold :: step_threshold
  startup_step_panic_threshold :: step_threshold
  accumulated_threshold :: "ntp_duration option"
  cfg_local_stratum :: byte
  cfg_reference_id :: reference_id_config
  warn_on_jump :: bool

text \<open>\<^verbatim>\<open>from_seconds\<close> is exact on the whole numbers used here.\<close>

definition whole_seconds :: "nat \<Rightarrow> ntp_duration" where
  "whole_seconds n = NtpDuration (push_bit 32 (of_nat n))"

definition default_single_step_panic_threshold :: step_threshold where
  "default_single_step_panic_threshold =
     \<lparr>step_forward = Some (whole_seconds 1000), step_backward = Some (whole_seconds 1000)\<rparr>"

definition default_startup_step_panic_threshold :: step_threshold where
  "default_startup_step_panic_threshold = \<lparr>step_forward = None, step_backward = Some (whole_seconds 86400)\<rparr>"

definition synchronization_config_default :: synchronization_config where
  "synchronization_config_default =
     \<lparr>minimum_agreeing_sources = 3, single_step_panic_threshold = default_single_step_panic_threshold,
      startup_step_panic_threshold = default_startup_step_panic_threshold, accumulated_threshold = None,
      cfg_local_stratum = 16, cfg_reference_id = default_reference_id, warn_on_jump = True\<rparr>"

section \<open>What a configured reference identifier is\<close>

lemma foldl_encode:
  assumes "\<forall>c \<in> set cs. unat c < 256"
  shows "foldl (\<lambda>acc c. push_bit 8 acc OR c) acc cs = push_bit (8 * length cs) acc OR from_be (map ucast cs)"
  using assms
proof (induction cs arbitrary: acc)
  case (Cons c cs)
  have "ucast (ucast c :: byte) = c"
    using Cons.prems by (simp add: unsigned_ucast_eq word_unat_eq_iff unsigned_take_bit_eq take_bit_nat_eq_self)
  with Cons show ?case by (simp add: push_bit_or push_bit_push_bit ac_simps)
qed simp

lemma encode_ascii:
  assumes "length cs = 4" "\<forall>c \<in> set cs. unat c < 256"
  shows "refid_to_bytes (refid_from_int (encode_chars cs)) = map ucast cs"
proof -
  have "encode_chars cs = from_be (map ucast cs)" using foldl_encode [OF assms(2), of 0] by (simp add: encode_chars_def)
  with assms(1) show ?thesis by (simp add: refid_to_bytes_def refid_from_int_def)
qed

lemma configured_reference_id:
  assumes "length chars \<le> 4" "\<forall>c \<in> set chars. unat c < 256"
  obtains c where "reference_id_visit_str chars = Inr c"
    "refid_to_bytes (to_reference_id c) = map ucast chars @ replicate (4 - length chars) 0x20"
proof -
  have "refid_to_bytes (refid_from_int (encode_chars (chars @ replicate (4 - length chars) 0x20))) =
      map ucast (chars @ replicate (4 - length chars) 0x20)"
    using assms by (intro encode_ascii) auto
  with assms(1) that show thesis by (simp add: reference_id_visit_str_def to_reference_id_def)
qed

lemma step_within_range:
  assumes "\<And>v. step_forward t = Some v \<Longrightarrow> 0 \<le> dur_val v" "\<And>v. step_backward t = Some v \<Longrightarrow> 0 \<le> dur_val v"
  shows "step_is_within t d \<longleftrightarrow>
    (\<forall>v. step_forward t = Some v \<longrightarrow> dur_val d < dur_val v) \<and> (\<forall>v. step_backward t = Some v \<longrightarrow> - dur_val v < dur_val d)"
proof -
  have "dur_val (dur_neg v) = - dur_val v" if "0 \<le> dur_val v" for v
    using that sint_u64_bounds [of "duration v"] by (simp add: dur_neg_def sint_word_ariths signed_take_bit_int_eq_self)
  with assms show ?thesis
    by (auto simp: step_is_within_def less_ntp_duration_def split: option.splits)
qed

end
