(* ===== verification/Ntp_Source.thy ===== *)
theory Ntp_Source
  imports Packet_Wire Ntp_Config
begin

text \<open>
  A time source: the client that polls one server (\<^verbatim>\<open>ntp-proto/src/source.rs\<close>). Its two handlers
  \<open>handle_timer\<close> and \<open>handle_incoming\<close> are functions on the state of the source and on the snapshots
  that all sources share; the result \<open>None\<close> is a panic. The filter and steering algorithm behind a
  source is a parameter, as it is in the code: the record \<open>source_controller\<close> has the operations of the
  trait \<^verbatim>\<open>SourceController\<close> that the handlers call.
\<close>

section \<open>Measurements and the controller\<close>

datatype clock_id = ClockId u64

definition CLOCK_SYSTEM :: clock_id where
  "CLOCK_SYSTEM = ClockId 0"

record measurement =
  m_sender_id :: clock_id
  m_receiver_id :: clock_id
  m_sender_ts :: ntp_timestamp
  m_receiver_ts :: ntp_timestamp
  m_root_delay :: ntp_duration
  m_root_dispersion :: ntp_duration
  m_leap :: leap_indicator
  m_precision :: byte

record 'c source_controller =
  sc_handle_measurement :: "measurement \<Rightarrow> 'c \<Rightarrow> 'c"
  sc_set_usable :: "bool \<Rightarrow> 'c \<Rightarrow> 'c"
  sc_desired_poll_interval :: "'c \<Rightarrow> poll_interval"

definition MAX_STRATUM :: byte where
  "MAX_STRATUM = 16"

text \<open>Instants are in nanoseconds.\<close>

definition POLL_WINDOW :: nat where
  "POLL_WINDOW = 5 * 10 ^ 9"

definition STARTUP_TRIES_THRESHOLD :: nat where
  "STARTUP_TRIES_THRESHOLD = 3"

definition AFTER_UPGRADE_TRIES_THRESHOLD :: nat where
  "AFTER_UPGRADE_TRIES_THRESHOLD = 2"

section \<open>Reachability\<close>

datatype reach = Reach (reach_bits: byte)

definition reach_never :: reach where
  "reach_never = Reach 0"

definition is_reachable :: "reach \<Rightarrow> bool" where
  "is_reachable r \<longleftrightarrow> reach_bits r \<noteq> 0"

definition received_packet :: "reach \<Rightarrow> reach" where
  "received_packet r = Reach (reach_bits r OR 1)"

definition reach_poll :: "reach \<Rightarrow> reach" where
  "reach_poll r = Reach (push_bit 1 (reach_bits r))"

definition unanswered_polls :: "reach \<Rightarrow> nat" where
  "unanswered_polls r = trailing_zeros (reach_bits r)"

section \<open>Protocol versions\<close>

datatype protocol_version = PV4 | PV4UpgradingToV5 byte | PUpgradedToV5 | PV5

definition DEFAULT_UPGRADE_TRIES :: byte where
  "DEFAULT_UPGRADE_TRIES = 8"

fun is_expected_incoming_version :: "protocol_version \<Rightarrow> ntp_version \<Rightarrow> bool" where
  "is_expected_incoming_version PV4 v \<longleftrightarrow> v = NtpV4 \<or> v = NtpV3"
| "is_expected_incoming_version (PV4UpgradingToV5 _) v \<longleftrightarrow> v = NtpV4"
| "is_expected_incoming_version PUpgradedToV5 v \<longleftrightarrow> v = NtpV5"
| "is_expected_incoming_version PV5 v \<longleftrightarrow> v = NtpV5"

definition v4_upgrading_to_v5_with_default_tries :: protocol_version where
  "v4_upgrading_to_v5_with_default_tries = PV4UpgradingToV5 DEFAULT_UPGRADE_TRIES"

section \<open>The state of a source\<close>

record source_nts_data =
  nts_cookies :: cookie_stash
  nts_c2s :: cipher
  nts_s2c :: cipher

record socket_addr =
  sa_ip :: ip_addr
  sa_port :: u16

record 'c ntp_source =
  src_nts :: "source_nts_data option"
  src_last_poll_interval :: poll_interval
  src_remote_min_poll_interval :: poll_interval
  src_current_request_identifier :: "(request_identifier \<times> nat) option"
  src_have_deny_rstr_response :: bool
  src_stratum :: byte
  src_reference_id :: reference_id
  src_source_addr :: socket_addr
  src_source_id :: reference_id
  src_reach :: reach
  src_tries :: nat
  src_controller :: 'c
  src_source_config :: source_config
  src_buffer :: bytes
  src_protocol_version :: protocol_version
  src_bloom_filter :: remote_bloom_filter
  src_id :: clock_id

record ntp_source_snapshot =
  ss_source_addr :: socket_addr
  ss_source_id :: reference_id
  ss_poll_interval :: poll_interval
  ss_reach :: reach
  ss_stratum :: byte
  ss_reference_id :: reference_id
  ss_protocol_version :: protocol_version
  ss_bloom_filter :: "bloom_filter option"

type_synonym source_snapshots = "clock_id \<rightharpoonup> ntp_source_snapshot"

record ntp_source_info =
  info_ip_list :: "ip_addr list"
  info_server_id :: server_id
  info_local_stratum :: byte

datatype ntp_source_action = Send bytes | SetTimer nat | Reset | Demobilize

datatype accept_synchronization_error = ServerUnreachable | SyncLoop | SyncDistance | SyncStratum

text \<open>What one call takes from outside: the ciphers, the hash for addresses, the time and random values.\<close>

record source_env =
  se_aead :: aead
  se_md5 :: "bytes \<Rightarrow> bytes"
  se_now :: nat
  se_transmit :: ntp_timestamp
  se_client_cookie :: bytes
  se_uid :: bytes
  se_nonce :: bytes
  se_jitter :: "u64 \<Rightarrow> nat"

definition accept_synchronization ::
  "(bytes \<Rightarrow> bytes) \<Rightarrow> ntp_source_snapshot \<Rightarrow> byte \<Rightarrow> ip_addr list \<Rightarrow> server_id \<Rightarrow> accept_synchronization_error + unit" where
  "accept_synchronization md5 s local_stratum local_ips sid =
     (if ss_stratum s \<ge> local_stratum then Inl SyncStratum
      else if ss_stratum s \<noteq> 1 \<and> (\<exists>ip \<in> set local_ips. refid_from_ip md5 ip = ss_source_id s) then Inl SyncLoop
      else if (case ss_bloom_filter s of Some f \<Rightarrow> contains_id f sid | None \<Rightarrow> False) then Inl SyncLoop
      else if \<not> is_reachable (ss_reach s) then Inl ServerUnreachable
      else Inr ())"

definition snapshot_from_source :: "'c ntp_source \<Rightarrow> ntp_source_snapshot" where
  "snapshot_from_source s =
     \<lparr>ss_source_addr = src_source_addr s, ss_source_id = src_source_id s,
      ss_poll_interval = src_last_poll_interval s, ss_reach = src_reach s, ss_stratum = src_stratum s,
      ss_reference_id = src_reference_id s, ss_protocol_version = src_protocol_version s,
      ss_bloom_filter = full_filter (src_bloom_filter s)\<rparr>"

definition source_new ::
  "(bytes \<Rightarrow> bytes) \<Rightarrow> socket_addr \<Rightarrow> source_config \<Rightarrow> protocol_version \<Rightarrow> 'c \<Rightarrow> source_nts_data option \<Rightarrow> clock_id \<Rightarrow>
   ('c ntp_source \<times> ntp_source_action list) option" where
  "source_new md5 addr config version controller nts sid =
     map_option (\<lambda>bloom.
       (\<lparr>src_nts = nts,
         src_last_poll_interval = pil_min (cfg_poll_interval_limits config),
         src_remote_min_poll_interval = pil_min (cfg_poll_interval_limits config),
         src_current_request_identifier = None,
         src_have_deny_rstr_response = False,
         src_stratum = 16,
         src_reference_id = REFID_NONE,
         src_source_addr = addr,
         src_source_id = refid_from_ip md5 (sa_ip addr),
         src_reach = reach_never,
         src_tries = 0,
         src_controller = controller,
         src_source_config = config,
         src_buffer = replicate 1024 0,
         src_protocol_version = version,
         src_bloom_filter = bloom,
         src_id = sid\<rparr>,
        [SetTimer 0]))
     (rbf_new 16)"

definition current_poll_interval :: "'c source_controller \<Rightarrow> 'c ntp_source \<Rightarrow> poll_interval" where
  "current_poll_interval C s = max (sc_desired_poll_interval C (src_controller s)) (src_remote_min_poll_interval s)"

text \<open>The end that both handlers share: publish a snapshot and tell the controller whether the source is usable.\<close>

definition publish ::
  "source_env \<Rightarrow> 'c source_controller \<Rightarrow> ntp_source_info \<Rightarrow> ntp_source_snapshot \<Rightarrow> source_snapshots \<Rightarrow> 'c ntp_source \<Rightarrow>
   source_snapshots \<times> 'c ntp_source" where
  "publish env C info snapshot snaps s =
     (let usable = (case accept_synchronization (se_md5 env) snapshot (info_local_stratum info) (info_ip_list info)
                           (info_server_id info) of Inr _ \<Rightarrow> True | Inl _ \<Rightarrow> False)
      in (snaps(src_id s \<mapsto> snapshot),
          s\<lparr>src_controller := sc_set_usable C usable (src_controller s)\<rparr>))"

section \<open>The timer\<close>

text \<open>The number of cookies to ask for, with a cookie in hand.\<close>

definition cookies_to_request :: "nat \<Rightarrow> cookie_stash \<Rightarrow> bytes \<Rightarrow> byte" where
  "cookies_to_request buffer_len stash cookie =
     min (stash_gap stash) (of_nat (min ((buffer_len - 300) div max (length cookie) 1) 255))"

text \<open>
  The request for a poll. The state comes back without the cookie that was taken; \<open>None\<close> is the
  early return of \<^verbatim>\<open>Reset\<close>.
\<close>

definition build_request ::
  "source_env \<Rightarrow> poll_interval \<Rightarrow> 'c ntp_source \<Rightarrow> 'c ntp_source \<times> (ntp_packet \<times> request_identifier) option" where
  "build_request env poll s =
     (case src_nts s of
        Some nts \<Rightarrow>
          let (c, stash) = stash_get (nts_cookies nts);
              s = s\<lparr>src_nts := Some (nts\<lparr>nts_cookies := stash\<rparr>)\<rparr>
          in (case c of
                None \<Rightarrow> (s, None)
              | Some cookie \<Rightarrow>
                  let n = cookies_to_request (length (src_buffer s)) stash cookie
                  in if n = 0 then (s, None)
                     else (s, Some (case src_protocol_version s of
                       PV4 \<Rightarrow> nts_poll_message (se_transmit env) (se_uid env) cookie n poll
                     | _ \<Rightarrow> nts_poll_message_v5 (se_client_cookie env) (se_uid env) cookie n poll)))
      | None \<Rightarrow>
          (s, Some (case src_protocol_version s of
             PV4 \<Rightarrow> poll_message (se_transmit env) poll
           | PV4UpgradingToV5 _ \<Rightarrow> poll_message_upgrade_request (se_transmit env) poll
           | _ \<Rightarrow> poll_message_v5 (se_client_cookie env) poll)))"

text \<open>The request for a part of the server's Bloom filter; \<open>None\<close> is the panic of \<open>next_request\<close>.\<close>

definition add_bloom_request :: "ntp_packet \<Rightarrow> 'c ntp_source \<Rightarrow> ('c ntp_source \<times> ntp_packet) option" where
  "add_bloom_request packet s =
     (case header packet of
        HV5 h \<Rightarrow>
          let (r, bloom) = next_request (src_bloom_filter s) (h5_client_cookie h)
          in map_option (\<lambda>ef. (s\<lparr>src_bloom_filter := bloom\<rparr>, push_additional (RefIdRequest ef) packet)) r
      | _ \<Rightarrow> Some (s, packet))"

definition start_poll :: "'c ntp_source \<Rightarrow> 'c ntp_source" where
  "start_poll s =
     (let s = (if src_protocol_version s = PUpgradedToV5 \<and> unanswered_polls (src_reach s) \<ge> AFTER_UPGRADE_TRIES_THRESHOLD
               then s\<lparr>src_protocol_version := PV4\<rparr> else s)
      in s\<lparr>src_reach := reach_poll (src_reach s), src_tries := min (src_tries s + 1) (2 ^ 64 - 1)\<rparr>)"

definition handle_timer ::
  "source_env \<Rightarrow> 'c source_controller \<Rightarrow> ntp_source_info \<Rightarrow> source_snapshots \<Rightarrow> 'c ntp_source \<Rightarrow>
   (source_snapshots \<times> 'c ntp_source \<times> ntp_source_action list) option" where
  "handle_timer env C info snaps s =
     (if \<not> is_reachable (src_reach s) \<and> src_tries s \<ge> STARTUP_TRIES_THRESHOLD then
        Some (snaps, s, if src_have_deny_rstr_response s then [Demobilize] else [Reset])
      else
        let s = start_poll s;
            poll = current_poll_interval C s
        in case build_request env poll s of
             (s, None) \<Rightarrow> Some (snaps, s, [Reset])
           | (s, Some (packet, identifier)) \<Rightarrow>
               let s = s\<lparr>src_current_request_identifier := Some (identifier, se_now env + POLL_WINDOW)\<rparr>
               in Option.bind (add_bloom_request packet s) (\<lambda>(s, packet).
                  let s = s\<lparr>src_last_poll_interval := poll\<rparr>;
                      snapshot = snapshot_from_source s
                  in case packet_serialize (se_aead env) (se_nonce env) packet
                            (opt_cipher (map_option nts_c2s (src_nts s))) None (new_cursor (src_buffer s)) of
                       Inl _ \<Rightarrow> None
                     | Inr w \<Rightarrow>
                         let s = s\<lparr>src_buffer := cur_buf w\<rparr>;
                             (snaps, s) = publish env C info snapshot snaps s
                         in Some (snaps, s,
                              [Send (take (cur_pos w) (cur_buf w)), SetTimer (se_jitter env (poll_as_system_duration poll))])))"

section \<open>Incoming packets\<close>

definition measurements_from_packet ::
  "ntp_packet \<Rightarrow> clock_id \<Rightarrow> ntp_timestamp \<Rightarrow> ntp_timestamp \<Rightarrow> measurement \<times> measurement" where
  "measurements_from_packet p sid send_time recv_time =
     (\<lparr>m_sender_id = CLOCK_SYSTEM, m_receiver_id = sid, m_sender_ts = send_time,
       m_receiver_ts = packet_receive_timestamp p, m_root_delay = packet_root_delay p,
       m_root_dispersion = packet_root_dispersion p, m_leap = packet_leap p, m_precision = packet_precision p\<rparr>,
      \<lparr>m_sender_id = sid, m_receiver_id = CLOCK_SYSTEM, m_sender_ts = packet_transmit_timestamp p,
       m_receiver_ts = recv_time, m_root_delay = packet_root_delay p,
       m_root_dispersion = packet_root_dispersion p, m_leap = packet_leap p, m_precision = packet_precision p\<rparr>)"

fun find_bloom_response :: "ext_field list \<Rightarrow> reference_id_response option" where
  "find_bloom_response [] = None"
| "find_bloom_response (RefIdResponse r # _) = Some r"
| "find_bloom_response (_ # efs) = find_bloom_response efs"

definition update_bloom_filter :: "ntp_packet \<Rightarrow> header_v5 \<Rightarrow> 'c ntp_source \<Rightarrow> 'c ntp_source option" where
  "update_bloom_filter p h s =
     (case find_bloom_response (if src_nts s \<noteq> None then authenticated (efdata p) else untrusted (efdata p)) of
        None \<Rightarrow> Some s
      | Some r \<Rightarrow>
          map_option (\<lambda>(_, bloom). s\<lparr>src_bloom_filter := bloom\<rparr>)
            (handle_response (src_bloom_filter s) (h5_client_cookie h) r))"

definition process_message ::
  "source_env \<Rightarrow> 'c source_controller \<Rightarrow> ntp_source_info \<Rightarrow> source_snapshots \<Rightarrow> 'c ntp_source \<Rightarrow> ntp_packet \<Rightarrow>
   ntp_timestamp \<Rightarrow> ntp_timestamp \<Rightarrow> (source_snapshots \<times> 'c ntp_source \<times> ntp_source_action list) option" where
  "process_message env C info snaps s p send_time recv_time =
     (let s = s\<lparr>src_reach := received_packet (src_reach s), src_have_deny_rstr_response := False,
                src_current_request_identifier := None, src_stratum := packet_stratum p,
                src_reference_id := packet_reference_id p\<rparr>
      in Option.bind
           (case header p of
              HV5 h \<Rightarrow>
                let s = (if packet_poll p > src_remote_min_poll_interval s
                         then s\<lparr>src_remote_min_poll_interval := packet_poll p\<rparr> else s)
                in update_bloom_filter p h s
            | _ \<Rightarrow> Some s) (\<lambda>s.
         let (snaps, s) = publish env C info (snapshot_from_source s) snaps s;
             (outgoing, incoming) = measurements_from_packet p (src_id s) send_time recv_time;
             s = s\<lparr>src_controller := sc_handle_measurement C incoming (sc_handle_measurement C outgoing (src_controller s))\<rparr>;
             s = (case src_nts s of
                    None \<Rightarrow> s
                  | Some nts \<Rightarrow>
                      s\<lparr>src_nts := Some (nts\<lparr>nts_cookies := foldl stash_store (nts_cookies nts) (new_cookies p)\<rparr>)\<rparr>)
         in Some (snaps, s, [])))"

text \<open>The step of the protocol version on a valid response.\<close>

definition next_protocol_version :: "ntp_packet \<Rightarrow> protocol_version \<Rightarrow> protocol_version" where
  "next_protocol_version p v =
     (case v of
        PV4UpgradingToV5 tries_left \<Rightarrow>
          let tries_left = (if tries_left = 0 then 0 else tries_left - 1)
          in if is_upgrade p then PUpgradedToV5
             else if tries_left = 0 then PV4
             else PV4UpgradingToV5 tries_left
      | PUpgradedToV5 \<Rightarrow> PV5
      | _ \<Rightarrow> v)"

text \<open>The answer to the outstanding request, from the test for a rate limit on.\<close>

definition handle_answer ::
  "source_env \<Rightarrow> 'c source_controller \<Rightarrow> ntp_source_info \<Rightarrow> source_snapshots \<Rightarrow> 'c ntp_source \<Rightarrow> ntp_packet \<Rightarrow>
   ntp_timestamp \<Rightarrow> ntp_timestamp \<Rightarrow> (source_snapshots \<times> 'c ntp_source \<times> ntp_source_action list) option" where
  "handle_answer env C info snaps s p send_time recv_time =
     (if is_kiss_rate (src_last_poll_interval s) p then
        Some (snaps,
          s\<lparr>src_remote_min_poll_interval :=
              max (poll_inc (src_remote_min_poll_interval s) (cfg_poll_interval_limits (src_source_config s)))
                  (src_last_poll_interval s)\<rparr>, [])
      else if is_kiss_rstr p \<or> is_kiss_deny p then
        (if src_nts s \<noteq> None then Some (snaps, s, [Demobilize])
         else Some (snaps, s\<lparr>src_have_deny_rstr_response := True\<rparr>, []))
      else if is_kiss_ntsn p then Some (snaps, s, [])
      else if is_kiss p then Some (snaps, s, [])
      else if packet_stratum p > MAX_STRATUM then Some (snaps, s, [])
      else if packet_mode p \<noteq> Server then Some (snaps, s, [])
      else process_message env C info snaps s p send_time recv_time)"

definition handle_incoming ::
  "source_env \<Rightarrow> 'c source_controller \<Rightarrow> ntp_source_info \<Rightarrow> source_snapshots \<Rightarrow> 'c ntp_source \<Rightarrow> bytes \<Rightarrow>
   ntp_timestamp \<Rightarrow> ntp_timestamp \<Rightarrow> (source_snapshots \<times> 'c ntp_source \<times> ntp_source_action list) option" where
  "handle_incoming env C info snaps s message send_time recv_time =
     (case packet_deserialize (se_aead env) message (opt_cipher (map_option nts_s2c (src_nts s))) of
        Inl Unreachable \<Rightarrow> None
      | Inl _ \<Rightarrow> Some (snaps, s, [])
      | Inr (p, _) \<Rightarrow>
          if \<not> is_expected_incoming_version (src_protocol_version s) (packet_version p) then Some (snaps, s, [])
          else case src_current_request_identifier s of
            None \<Rightarrow> Some (snaps, s, [])
          | Some (identifier, validity) \<Rightarrow>
              if \<not> se_now env \<le> validity then Some (snaps, s, [])
              else
                let valid = valid_server_response p identifier (src_nts s \<noteq> None);
                    s = (if valid then s\<lparr>src_protocol_version := next_protocol_version p (src_protocol_version s)\<rparr> else s)
                in if \<not> valid then Some (snaps, s, []) else handle_answer env C info snaps s p send_time recv_time)"

section \<open>One-way sources\<close>

record 'c one_way_source =
  ow_controller :: 'c

definition one_way_new :: "'c source_controller \<Rightarrow> 'c \<Rightarrow> 'c one_way_source" where
  "one_way_new C controller = \<lparr>ow_controller = sc_set_usable C True controller\<rparr>"

definition one_way_handle_measurement :: "'c source_controller \<Rightarrow> measurement \<Rightarrow> 'c one_way_source \<Rightarrow> 'c one_way_source" where
  "one_way_handle_measurement C m s = s\<lparr>ow_controller := sc_handle_measurement C m (ow_controller s)\<rparr>"

section \<open>The reachability register counts polls\<close>

text \<open>
  The reference: the number of polls since the last response, over a history of polls and responses.
\<close>

datatype reach_op = RPoll | RReceived

fun reach_step :: "reach \<Rightarrow> reach_op \<Rightarrow> reach" where
  "reach_step r RPoll = reach_poll r"
| "reach_step r RReceived = received_packet r"

fun polls_since :: "nat option \<Rightarrow> reach_op \<Rightarrow> nat option" where
  "polls_since n RPoll = map_option Suc n"
| "polls_since n RReceived = Some 0"

definition reach_refines :: "reach \<Rightarrow> nat option \<Rightarrow> bool" where
  "reach_refines r n \<longleftrightarrow> unanswered_polls r = (case n of None \<Rightarrow> 8 | Some k \<Rightarrow> min k 8)"

lemma count_trailing_mod: "count_trailing n (m mod 2 ^ n) = count_trailing n m"
proof (induction n arbitrary: m)
  case (Suc n)
  have m: "m mod 2 ^ Suc n = 2 * (m div 2 mod 2 ^ n) + m mod 2"
    by (simp only: power_Suc mod_mult2_eq)
  have "m mod 2 ^ Suc n mod 2 = m mod 2" unfolding m by simp
  moreover have "m mod 2 ^ Suc n div 2 = m div 2 mod 2 ^ n" unfolding m by simp
  ultimately show ?case using Suc by (simp add: even_iff_mod_2_eq_zero)
qed simp

lemma count_trailing_Suc: "count_trailing n m = min n (count_trailing (Suc n) m)"
  by (induction n arbitrary: m) (auto simp: min_def)

lemma count_trailing_le: "count_trailing n m \<le> n"
  by (induction n arbitrary: m) auto

lemma count_trailing_all: "count_trailing n m = n \<longleftrightarrow> m mod 2 ^ n = 0"
proof (induction n arbitrary: m)
  case (Suc n)
  have "m mod 2 ^ Suc n = m mod 2 + 2 * (m div 2 mod 2 ^ n)" by (simp add: mod_mult2_eq)
  with Suc [of "m div 2"] show ?case by (auto simp: odd_iff_mod_2_eq_one)
qed simp

lemma len8: "LENGTH(8) = Suc 7" by simp

lemma trailing_zeros_byte_step:
  "trailing_zeros (w :: byte) = (if odd (unat w) then 0 else Suc (count_trailing 7 (unat w div 2)))"
  using count_trailing.simps(2) [of 7 "unat w"] by (simp only: trailing_zeros_def len8)

lemma unat_mult_eq: "unat (w * 2 :: byte) = (unat w * 2) mod 256"
  by (simp add: unat_word_ariths(2))

lemma trailing_zeros_byte:
  "trailing_zeros (w * 2) = min (trailing_zeros w + 1) 8"
  "trailing_zeros (w OR 1) = 0"
  "trailing_zeros w = 8 \<longleftrightarrow> w = 0"
  "trailing_zeros w \<le> 8" for w :: byte
proof -
  have "unat (w * 2) = 2 * (unat w mod 128)"
    using mod_mult2_eq [of "unat w * 2" 2 128] by (simp add: unat_mult_eq)
  then have "trailing_zeros (w * 2) = Suc (count_trailing 7 (unat w))"
    using count_trailing_mod [of 7 "unat w"] by (simp add: trailing_zeros_byte_step)
  also have "\<dots> = min (trailing_zeros w + 1) 8"
    using count_trailing_Suc [of 7 "unat w"] by (simp del: count_trailing.simps add: trailing_zeros_def)
  finally show "trailing_zeros (w * 2) = min (trailing_zeros w + 1) 8" .
  have "odd (unat (w OR 1))" by (simp add: unsigned_or_eq even_or_iff)
  then show "trailing_zeros (w OR 1) = 0" by (simp add: trailing_zeros_byte_step)
  show "trailing_zeros w = 8 \<longleftrightarrow> w = 0"
    using count_trailing_all [of 8 "unat w"] unat_lt2p [of w] mod_less [of "unat w" 256]
    by (simp only: trailing_zeros_def len8 Suc_numeral) (simp add: unat_eq_0 del: count_trailing.simps mod_less)
  show "trailing_zeros w \<le> 8" using count_trailing_le [of 8 "unat w"] by (simp add: trailing_zeros_def del: count_trailing.simps)
qed

lemma trailing_zeros_one [simp]: "trailing_zeros (1 :: byte) = 0"
  using trailing_zeros_byte(2) [of 0] by simp

lemma reach_step_refines: "reach_refines r n \<Longrightarrow> reach_refines (reach_step r e) (polls_since n e)"
  by (cases e; cases n)
    (simp_all add: reach_refines_def unanswered_polls_def reach_poll_def received_packet_def trailing_zeros_byte)

lemma reach_run_refines:
  "reach_refines (run reach_step reach_never es) (run polls_since None es)"
proof (induction es rule: rev_induct)
  case Nil
  show ?case by (simp add: reach_refines_def unanswered_polls_def reach_never_def) (simp add: trailing_zeros_byte)
next
  case (snoc e es)
  then show ?case by (simp add: run_append reach_step_refines)
qed

text \<open>
  C21: the shift register of a source counts the polls since the last response. After any history of
  polls and responses the register reports the number of polls since the last response, saturating
  at eight, and the source counts as reachable exactly when there was a response and fewer than
  eight polls since.
\<close>
theorem reach_counts_polls:
  "unanswered_polls (run reach_step reach_never es) =
     (case run polls_since None es of None \<Rightarrow> 8 | Some k \<Rightarrow> min k 8) \<and>
   (is_reachable (run reach_step reach_never es) \<longleftrightarrow> (\<exists>k. run polls_since None es = Some k \<and> k < 8))"
proof -
  let ?r = "run reach_step reach_never es" and ?n = "run polls_since None es"
  have u: "unanswered_polls ?r = (case ?n of None \<Rightarrow> 8 | Some k \<Rightarrow> min k 8)"
    using reach_run_refines [of es] by (simp add: reach_refines_def)
  moreover have "is_reachable ?r \<longleftrightarrow> unanswered_polls ?r \<noteq> 8"
    by (simp add: is_reachable_def unanswered_polls_def trailing_zeros_byte)
  ultimately show ?thesis by (cases ?n) (auto simp: min_def)
qed

section \<open>Only answers count\<close>

text \<open>The datagram is an answer to the outstanding request: it parses to \<open>p\<close>, which has an expected version, comes
  in time and repeats what identifies the request.\<close>

definition answers :: "source_env \<Rightarrow> 'c ntp_source \<Rightarrow> bytes \<Rightarrow> ntp_packet \<Rightarrow> bool" where
  "answers env s message p \<longleftrightarrow>
     (\<exists>c. packet_deserialize (se_aead env) message (opt_cipher (map_option nts_s2c (src_nts s))) = Inr (p, c)) \<and>
     is_expected_incoming_version (src_protocol_version s) (packet_version p) \<and>
     (\<exists>rid validity. src_current_request_identifier s = Some (rid, validity) \<and> se_now env \<le> validity \<and>
        valid_server_response p rid (src_nts s \<noteq> None))"

definition upgraded :: "ntp_packet \<Rightarrow> 'c ntp_source \<Rightarrow> 'c ntp_source" where
  "upgraded p s = s\<lparr>src_protocol_version := next_protocol_version p (src_protocol_version s)\<rparr>"

lemma handle_incoming_answer:
  assumes "answers env s message p"
  shows "handle_incoming env C info snaps s message ts tr = handle_answer env C info snaps (upgraded p s) p ts tr"
  using assms by (auto simp: answers_def handle_incoming_def upgraded_def)

lemma handle_incoming_ignored:
  assumes "\<And>p. \<not> answers env s message p"
  shows "handle_incoming env C info snaps s message ts tr = Some (snaps, s, [])"
proof (cases "packet_deserialize (se_aead env) message (opt_cipher (map_option nts_s2c (src_nts s)))")
  case (Inl e)
  with packet_parsing_no_panic [of "se_aead env" message "opt_cipher (map_option nts_s2c (src_nts s))"]
  show ?thesis by (cases e) (auto simp: handle_incoming_def)
next
  case (Inr r)
  obtain p c where "r = (p, c)" by (cases r)
  with Inr assms [of p] show ?thesis
    by (auto simp: handle_incoming_def answers_def split: option.splits prod.splits)
qed

lemma handle_incoming_cases:
  obtains (ignored) "\<And>p. \<not> answers env s message p" "handle_incoming env C info snaps s message ts tr = Some (snaps, s, [])"
  | (answer) p where "answers env s message p"
      "handle_incoming env C info snaps s message ts tr = handle_answer env C info snaps (upgraded p s) p ts tr"
proof (cases "\<exists>p. answers env s message p")
  case True
  then obtain p where p: "answers env s message p" ..
  from answer [OF p handle_incoming_answer [OF p]] show ?thesis .
next
  case False
  then have n: "\<not> answers env s message p" for p by blast
  from ignored [OF n handle_incoming_ignored [OF n]] show ?thesis .
qed

text \<open>What an answer does other than giving a measurement.\<close>

lemma handle_answer_cases:
  obtains (rate) "is_kiss_rate (src_last_poll_interval s) p"
      "handle_answer env C info snaps s p ts tr = Some (snaps, s\<lparr>src_remote_min_poll_interval :=
         max (poll_inc (src_remote_min_poll_interval s) (cfg_poll_interval_limits (src_source_config s)))
           (src_last_poll_interval s)\<rparr>, [])"
  | (deny) "is_kiss_rstr p \<or> is_kiss_deny p" "src_nts s \<noteq> None"
      "handle_answer env C info snaps s p ts tr = Some (snaps, s, [Demobilize])"
  | (unsigned_deny) "is_kiss_rstr p \<or> is_kiss_deny p" "src_nts s = None"
      "handle_answer env C info snaps s p ts tr = Some (snaps, s\<lparr>src_have_deny_rstr_response := True\<rparr>, [])"
  | (ignored) "handle_answer env C info snaps s p ts tr = Some (snaps, s, [])"
  | (measured) "\<not> is_kiss p" "\<not> MAX_STRATUM < packet_stratum p" "packet_mode p = Server"
      "handle_answer env C info snaps s p ts tr = process_message env C info snaps s p ts tr"
proof -
  consider (1) "is_kiss_rate (src_last_poll_interval s) p"
    | (2) "\<not> is_kiss_rate (src_last_poll_interval s) p" "is_kiss_rstr p \<or> is_kiss_deny p" "src_nts s \<noteq> None"
    | (3) "\<not> is_kiss_rate (src_last_poll_interval s) p" "is_kiss_rstr p \<or> is_kiss_deny p" "src_nts s = None"
    | (4) "\<not> is_kiss_rate (src_last_poll_interval s) p" "\<not> (is_kiss_rstr p \<or> is_kiss_deny p)"
        "is_kiss_ntsn p \<or> is_kiss p \<or> MAX_STRATUM < packet_stratum p \<or> packet_mode p \<noteq> Server"
    | (5) "\<not> is_kiss_rate (src_last_poll_interval s) p" "\<not> (is_kiss_rstr p \<or> is_kiss_deny p)"
        "\<not> is_kiss_ntsn p" "\<not> is_kiss p" "\<not> MAX_STRATUM < packet_stratum p" "packet_mode p = Server"
    by blast
  then show ?thesis
  proof cases
    case 1
    show ?thesis by (rule rate [OF 1]) (simp only: handle_answer_def 1 if_True)
  next
    case 2
    show ?thesis by (rule deny [OF 2(2,3)]) (simp only: handle_answer_def 2 if_True if_False simp_thms)
  next
    case 3
    show ?thesis by (rule unsigned_deny [OF 3(2,3)]) (simp only: handle_answer_def 3 if_True if_False simp_thms)
  next
    case 4
    have "handle_answer env C info snaps s p ts tr = Some (snaps, s, [])"
      using 4(3) by (elim disjE) (simp_all only: handle_answer_def 4(1,2) if_True if_False simp_thms if_cancel)
    then show ?thesis by (rule ignored)
  next
    case 5
    show ?thesis by (rule measured [OF 5(4-6)]) (simp only: handle_answer_def 5 if_True if_False simp_thms)
  qed
qed

section \<open>The invariant of a source\<close>

text \<open>
  The buffer has its fixed size, the copy of the remote filter and the stash are well formed, and an outstanding
  request carries a unique identifier exactly when the source is authenticated.
\<close>

definition source_inv :: "'c ntp_source \<Rightarrow> bool" where
  "source_inv s \<longleftrightarrow>
     length (src_buffer s) = 1024 \<and> rbf_inv (src_bloom_filter s) \<and> chunk_size (src_bloom_filter s) = 16 \<and>
     (\<forall>nts. src_nts s = Some nts \<longrightarrow> stash_inv (nts_cookies nts)) \<and>
     (\<forall>rid validity. src_current_request_identifier s = Some (rid, validity) \<longrightarrow>
        (rqid_uid rid = None \<longleftrightarrow> src_nts s = None))"

lemma source_new_inv:
  assumes "\<And>nts'. nts = Some nts' \<Longrightarrow> stash_inv (nts_cookies nts')"
  shows "\<exists>s. source_new md5 addr config version c nts sid = Some (s, [SetTimer 0]) \<and> source_inv s"
proof -
  obtain r where r: "rbf_new 16 = Some r" "chunk_size r = 16" by (simp add: rbf_new_def)
  from rbf_new_inv [OF r(1)] r assms show ?thesis by (simp add: source_new_def source_inv_def)
qed

lemma handle_response_chunk:
  assumes "rbf_inv r" "handle_response r cookie resp = Some (res, r')"
  shows "chunk_size r' = chunk_size r"
  using assms(2) by (auto simp: handle_response_def advance_next_to_request_def Let_def split: option.splits if_splits)

lemma handle_response_some:
  assumes "rbf_inv r"
  obtains res r' where "handle_response r cookie resp = Some (res, r')" "rbf_inv r'" "chunk_size r' = chunk_size r"
proof -
  obtain x where x: "handle_response r cookie resp = Some x"
    using handle_response_cases [OF assms, of cookie resp] by (metis option.exhaust)
  obtain res r' where "x = (res, r')" by (cases x)
  with x handle_response_inv [OF assms] handle_response_chunk [OF assms] that show thesis by blast
qed

lemma stash_fold_inv: "stash_inv st \<Longrightarrow> stash_inv (foldl stash_store st cs)"
  by (induction cs arbitrary: st) (simp_all add: stash_store_inv)

text \<open>The part of a processed message that reads a version 5 header.\<close>

definition v5_part :: "ntp_packet \<Rightarrow> 'c ntp_source \<Rightarrow> 'c ntp_source option" where
  "v5_part p s =
     (case header p of
        HV5 h \<Rightarrow>
          let s = (if packet_poll p > src_remote_min_poll_interval s
                   then s\<lparr>src_remote_min_poll_interval := packet_poll p\<rparr> else s)
          in update_bloom_filter p h s
      | _ \<Rightarrow> Some s)"

lemma v5_part_result:
  assumes "rbf_inv (src_bloom_filter s)"
  obtains poll bloom where "v5_part p s = Some (s\<lparr>src_remote_min_poll_interval := poll, src_bloom_filter := bloom\<rparr>)"
    "rbf_inv bloom" "chunk_size bloom = chunk_size (src_bloom_filter s)"
proof -
  have same: "s = s\<lparr>src_remote_min_poll_interval := src_remote_min_poll_interval s, src_bloom_filter := src_bloom_filter s\<rparr>"
    by simp
  show thesis
  proof (cases "header p")
    case (HV5 h)
    let ?s = "if packet_poll p > src_remote_min_poll_interval s
       then s\<lparr>src_remote_min_poll_interval := packet_poll p\<rparr> else s"
    obtain poll where s: "?s = s\<lparr>src_remote_min_poll_interval := poll\<rparr>"
    proof (cases "packet_poll p > src_remote_min_poll_interval s")
      case True
      then show ?thesis by (intro that [of "packet_poll p"]) simp
    next
      case False
      then show ?thesis by (intro that [of "src_remote_min_poll_interval s"]) simp
    qed
    have v: "v5_part p s = update_bloom_filter p h (s\<lparr>src_remote_min_poll_interval := poll\<rparr>)"
      by (simp only: v5_part_def HV5 ntp_header.case Let_def s)
    show thesis
    proof (cases "find_bloom_response (if src_nts s \<noteq> None then authenticated (efdata p) else untrusted (efdata p))")
      case None
      then show thesis
        by (intro that [where poll = poll and bloom = "src_bloom_filter s"]) (use assms v in \<open>simp_all add: update_bloom_filter_def\<close>)
    next
      case (Some r)
      obtain res r' where r': "handle_response (src_bloom_filter s) (h5_client_cookie h) r = Some (res, r')"
        "rbf_inv r'" "chunk_size r' = chunk_size (src_bloom_filter s)" using handle_response_some [OF assms] .
      with Some v that [where poll = poll and bloom = r'] show thesis by (simp add: update_bloom_filter_def)
    qed
  next
    case (HV3 h)
    show thesis by (rule that [where poll = "src_remote_min_poll_interval s" and bloom = "src_bloom_filter s"]) (use assms HV3 in \<open>simp_all add: v5_part_def\<close>)
  next
    case (HV4 h)
    show thesis by (rule that [where poll = "src_remote_min_poll_interval s" and bloom = "src_bloom_filter s"]) (use assms HV4 in \<open>simp_all add: v5_part_def\<close>)
  qed
qed

definition received :: "ntp_packet \<Rightarrow> 'c ntp_source \<Rightarrow> 'c ntp_source" where
  "received p s =
     s\<lparr>src_reach := received_packet (src_reach s), src_have_deny_rstr_response := False,
       src_current_request_identifier := None, src_stratum := packet_stratum p,
       src_reference_id := packet_reference_id p\<rparr>"

definition with_new_cookies :: "ntp_packet \<Rightarrow> source_nts_data option \<Rightarrow> source_nts_data option" where
  "with_new_cookies p =
     map_option (\<lambda>nts. nts\<lparr>nts_cookies := foldl stash_store (nts_cookies nts) (new_cookies p)\<rparr>)"

lemma process_message_result:
  assumes "rbf_inv (src_bloom_filter s)"
  obtains poll bloom u snaps' where
    "process_message env C info snaps s p ts tr = Some (snaps',
       (received p s)\<lparr>src_remote_min_poll_interval := poll, src_bloom_filter := bloom,
         src_controller :=
           (let (m, m') = measurements_from_packet p (src_id s) ts tr in
            sc_handle_measurement C m' (sc_handle_measurement C m (sc_set_usable C u (src_controller s)))),
         src_nts := with_new_cookies p (src_nts s)\<rparr>, [])"
    "rbf_inv bloom" "chunk_size bloom = chunk_size (src_bloom_filter s)"
proof -
  have "src_bloom_filter (received p s) = src_bloom_filter s" by (simp add: received_def)
  with assms obtain poll bloom where
    b: "v5_part p (received p s) = Some ((received p s)\<lparr>src_remote_min_poll_interval := poll, src_bloom_filter := bloom\<rparr>)"
    "rbf_inv bloom" "chunk_size bloom = chunk_size (src_bloom_filter s)"
    using v5_part_result [of "received p s" p] by metis
  let ?s1 = "(received p s)\<lparr>src_remote_min_poll_interval := poll, src_bloom_filter := bloom\<rparr>"
  obtain u snaps' where pub: "publish env C info (snapshot_from_source ?s1) snaps ?s1 =
      (snaps', ?s1\<lparr>src_controller := sc_set_usable C u (src_controller ?s1)\<rparr>)"
    by (simp add: publish_def Let_def)
  have "process_message env C info snaps s p ts tr =
    Option.bind (v5_part p (received p s)) (\<lambda>s.
         let (snaps, s) = publish env C info (snapshot_from_source s) snaps s;
             (outgoing, incoming) = measurements_from_packet p (src_id s) ts tr;
             s = s\<lparr>src_controller := sc_handle_measurement C incoming (sc_handle_measurement C outgoing (src_controller s))\<rparr>;
             s = (case src_nts s of
                    None \<Rightarrow> s
                  | Some nts \<Rightarrow>
                      s\<lparr>src_nts := Some (nts\<lparr>nts_cookies := foldl stash_store (nts_cookies nts) (new_cookies p)\<rparr>)\<rparr>)
         in Some (snaps, s, []))"
    by (simp only: process_message_def v5_part_def received_def Let_def)
  also have "\<dots> = Some (snaps',
       (received p s)\<lparr>src_remote_min_poll_interval := poll, src_bloom_filter := bloom,
         src_controller :=
           (let (m, m') = measurements_from_packet p (src_id s) ts tr in
            sc_handle_measurement C m' (sc_handle_measurement C m (sc_set_usable C u (src_controller s)))),
         src_nts := with_new_cookies p (src_nts s)\<rparr>, [])"
    unfolding b(1) bind.simps pub Let_def case_prod_conv
    by (cases "src_nts s") (simp_all add: case_prod_beta received_def with_new_cookies_def)
  finally show thesis using b(2,3) that by blast
qed

lemma source_inv_answer:
  assumes "source_inv s"
  shows "\<exists>snaps' s' acts. handle_answer env C info snaps s p ts tr = Some (snaps', s', acts) \<and> source_inv s'"
proof (cases rule: handle_answer_cases [of s p env C info snaps ts tr, case_names rate deny unsigned_deny ignored measured])
  case measured
  have "rbf_inv (src_bloom_filter s)" using assms by (simp add: source_inv_def)
  from process_message_result [OF this, of env C info snaps p ts tr] obtain poll bloom u snaps' where
    r: "process_message env C info snaps s p ts tr = Some (snaps',
       (received p s)\<lparr>src_remote_min_poll_interval := poll, src_bloom_filter := bloom,
         src_controller :=
           (let (m, m') = measurements_from_packet p (src_id s) ts tr in
            sc_handle_measurement C m' (sc_handle_measurement C m (sc_set_usable C u (src_controller s)))),
         src_nts := with_new_cookies p (src_nts s)\<rparr>, [])"
    "rbf_inv bloom" "chunk_size bloom = chunk_size (src_bloom_filter s)" .
  from r(2,3) assms show ?thesis
    by (auto simp: measured(4) r(1) source_inv_def received_def with_new_cookies_def stash_fold_inv)
qed (use assms in \<open>simp_all add: source_inv_def\<close>)

lemma source_inv_incoming:
  assumes "source_inv s"
  shows "\<exists>snaps' s' acts. handle_incoming env C info snaps s message ts tr = Some (snaps', s', acts) \<and> source_inv s'"
proof (cases rule: handle_incoming_cases [of env s message C info snaps ts tr, case_names ignored answer])
  case (answer p)
  have "source_inv (upgraded p s)" using assms by (simp add: source_inv_def upgraded_def)
  from source_inv_answer [OF this] answer(2) show ?thesis by simp
qed (use assms in simp)

section \<open>Requests fit the buffer\<close>

definition env_wf :: "source_env \<Rightarrow> bool" where
  "env_wf env \<longleftrightarrow> aead_overhead (se_aead env) \<and> length (se_client_cookie env) = 8 \<and> length (se_uid env) = 32 \<and>
     length (se_nonce env) = 16"

lemma ef_total_16_le: "ef_total f 16 \<le> max 16 (length (ef_payload f) + 7)"
proof -
  have "ef_minimum f 16 \<le> 16" by (cases f) simp_all
  then consider "max (length (ef_payload f) + 4) (ef_minimum f 16) \<le> 16"
    | "max (length (ef_payload f) + 4) (ef_minimum f 16) = length (ef_payload f) + 4" by linarith
  then show ?thesis
  proof cases
    case 1
    let ?n = "next_multiple_of_usize (max (length (ef_payload f) + 4) (ef_minimum f 16)) 4"
    have "?n \<le> 19"
      using 1 next_multiple_bounds(2) [of "max (length (ef_payload f) + 4) (ef_minimum f 16)"] by linarith
    moreover have "4 dvd ?n" using next_multiple_bounds(3) by (simp only: dvd_eq_mod_eq_0)
    ultimately have "?n \<le> 19" "4 dvd ?n" by blast+
    then have "?n \<le> 16" by (elim dvdE) simp
    then show ?thesis by (simp add: ef_total_def)
  next
    case 2
    then show ?thesis using next_multiple_bounds(2) [of "length (ef_payload f) + 4"] by (simp add: ef_total_def)
  qed
qed

lemma unat_min: "unat (min a b) = min (unat a) (unat b)"
  by (simp add: min_def word_le_nat_alt)

lemma cookies_to_request_bounds:
  assumes "stash_inv st" "n = cookies_to_request 1024 st cookie"
  shows "unat n \<le> 8" "unat n * max (length cookie) 1 \<le> 724"
proof -
  let ?m = "max (length cookie) 1"
  have g: "unat (stash_gap st) \<le> 8"
  proof -
    have "length (cookies st) - valid_count st \<le> 8" using assms(1) by (simp add: stash_inv_def MAX_COOKIES_def)
    moreover from this have "unat (of_nat (length (cookies st) - valid_count st) :: byte) = length (cookies st) - valid_count st"
      by (simp add: unsigned_of_nat take_bit_nat_eq_self del: of_nat_diff)
    ultimately show ?thesis by (simp only: stash_gap_def)
  qed
  have "unat (of_nat (min (724 div ?m) 255) :: byte) = min (724 div ?m) 255"
    by (simp add: unsigned_of_nat take_bit_nat_eq_self)
  then have n: "unat n = min (unat (stash_gap st)) (min (724 div ?m) 255)"
    unfolding assms(2) cookies_to_request_def unat_min by simp
  with g show "unat n \<le> 8" by simp
  from n have "unat n \<le> 724 div ?m" by simp
  then have "unat n * ?m \<le> 724 div ?m * ?m" by (rule mult_le_mono1)
  also have "\<dots> \<le> 724" by (rule div_times_less_eq_dividend)
  finally show "unat n * ?m \<le> 724" .
qed

lemma nts_fields_fit:
  assumes "length uid = 32" "1 \<le> unat n" "unat n \<le> 8" "unat n * max (length cookie) 1 \<le> 724"
  shows "length (ef_wires 16 version (nts_request_fields uid cookie n)) \<le> 816"
    "\<forall>f \<in> set (nts_request_fields uid cookie n). ef_ok version f"
proof -
  let ?L = "length cookie"
  have "1 * max ?L 1 \<le> unat n * max ?L 1" by (rule mult_le_mono1) (rule assms(2))
  with assms(4) have L: "?L \<le> 724" by simp
  then have l: "unat (of_nat ?L :: u16) = ?L" by (simp add: unsigned_of_nat take_bit_nat_eq_self)
  show "\<forall>f \<in> set (nts_request_fields uid cookie n). ef_ok version f"
    using assms(1) L l by (auto simp: nts_request_fields_def ef_ok_def)
  obtain k where k: "unat n = Suc k" using assms(2) by (cases "unat n") auto
  have u: "ef_total (UniqueIdentifier uid) 16 = 36"
    using assms(1) word_total [of "UniqueIdentifier uid" 16] by simp
  let ?t = "max 16 (?L + 7)"
  have t: "ef_total (NtsCookie cookie) 16 \<le> ?t" "ef_total (NtsCookiePlaceholder (of_nat ?L)) 16 \<le> ?t"
    using ef_total_16_le [of "NtsCookie cookie"] ef_total_16_le [of "NtsCookiePlaceholder (of_nat ?L)"] l by simp_all
  have "length (ef_wires 16 version (nts_request_fields uid cookie n)) =
      36 + ef_total (NtsCookie cookie) 16 + k * ef_total (NtsCookiePlaceholder (of_nat ?L)) 16"
    by (simp add: nts_request_fields_def length_concat comp_def sum_list_replicate u k)
  also have "\<dots> \<le> 36 + ?t + k * ?t" by (intro add_mono mult_le_mono2 t order.refl)
  also have "\<dots> = 36 + unat n * ?t" by (simp add: k)
  also have "unat n * ?t \<le> 780"
  proof (cases "?L + 7 \<le> 16")
    case True
    then show ?thesis using assms(3) by (simp add: max_def)
  next
    case False
    then have "unat n * ?t = unat n * max ?L 1 + 7 * unat n" by (simp add: max_def add_mult_distrib2)
    with assms(3,4) show ?thesis by linarith
  qed
  finally show "length (ef_wires 16 version (nts_request_fields uid cookie n)) \<le> 816" by simp
qed

lemma build_request_cases:
  obtains (reset) nts' where "src_nts s \<noteq> None" "build_request env poll s = (s\<lparr>src_nts := Some nts'\<rparr>, None)"
      "source_inv s \<Longrightarrow> stash_inv (nts_cookies nts')"
  | (nts) nts cookie stash n p rid where "src_nts s = Some nts" "stash_get (nts_cookies nts) = (Some cookie, stash)"
      "n = cookies_to_request (length (src_buffer s)) stash cookie" "n \<noteq> 0"
      "build_request env poll s = (s\<lparr>src_nts := Some (nts\<lparr>nts_cookies := stash\<rparr>)\<rparr>, Some (p, rid))"
      "(p, rid) \<in> {nts_poll_message (se_transmit env) (se_uid env) cookie n poll,
         nts_poll_message_v5 (se_client_cookie env) (se_uid env) cookie n poll}"
  | (plain) p rid where "src_nts s = None" "build_request env poll s = (s, Some (p, rid))"
      "(p, rid) \<in> {poll_message (se_transmit env) poll, poll_message_upgrade_request (se_transmit env) poll,
         poll_message_v5 (se_client_cookie env) poll}"
proof (cases "src_nts s")
  case None
  obtain p rid where
    "(case src_protocol_version s of
             PV4 \<Rightarrow> poll_message (se_transmit env) poll
           | PV4UpgradingToV5 _ \<Rightarrow> poll_message_upgrade_request (se_transmit env) poll
           | _ \<Rightarrow> poll_message_v5 (se_client_cookie env) poll) = (p, rid)" by fastforce
  then show thesis
    by (intro plain [OF None, of p rid])
      (simp_all add: build_request_def None split: protocol_version.splits)
next
  case (Some nts)
  obtain c stash where st: "stash_get (nts_cookies nts) = (c, stash)" by fastforce
  have inv: "source_inv s \<Longrightarrow> stash_inv stash"
    using stash_get_inv [of "nts_cookies nts"] st Some by (simp add: source_inv_def)
  show thesis
  proof (cases "\<exists>cookie. c = Some cookie \<and> cookies_to_request (length (src_buffer s)) stash cookie \<noteq> 0")
    case False
    then have "build_request env poll s = (s\<lparr>src_nts := Some (nts\<lparr>nts_cookies := stash\<rparr>)\<rparr>, None)"
      using st Some by (cases c) (simp_all add: build_request_def Let_def)
    with reset [of "nts\<lparr>nts_cookies := stash\<rparr>"] Some inv show thesis by simp
  next
    case True
    then obtain cookie where c: "c = Some cookie" "cookies_to_request (length (src_buffer s)) stash cookie \<noteq> 0" by blast
    let ?n = "cookies_to_request (length (src_buffer s)) stash cookie"
    obtain p rid where p: "(case src_protocol_version s of
                       PV4 \<Rightarrow> nts_poll_message (se_transmit env) (se_uid env) cookie ?n poll
                     | _ \<Rightarrow> nts_poll_message_v5 (se_client_cookie env) (se_uid env) cookie ?n poll) = (p, rid)"
      by fastforce
    show thesis
    proof (rule nts [OF Some, of cookie stash ?n p rid])
      show "(p, rid) \<in> {nts_poll_message (se_transmit env) (se_uid env) cookie ?n poll,
         nts_poll_message_v5 (se_client_cookie env) (se_uid env) cookie ?n poll}"
        using p by (simp split: protocol_version.splits)
    qed (use st c p Some in \<open>simp_all add: build_request_def Let_def\<close>)
  qed
qed

lemma upgrade_header_reads:
  obtains bs where "header_reads (HV4 ((fst (h4_poll_message t i))\<lparr>h4_reference_timestamp := UPGRADE_TIMESTAMP\<rparr>)) bs
    (HV4 ((fst (h4_poll_message t i))\<lparr>h4_reference_timestamp := UPGRADE_TIMESTAMP\<rparr>))"
proof -
  let ?h = "(fst (h4_poll_message t i))\<lparr>h4_reference_timestamp := UPGRADE_TIMESTAMP\<rparr>"
  have z: "rd = dur_ZERO" if "dur_val rd = 0" for rd using that by (simp add: dur_eq_iff dur_ZERO_def)
  have d: "h4_root_delay ?h = dur_ZERO" "h4_root_dispersion ?h = dur_ZERO" "h4_leap ?h = NoWarning"
    by (simp_all add: h4_poll_message_def h4_new_def)
  obtain bs rd rdisp where "header_reads (HV4 ?h) bs (HV4 (?h\<lparr>h4_root_delay := rd, h4_root_dispersion := rdisp\<rparr>))"
    "dur_val rd = 0" "dur_val rdisp = 0"
    by (rule header_reads_v4 [of ?h]) (simp_all add: d duration_in_range_def dur_ZERO_def)
  moreover from this(2,3) have "?h\<lparr>h4_root_delay := rd, h4_root_dispersion := rdisp\<rparr> = ?h"
    using d by (simp add: z)
  ultimately show thesis using that by simp
qed

lemma sealed_packet_appends:
  assumes "header_reads h bs h'" "\<And>g. h \<noteq> HV3 g" "auth \<noteq> []"
    and "\<forall>f \<in> set auth. ef_ok (ef_version_of h) f"
    and "length nonce = 16" "aead_overhead A" "provider auth = Some k"
    and "88 + length (ef_wires 16 (ef_version_of h) auth) \<le> length buf"
  shows "\<exists>w d. packet_serialize A nonce \<lparr>header = h, efdata = sealed auth [], packet_mac = None\<rparr> provider None
    (new_cursor buf) = Inr w \<and> appends (new_cursor buf) w d"
proof -
  have wr: "writes (header_serialize h) bs" and len: "length bs = 48" using assms(1) by (auto simp: header_reads_def)
  have e: "\<forall>f \<in> set []. ef_ok (ef_version_of h) f" "auth \<noteq> [] \<or> [] \<noteq> []" using assms(3) by simp_all
  obtain w where w: "packet_serialize A nonce \<lparr>header = h, efdata = sealed auth [], packet_mac = None\<rparr> provider None
      (new_cursor buf) = Inr w"
    using sealed_packet_fits [where provider = provider, OF assms(1,2,4) e(1) assms(5-7), of buf] assms(8) by auto
  obtain w1 where w1: "header_serialize h (new_cursor buf) = Inr w1"
    "efdata_serialize A nonce (sealed auth []) provider (ef_version_of h) w1 = Inr w"
    using w assms(2) by (cases h) (auto simp: packet_serialize_def Let_def result_simps)
  have a1: "appends (new_cursor buf) w1 bs" using writes_appends [OF wr w1(1)] by (simp add: new_cursor_def)
  obtain d where "appends w1 w d"
    using sealed_fields_append [where sender = provider, OF assms(4) e(1) assms(5,6) e(2) assms(7) appends_le [OF a1] w1(2)]
    by blast
  with w appends_trans [OF a1] show ?thesis by blast
qed

lemma plain_packet_appends:
  assumes "header_reads h bs h'" "(\<exists>g. h = HV5 g) \<or> (\<exists>g. h = HV4 g) \<and> fs = []" "\<forall>f \<in> set fs. ef_ok EfV5 f"
    and "48 + length (ef_wires 4 EfV5 fs) \<le> length buf"
  shows "\<exists>w. packet_serialize A nonce \<lparr>header = h, efdata = unsealed fs, packet_mac = None\<rparr> provider None
    (new_cursor buf) = Inr w \<and> appends (new_cursor buf) w (bs @ ef_wires 4 EfV5 fs)"
proof -
  have wr: "writes (header_serialize h) bs" and len: "length bs = 48" using assms(1) by (auto simp: header_reads_def)
  obtain w1 where w1: "header_serialize h (new_cursor buf) = Inr w1" "appends (new_cursor buf) w1 bs"
    using writes_fits [OF wr, of "new_cursor buf"] len assms(4) by (auto simp: new_cursor_def)
  then have p1: "cur_pos w1 = 48" "length (cur_buf w1) = length buf" using len by (auto simp: appends_def new_cursor_def)
  obtain w where w: "serialize_untrusted fs EfV5 w1 = Inr w" "appends w1 w (ef_wires 4 EfV5 fs)"
    using writes_fits [OF serialize_untrusted_v5_writes [OF assms(3)], of w1] p1 assms(4) by auto
  have "packet_serialize A nonce \<lparr>header = h, efdata = unsealed fs, packet_mac = None\<rparr> provider None (new_cursor buf) = Inr w"
    using assms(2) w1(1) w(1) by (auto simp: packet_serialize_def efdata_serialize_def unsealed_def)
  with appends_trans [OF w1(2) w(2)] show ?thesis by blast
qed

lemma bloom_request_field:
  assumes "rbf_inv r" "chunk_size r = 16"
  obtains ef where "fst (next_request r cookie) = Some ef" "ef_ok version (RefIdRequest ef)"
    "ef_total (RefIdRequest ef) m = 20" "rbf_inv (snd (next_request r cookie))" "chunk_size (snd (next_request r cookie)) = 16"
proof -
  let ?ef = "\<lparr>rid_payload_len = chunk_size r, rid_offset = next_to_request r\<rparr>"
  have "ef_ok version (RefIdRequest ?ef)" "ef_total (RefIdRequest ?ef) m = 20"
    using assms(2) by (simp_all add: ef_ok_def ef_total_def next_multiple_of_usize_def)
  moreover have "chunk_size (snd (next_request r cookie)) = 16" using assms(2) by (simp add: next_request_def Let_def)
  ultimately show thesis using that next_request_ok [OF assms(1), of cookie] by blast
qed

lemma draft_ok: "ef_ok EfV5 draft_identification"
  using draft_field_reads [of 16] by (simp add: ef_reads_def)

text \<open>
  A request goes out: with the filter request that a version 5 request carries it fits the buffer.
\<close>

lemma nts_request_fits:
  assumes "env_wf env" "rbf_inv (src_bloom_filter s)" "chunk_size (src_bloom_filter s) = 16" "length buf = 1024"
    and n: "unat n \<noteq> 0" "unat n \<le> 8" "unat n * max (length cookie) 1 \<le> 724"
    and req: "(p, rid) \<in> {nts_poll_message (se_transmit env) (se_uid env) cookie n poll,
         nts_poll_message_v5 (se_client_cookie env) (se_uid env) cookie n poll}"
  shows "\<exists>bloom p' w d. add_bloom_request p s = Some (s\<lparr>src_bloom_filter := bloom\<rparr>, p') \<and> rbf_inv bloom \<and>
    chunk_size bloom = 16 \<and>
    packet_serialize (se_aead env) (se_nonce env) p' (opt_cipher (Some c)) None (new_cursor buf) = Inr w \<and>
    appends (new_cursor buf) w d"
proof -
  have e: "aead_overhead (se_aead env)" "length (se_client_cookie env) = 8" "length (se_uid env) = 32" "length (se_nonce env) = 16"
    using assms(1) by (simp_all add: env_wf_def)
  have n1: "1 \<le> unat n" using n(1) by simp
  note f = nts_fields_fit [OF e(3) n1 n(2,3)]
  have k: "opt_cipher (Some c) fs = Some (HOther c)" for fs by (simp add: opt_cipher_def)
  have ne: "nts_request_fields (se_uid env) cookie n \<noteq> []" by (simp add: nts_request_fields_def)
  consider (v4) "p = \<lparr>header = HV4 (fst (h4_poll_message (se_transmit env) poll)),
        efdata = sealed (nts_request_fields (se_uid env) cookie n) [], packet_mac = None\<rparr>"
    | (v5) "p = \<lparr>header = HV5 (fst (h5_poll_message (ts_to_bits (ts_from_bits (se_client_cookie env))) poll)),
        efdata = sealed (nts_request_fields (se_uid env) cookie n @ [draft_identification]) [], packet_mac = None\<rparr>"
    using req e(2) by (auto simp: nts_poll_message_def nts_poll_message_v5_def sealed_def draft_identification_def
      h4_poll_message_def h5_poll_message_def)
  then show ?thesis
  proof cases
    case v4
    obtain bs where bs: "header_reads (HV4 (fst (h4_poll_message (se_transmit env) poll))) bs
        (header_as_read (HV4 (fst (h4_poll_message (se_transmit env) poll))))"
      using request_header_reads [of "HV4 (fst (h4_poll_message (se_transmit env) poll))" "se_transmit env" poll] by auto
    obtain w d where w: "packet_serialize (se_aead env) (se_nonce env) p (opt_cipher (Some c)) None (new_cursor buf) = Inr w"
        "appends (new_cursor buf) w d"
      using sealed_packet_appends [where provider = "opt_cipher (Some c)", OF bs _ ne _ e(4,1) k, of buf]
        f(1) [of EfV4] f(2) [of EfV4] assms(4)
      unfolding v4 by auto
    have "add_bloom_request p s = Some (s\<lparr>src_bloom_filter := src_bloom_filter s\<rparr>, p)"
      by (simp add: add_bloom_request_def v4)
    with w assms(2,3) show ?thesis by blast
  next
    case v5
    let ?h = "HV5 (fst (h5_poll_message (ts_to_bits (ts_from_bits (se_client_cookie env))) poll))"
    let ?b = "snd (next_request (src_bloom_filter s) (h5_client_cookie (fst (h5_poll_message (ts_to_bits (ts_from_bits (se_client_cookie env))) poll))))"
    obtain bs where bs: "header_reads ?h bs (header_as_read ?h)"
      using request_header_reads [of ?h "ts_from_bits (se_client_cookie env)" poll] by auto
    obtain ef where ef: "fst (next_request (src_bloom_filter s)
          (h5_client_cookie (fst (h5_poll_message (ts_to_bits (ts_from_bits (se_client_cookie env))) poll)))) = Some ef"
        "ef_ok EfV5 (RefIdRequest ef)" "ef_total (RefIdRequest ef) 16 = 20" "rbf_inv ?b" "chunk_size ?b = 16"
      using bloom_request_field [OF assms(2,3)] by blast
    let ?auth = "nts_request_fields (se_uid env) cookie n @ [draft_identification, RefIdRequest ef]"
    let ?p = "\<lparr>header = ?h, efdata = sealed ?auth [], packet_mac = None\<rparr>"
    have "add_bloom_request p s = Some (s\<lparr>src_bloom_filter := ?b\<rparr>, ?p)"
      using ef(1) by (simp add: add_bloom_request_def v5 case_prod_beta push_additional_def sealed_def Let_def)
    moreover have "\<forall>f \<in> set ?auth. ef_ok EfV5 f" using f(2) ef(2) draft_ok by auto
    moreover have "88 + length (ef_wires 16 EfV5 ?auth) \<le> length buf"
      using f(1) [of EfV5] ef(3) assms(4) draft_total [of 16] by simp
    ultimately show ?thesis
      using sealed_packet_appends [where provider = "opt_cipher (Some c)", OF bs _ _ _ e(4,1) k, of ?auth buf] ef(4,5)
      by auto
  qed
qed

lemma plain_request_fits:
  assumes "env_wf env" "rbf_inv (src_bloom_filter s)" "chunk_size (src_bloom_filter s) = 16" "length buf = 1024"
    and req: "(p, rid) \<in> {poll_message (se_transmit env) poll, poll_message_upgrade_request (se_transmit env) poll,
         poll_message_v5 (se_client_cookie env) poll}"
  shows "\<exists>bloom p' w d. add_bloom_request p s = Some (s\<lparr>src_bloom_filter := bloom\<rparr>, p') \<and> rbf_inv bloom \<and>
    chunk_size bloom = 16 \<and>
    packet_serialize (se_aead env) (se_nonce env) p' (opt_cipher None) None (new_cursor buf) = Inr w \<and>
    appends (new_cursor buf) w d"
proof -
  have c: "length (se_client_cookie env) = 8" using assms(1) by (simp add: env_wf_def)
  consider (v4) g bs where "p = \<lparr>header = HV4 g, efdata = unsealed [], packet_mac = None\<rparr>" "header_reads (HV4 g) bs (HV4 g)"
    | (v5) "p = \<lparr>header = HV5 (fst (h5_poll_message (ts_to_bits (ts_from_bits (se_client_cookie env))) poll)),
        efdata = unsealed [draft_identification], packet_mac = None\<rparr>"
  proof -
    obtain bs where "header_reads (HV4 (fst (h4_poll_message (se_transmit env) poll))) bs
        (header_as_read (HV4 (fst (h4_poll_message (se_transmit env) poll))))"
      using request_header_reads [of "HV4 (fst (h4_poll_message (se_transmit env) poll))" "se_transmit env" poll] by auto
    moreover obtain bs' where "header_reads (HV4 ((fst (h4_poll_message (se_transmit env) poll))\<lparr>h4_reference_timestamp := UPGRADE_TIMESTAMP\<rparr>)) bs'
      (HV4 ((fst (h4_poll_message (se_transmit env) poll))\<lparr>h4_reference_timestamp := UPGRADE_TIMESTAMP\<rparr>))"
      by (rule upgrade_header_reads)
    ultimately show thesis using req c that
      by (auto simp: poll_message_def poll_message_upgrade_request_def poll_message_v5_def unsealed_def
        draft_identification_def ext_field_data_default_def h4_poll_message_def h5_poll_message_def)
  qed
  then show ?thesis
  proof cases
    case v4
    have "add_bloom_request p s = Some (s\<lparr>src_bloom_filter := src_bloom_filter s\<rparr>, p)"
      by (simp add: add_bloom_request_def v4)
    moreover obtain w where "packet_serialize (se_aead env) (se_nonce env) p (opt_cipher None) None (new_cursor buf) = Inr w"
        "appends (new_cursor buf) w (bs @ ef_wires 4 EfV5 [])"
      using plain_packet_appends [OF v4(2), of "[]" buf "se_aead env" "se_nonce env" "opt_cipher None"] assms(4)
      unfolding v4(1) by auto
    ultimately show ?thesis using assms(2,3) by blast
  next
    case v5
    let ?h = "HV5 (fst (h5_poll_message (ts_to_bits (ts_from_bits (se_client_cookie env))) poll))"
    let ?b = "snd (next_request (src_bloom_filter s) (h5_client_cookie (fst (h5_poll_message (ts_to_bits (ts_from_bits (se_client_cookie env))) poll))))"
    obtain bs where bs: "header_reads ?h bs (header_as_read ?h)"
      using request_header_reads [of ?h "ts_from_bits (se_client_cookie env)" poll] by auto
    obtain ef where ef: "fst (next_request (src_bloom_filter s)
          (h5_client_cookie (fst (h5_poll_message (ts_to_bits (ts_from_bits (se_client_cookie env))) poll)))) = Some ef"
        "ef_ok EfV5 (RefIdRequest ef)" "ef_total (RefIdRequest ef) 4 = 20" "rbf_inv ?b" "chunk_size ?b = 16"
      using bloom_request_field [OF assms(2,3)] by blast
    let ?fs = "[draft_identification, RefIdRequest ef]"
    have "add_bloom_request p s = Some (s\<lparr>src_bloom_filter := ?b\<rparr>, \<lparr>header = ?h, efdata = unsealed ?fs, packet_mac = None\<rparr>)"
      using ef(1) by (simp add: add_bloom_request_def v5 case_prod_beta push_additional_def unsealed_def Let_def)
    moreover have "\<forall>f \<in> set ?fs. ef_ok EfV5 f" using ef(2) draft_ok by simp
    moreover have "48 + length (ef_wires 4 EfV5 ?fs) \<le> length buf" using ef(3) assms(4) draft_total [of 4] by simp
    ultimately show ?thesis
      using plain_packet_appends [OF bs, of ?fs buf "se_aead env" "se_nonce env" "opt_cipher None"] ef(4,5) by auto
  qed
qed

lemma start_poll_simps [simp]:
  "src_nts (start_poll s) = src_nts s" "src_buffer (start_poll s) = src_buffer s"
  "src_controller (start_poll s) = src_controller s" "src_bloom_filter (start_poll s) = src_bloom_filter s"
  "src_current_request_identifier (start_poll s) = src_current_request_identifier s"
  "src_have_deny_rstr_response (start_poll s) = src_have_deny_rstr_response s"
  by (simp_all add: start_poll_def Let_def)

lemma start_poll_inv: "source_inv s \<Longrightarrow> source_inv (start_poll s)"
  by (simp add: source_inv_def)

text \<open>What a timer does when it is not the end of the source: the cookie is taken, the request goes out, the
  identifier of the request is remembered for five seconds.\<close>

lemma timer_sends:
  assumes inv: "source_inv s" and env: "env_wf env"
    and go: "is_reachable (src_reach s) \<or> src_tries s < STARTUP_TRIES_THRESHOLD"
    and br: "build_request env (current_poll_interval C (start_poll s)) (start_poll s) =
      ((start_poll s)\<lparr>src_nts := nts'\<rparr>, Some (p, rid))"
    and fits: "\<exists>bloom p' w d. add_bloom_request p ((start_poll s)\<lparr>src_nts := nts',
        src_current_request_identifier := Some (rid, se_now env + POLL_WINDOW)\<rparr>) =
      Some ((start_poll s)\<lparr>src_nts := nts', src_current_request_identifier := Some (rid, se_now env + POLL_WINDOW),
        src_bloom_filter := bloom\<rparr>, p') \<and> rbf_inv bloom \<and> chunk_size bloom = 16 \<and>
      packet_serialize (se_aead env) (se_nonce env) p' (opt_cipher (map_option nts_c2s nts')) None
        (new_cursor (src_buffer s)) = Inr w \<and> appends (new_cursor (src_buffer s)) w d"
    and uid: "rqid_uid rid = None \<longleftrightarrow> nts' = None" "\<And>nts. nts' = Some nts \<Longrightarrow> stash_inv (nts_cookies nts)"
  shows "\<exists>snaps' s' bytes t. handle_timer env C info snaps s = Some (snaps', s', [Send bytes, SetTimer t]) \<and>
    source_inv s' \<and> src_current_request_identifier s' = Some (rid, se_now env + POLL_WINDOW) \<and>
    src_protocol_version s' = src_protocol_version (start_poll s) \<and>
    (\<exists>u. src_controller s' = sc_set_usable C u (src_controller s))"
proof -
  from fits obtain bloom p' w d where f: "add_bloom_request p ((start_poll s)\<lparr>src_nts := nts',
        src_current_request_identifier := Some (rid, se_now env + POLL_WINDOW)\<rparr>) =
      Some ((start_poll s)\<lparr>src_nts := nts', src_current_request_identifier := Some (rid, se_now env + POLL_WINDOW),
        src_bloom_filter := bloom\<rparr>, p')" "rbf_inv bloom" "chunk_size bloom = 16"
      "packet_serialize (se_aead env) (se_nonce env) p' (opt_cipher (map_option nts_c2s nts')) None
        (new_cursor (src_buffer s)) = Inr w" "appends (new_cursor (src_buffer s)) w d" by blast
  let ?poll = "current_poll_interval C (start_poll s)"
  let ?s3 = "(start_poll s)\<lparr>src_nts := nts', src_current_request_identifier := Some (rid, se_now env + POLL_WINDOW),
        src_bloom_filter := bloom, src_last_poll_interval := ?poll\<rparr>"
  let ?s4 = "?s3\<lparr>src_buffer := cur_buf w\<rparr>"
  obtain u snaps' where pub: "publish env C info (snapshot_from_source ?s3) snaps ?s4 =
      (snaps', ?s4\<lparr>src_controller := sc_set_usable C u (src_controller ?s4)\<rparr>)"
    by (simp add: publish_def Let_def)
  have buf: "src_buffer (start_poll s) = src_buffer s" "src_controller (start_poll s) = src_controller s"
    by (simp_all add: start_poll_def)
  have "\<not> (\<not> is_reachable (src_reach s) \<and> STARTUP_TRIES_THRESHOLD \<le> src_tries s)" using go by auto
  then have "handle_timer env C info snaps s = Some (snaps', ?s4\<lparr>src_controller := sc_set_usable C u (src_controller ?s4)\<rparr>,
      [Send (take (cur_pos w) (cur_buf w)), SetTimer (se_jitter env (poll_as_system_duration ?poll))])"
    using f(1,4) pub by (simp add: handle_timer_def br Let_def buf)
  moreover have "length (cur_buf w) = 1024" using f(5) inv by (simp add: appends_def new_cursor_def source_inv_def)
  ultimately show ?thesis using f(2,3) uid buf by (auto simp: source_inv_def)
qed

lemma handle_timer_cases:
  assumes inv: "source_inv s" and env: "env_wf env"
  obtains (stop) "handle_timer env C info snaps s = Some (snaps, s, if src_have_deny_rstr_response s then [Demobilize] else [Reset])"
      "\<not> is_reachable (src_reach s)" "STARTUP_TRIES_THRESHOLD \<le> src_tries s"
  | (reset) nts' where "handle_timer env C info snaps s = Some (snaps, (start_poll s)\<lparr>src_nts := Some nts'\<rparr>, [Reset])"
      "src_nts s \<noteq> None" "source_inv ((start_poll s)\<lparr>src_nts := Some nts'\<rparr>)"
  | (sent) snaps' s' bytes t rid u where "handle_timer env C info snaps s = Some (snaps', s', [Send bytes, SetTimer t])"
      "source_inv s'" "src_current_request_identifier s' = Some (rid, se_now env + POLL_WINDOW)"
      "src_protocol_version s' = src_protocol_version (start_poll s)"
      "src_controller s' = sc_set_usable C u (src_controller s)"
proof (cases "\<not> is_reachable (src_reach s) \<and> src_tries s \<ge> STARTUP_TRIES_THRESHOLD")
  case True
  then have "handle_timer env C info snaps s = Some (snaps, s, if src_have_deny_rstr_response s then [Demobilize] else [Reset])"
    by (simp only: handle_timer_def if_True simp_thms)
  with True stop show thesis by blast
next
  case False
  then have go: "is_reachable (src_reach s) \<or> src_tries s < STARTUP_TRIES_THRESHOLD" by auto
  let ?s = "start_poll s" and ?poll = "current_poll_interval C (start_poll s)"
  have inv': "source_inv ?s" "length (src_buffer ?s) = 1024" "rbf_inv (src_bloom_filter ?s)"
      "chunk_size (src_bloom_filter ?s) = 16" "length (src_buffer s) = 1024"
    using start_poll_inv [OF inv] inv by (simp_all add: source_inv_def)
  show thesis
  proof (cases rule: build_request_cases [of ?s env ?poll, case_names reset nts plain])
    case (reset nts')
    have "handle_timer env C info snaps s = Some (snaps, ?s\<lparr>src_nts := Some nts'\<rparr>, [Reset])"
      using False reset(2) by (simp only: handle_timer_def if_False Let_def) simp
    moreover have "source_inv (?s\<lparr>src_nts := Some nts'\<rparr>)" "src_nts s \<noteq> None"
      using inv'(1) reset(1,3) by (auto simp: source_inv_def)
    ultimately show thesis using that(2) by blast
  next
    case (nts nts cookie stash n p rid)
    have st: "stash_inv stash" using stash_get_inv [of "nts_cookies nts"] nts(1,2) inv'(1) by (simp add: source_inv_def)
    have n: "unat n \<noteq> 0" "unat n \<le> 8" "unat n * max (length cookie) 1 \<le> 724"
      using cookies_to_request_bounds [OF st] nts(3,4) inv'(2) by (auto simp: unat_eq_0)
    have uid: "rqid_uid rid = None \<longleftrightarrow> Some (nts\<lparr>nts_cookies := stash\<rparr>) = None"
      using nts(6) by (auto simp: nts_poll_message_def nts_poll_message_v5_def case_prod_beta)
    let ?s2 = "?s\<lparr>src_nts := Some (nts\<lparr>nts_cookies := stash\<rparr>), src_current_request_identifier := Some (rid, se_now env + POLL_WINDOW)\<rparr>"
    have "rbf_inv (src_bloom_filter ?s2)" "chunk_size (src_bloom_filter ?s2) = 16" using inv' by simp_all
    from timer_sends [OF inv env go nts(5) _ uid] nts_request_fits [OF env this inv'(5) n nts(6), of "nts_c2s nts"] st
    show thesis using that(3) by fastforce
  next
    case (plain p rid)
    have br: "build_request env ?poll ?s = (?s\<lparr>src_nts := None\<rparr>, Some (p, rid))" using plain(1,2) by simp
    have uid: "rqid_uid rid = None \<longleftrightarrow> None = None"
      using plain(3) by (auto simp: request_defs)
    let ?s2 = "?s\<lparr>src_nts := None, src_current_request_identifier := Some (rid, se_now env + POLL_WINDOW)\<rparr>"
    have "rbf_inv (src_bloom_filter ?s2)" "chunk_size (src_bloom_filter ?s2) = 16" using inv' by simp_all
    from timer_sends [OF inv env go br _ uid] plain_request_fits [OF env this inv'(5) plain(3)]
    show thesis using that(3) by fastforce
  qed
qed

section \<open>Histories of a source\<close>

text \<open>A history is a sequence of timers and datagrams, each with what its handler takes from outside.\<close>

datatype source_event =
    TimerFires (ev_env: source_env) (ev_info: ntp_source_info)
  | DatagramArrives (ev_env: source_env) (ev_info: ntp_source_info) bytes ntp_timestamp ntp_timestamp

fun source_step ::
  "'c source_controller \<Rightarrow> source_snapshots \<Rightarrow> 'c ntp_source \<Rightarrow> source_event \<Rightarrow>
   (source_snapshots \<times> 'c ntp_source \<times> ntp_source_action list) option" where
  "source_step C snaps s (TimerFires env info) = handle_timer env C info snaps s"
| "source_step C snaps s (DatagramArrives env info message ts tr) = handle_incoming env C info snaps s message ts tr"

fun source_run ::
  "'c source_controller \<Rightarrow> source_snapshots \<Rightarrow> 'c ntp_source \<Rightarrow> source_event list \<Rightarrow>
   (source_snapshots \<times> 'c ntp_source \<times> ntp_source_action list) option" where
  "source_run C snaps s [] = Some (snaps, s, [])"
| "source_run C snaps s (e # es) =
     Option.bind (source_step C snaps s e) (\<lambda>(snaps, s, acts).
     map_option (\<lambda>(snaps, s, acts'). (snaps, s, acts @ acts')) (source_run C snaps s es))"

lemma source_step_inv:
  assumes "source_inv s" "env_wf (ev_env e)"
  shows "\<exists>snaps' s' acts. source_step C snaps s e = Some (snaps', s', acts) \<and> source_inv s'"
proof (cases e)
  case (TimerFires env info)
  with assms have env: "env_wf env" by simp
  show ?thesis
  proof (cases rule: handle_timer_cases [OF assms(1) env, of C info snaps, case_names stop reset sent])
    case stop
    then show ?thesis using assms(1) by (simp add: TimerFires)
  next
    case (reset nts')
    then show ?thesis by (simp add: TimerFires)
  next
    case (sent snaps' s' bytes t rid u)
    then show ?thesis by (simp add: TimerFires)
  qed
next
  case (DatagramArrives env info message ts tr)
  with source_inv_incoming [OF assms(1)] show ?thesis by simp
qed

lemma source_run_inv:
  assumes "source_inv s" "\<forall>e \<in> set es. env_wf (ev_env e)"
  shows "\<exists>snaps' s' acts. source_run C snaps s es = Some (snaps', s', acts) \<and> source_inv s'"
  using assms
proof (induction es arbitrary: snaps s)
  case (Cons e es)
  from source_step_inv [of s e C snaps] Cons.prems obtain snaps1 s1 acts where
    1: "source_step C snaps s e = Some (snaps1, s1, acts)" "source_inv s1" by auto
  from Cons.IH [OF 1(2), of snaps1] Cons.prems obtain snaps2 s2 acts' where
    "source_run C snaps1 s1 es = Some (snaps2, s2, acts')" "source_inv s2" by auto
  with 1(1) show ?case by simp
qed simp

text \<open>
  C7: a source never panics and keeps its invariant. From its creation on, through any sequence of
  timers and of datagrams with any content, every handler returns; in particular each request,
  whatever the length of the cookie, of the placeholders that ask for more and of the filter
  request of version 5, fits the buffer of 1024 bytes, and the copy of the remote filter stays
  within its bounds.
\<close>
theorem source_never_panics:
  assumes "\<And>nts'. nts = Some nts' \<Longrightarrow> stash_inv (nts_cookies nts')"
    and "\<forall>e \<in> set es. env_wf (ev_env e)"
  shows "\<exists>s acts snaps' s' acts'. source_new md5 addr config version c nts sid = Some (s, acts) \<and>
    source_run C snaps s es = Some (snaps', s', acts') \<and> source_inv s'"
proof -
  obtain s where s: "source_new md5 addr config version c nts sid = Some (s, [SetTimer 0])" "source_inv s"
    using source_new_inv [where nts = nts and ?md5.0 = md5 and addr = addr and config = config and version = version and c = c and sid = sid] assms(1) by metis
  from source_run_inv [OF s(2) assms(2), of C snaps] obtain snaps' s' acts' where
    "source_run C snaps s es = Some (snaps', s', acts')" "source_inv s'" by metis
  with s(1) show ?thesis by metis
qed

definition example_controller :: "unit source_controller" where
  "example_controller = \<lparr>sc_handle_measurement = (\<lambda>_ c. c), sc_set_usable = (\<lambda>_ c. c),
     sc_desired_poll_interval = (\<lambda>_. PollInterval 4)\<rparr>"

definition example_addr :: socket_addr where
  "example_addr = \<lparr>sa_ip = IpV4 7, sa_port = 123\<rparr>"

definition example_source_config :: source_config where
  "example_source_config = \<lparr>cfg_poll_interval_limits = default_poll_interval_limits, cfg_initial_poll_interval = PollInterval 4\<rparr>"

definition example_source_env :: source_env where
  "example_source_env = \<lparr>se_aead = example_aead, se_md5 = id, se_now = 0, se_transmit = NtpTimestamp 1,
     se_client_cookie = replicate 8 1, se_uid = replicate 32 2, se_nonce = replicate 16 3,
     se_jitter = (\<lambda>d. unat d)\<rparr>"

definition example_source_info :: ntp_source_info where
  "example_source_info = \<lparr>info_ip_list = [], info_server_id = replicate 10 0, info_local_stratum = 16\<rparr>"

lemma example_env_wf: "env_wf example_source_env"
  using example_aead_ok by (simp add: env_wf_def example_source_env_def)

theorem source_never_panics_witness:
  "\<exists>s acts snaps' s' acts'. source_new id example_addr example_source_config PV5 () None (ClockId 1) = Some (s, acts) \<and>
    source_run example_controller Map.empty s
      [TimerFires example_source_env example_source_info,
       DatagramArrives example_source_env example_source_info [1, 2, 3] (NtpTimestamp 0) (NtpTimestamp 0)] =
      Some (snaps', s', acts') \<and> source_inv s'"
  by (rule source_never_panics) (simp_all add: example_env_wf)

end
