(* ===== verification/Source_Safety.thy ===== *)
theory Source_Safety
  imports Ntp_Source
begin

text \<open>
  What the network can and cannot do to a time source: only answers to the outstanding request
  affect it, it takes at most one measurement for each request, its protocol version settles, and
  one way in which an unauthenticated packet ends an authenticated source.
\<close>

section \<open>What an unauthenticated attacker can do\<close>

text \<open>
  The message contains an encrypted field that the key opens, with everything in front of it as associated data.
\<close>

definition sealed_with :: "aead \<Rightarrow> cipher \<Rightarrow> bytes \<Rightarrow> bool" where
  "sealed_with A key message \<longleftrightarrow>
     (\<exists>version items off raw enc plaintext.
        raw_sequence (drop 48 message) (case version of EfV4 \<Rightarrow> 24 | EfV5 \<Rightarrow> 0) 4 version 0 =
          (map Inr items :: (invalid_nts_ext_field parsing_error + _) list) \<and>
        (off, raw) \<in> set items \<and> raw_type_id raw = TNtsEncryptedField \<and>
        from_message_bytes (message_bytes raw) = (Inr enc :: unit parsing_error + _) \<and>
        cipher_decrypt A key (enc_nonce enc) (enc_ciphertext enc) (take (48 + off) message) = Some plaintext)"

lemma sealed_fields_sealed:
  assumes "efdata_deserialize A message 48 (opt_cipher (Some key)) version = Inr r"
    "authenticated (def_efdata r) \<noteq> [] \<or> encrypted (def_efdata r) \<noteq> []"
  shows "sealed_with A key message"
proof -
  from covered_fields [OF assms(1)] assms(2) obtain items1 off raw items2 holder where
    i: "raw_sequence (drop 48 message) (case version of EfV4 \<Rightarrow> 24 | EfV5 \<Rightarrow> 0) 4 version 0 =
      (map Inr (items1 @ (off, raw) # items2) :: (invalid_nts_ext_field parsing_error + _) list)"
    "opens_at A (opt_cipher (Some key)) message 48 (off, raw) holder" by metis
  then obtain enc pt where "raw_type_id raw = TNtsEncryptedField"
      "from_message_bytes (message_bytes raw) = (Inr enc :: unit parsing_error + _)"
      "cipher_decrypt A key (enc_nonce enc) (enc_ciphertext enc) (take (48 + off) message) = Some pt"
    by (auto simp: opens_at_def opt_cipher_def)
  with i(1) show ?thesis unfolding sealed_with_def
    by (intro exI [of _ version] exI [of _ "items1 @ (off, raw) # items2"] exI [of _ off] exI [of _ raw]
        exI [of _ enc] exI [of _ pt]) simp
qed

lemma packet_with_fields_sealed:
  assumes "packet_with_fields A hdr message 48 (opt_cipher (Some key)) version = Inr (p, c)"
    "authenticated (efdata p) \<noteq> [] \<or> encrypted (efdata p) \<noteq> []"
  shows "sealed_with A key message"
proof -
  from assms(1) obtain r where "efdata_deserialize A message 48 (opt_cipher (Some key)) version = Inr r" "efdata p = def_efdata r"
    by (auto simp: packet_with_fields_def construct_packet_def result_simps split: sum.splits if_splits)
  with sealed_fields_sealed assms(2) show ?thesis by metis
qed

lemma packet_sealed:
  assumes "packet_deserialize A message (opt_cipher (Some key)) = Inr (p, c)"
    "authenticated (efdata p) \<noteq> [] \<or> encrypted (efdata p) \<noteq> []"
  shows "sealed_with A key message"
proof -
  have h4: "hs = 48" if "(h4_deserialize message :: packet_parsing_error + _) = Inr (h, hs)" for h hs
    using that by (auto simp: h4_deserialize_def result_simps WIRE_LENGTH_def Let_def split: if_splits)
  have h5: "hs = 48" if "(h5_deserialize message :: packet_parsing_error + _) = Inr (h, hs)" for h hs
    using that by (auto simp: h5_deserialize_def result_simps WIRE_LENGTH_def Let_def split: if_splits)
  from assms show ?thesis
    by (auto simp: packet_deserialize_def Let_def result_simps ext_field_data_default_def
        dest!: h4 h5 intro: packet_with_fields_sealed split: if_splits)
qed

lemma check_uid_found: "check_uid_from found efs uid = Some b \<Longrightarrow> \<not> found \<Longrightarrow> efs \<noteq> []"
  by (cases efs) auto

lemma valid_response_sealed:
  assumes "valid_server_response p rid True" "rqid_uid rid \<noteq> None" "\<not> is_kiss_ntsn p"
  shows "authenticated (efdata p) \<noteq> [] \<or> encrypted (efdata p) \<noteq> []"
proof -
  obtain uid where "rqid_uid rid = Some uid" using assms(2) by auto
  with assms(1,3) have "check_uid_extensionfield (authenticated (efdata p)) uid \<noteq> None \<or>
      check_uid_extensionfield (encrypted (efdata p)) uid \<noteq> None"
    by (auto simp: valid_server_response_def Let_def)
  then show ?thesis using check_uid_found by (auto simp: check_uid_extensionfield_def)
qed

text \<open>
  C8: nothing but an answer to the outstanding request affects a source. If handling a datagram
  changes the source or the shared snapshots or asks for an action, then the datagram parses under
  the source's key to a packet of an expected version, a request is outstanding and at most five
  seconds old, and the packet repeats what identifies that request. For a source with NTS the
  datagram is moreover sealed with the server's key, unless it is the refusal of a cookie.
\<close>
theorem only_answers_affect_the_source:
  assumes "source_inv s" "handle_incoming env C info snaps s message ts tr \<noteq> Some (snaps, s, [])"
  shows "\<exists>p. answers env s message p \<and>
    (\<forall>nts. src_nts s = Some nts \<longrightarrow> is_kiss_ntsn p \<or> sealed_with (se_aead env) (nts_s2c nts) message)"
proof -
  obtain p where p: "answers env s message p"
    using handle_incoming_cases [of env s message C info snaps ts tr] assms(2) by metis
  have "is_kiss_ntsn p \<or> sealed_with (se_aead env) (nts_s2c nts) message" if "src_nts s = Some nts" for nts
  proof -
    from p that obtain c rid v where "packet_deserialize (se_aead env) message (opt_cipher (Some (nts_s2c nts))) = Inr (p, c)"
        "src_current_request_identifier s = Some (rid, v)" "valid_server_response p rid True"
      by (auto simp: answers_def)
    moreover from this(2) have "rqid_uid rid \<noteq> None" using assms(1) that by (auto simp: source_inv_def)
    ultimately show ?thesis using valid_response_sealed packet_sealed by metis
  qed
  with p show ?thesis by blast
qed

text \<open>
  The two marks of a refusal in version 5 are independent: the flag for a rejected cookie, which lets
  an unauthenticated packet pass as an answer, and a poll interval of \<open>NEVER\<close>, which denies service.
\<close>

definition forged_header :: "ntp_timestamp \<Rightarrow> header_v5" where
  "forged_header t =
     h5_new\<lparr>h5_mode := V5Response, h5_poll := poll_NEVER, h5_client_cookie := ts_to_bits t,
       h5_flags := \<lparr>fl_synchronized = False, fl_interleaved_mode = False, fl_authnak = True\<rparr>\<rparr>"

definition forged_refusal :: "ntp_timestamp \<Rightarrow> bytes \<Rightarrow> ntp_packet" where
  "forged_refusal t uid =
     \<lparr>header = HV5 (forged_header t), efdata = unsealed [UniqueIdentifier uid, draft_identification], packet_mac = None\<rparr>"

lemma forged_header_reads:
  obtains bs g where "header_reads (HV5 (forged_header t)) bs (HV5 g)" "h5_stratum g = 0" "h5_poll g = poll_NEVER"
    "fl_authnak (h5_flags g)" "h5_client_cookie g = ts_to_bits t"
proof -
  have d: "h5_root_delay (forged_header t) = dur_ZERO" "h5_root_dispersion (forged_header t) = dur_ZERO"
      "h5_leap (forged_header t) = NoWarning" "h5_wf (forged_header t)"
    by (simp_all add: forged_header_def h5_new_def h5_wf_def)
  obtain bs rd rdisp where "header_reads (HV5 (forged_header t)) bs
      (HV5 ((fix_leap_indicator (forged_header t))\<lparr>h5_root_delay := rd, h5_root_dispersion := rdisp\<rparr>))"
    by (rule header_reads_v5 [of "forged_header t"]) (simp_all add: d duration_in_range_def dur_ZERO_def)
  then show thesis by (rule that) (simp_all add: fix_leap_indicator_def forged_header_def h5_new_def)
qed

lemma appends_new: "appends (new_cursor buf) w d \<Longrightarrow> take (cur_pos w) (cur_buf w) = d"
  by (auto simp: appends_def new_cursor_def)

lemma forged_refusal_reads:
  assumes "length uid = 32"
  obtains w p where "packet_serialize A nonce (forged_refusal t uid) no_cipher None (new_cursor (replicate 128 0)) = Inr w"
    "packet_deserialize A (take (cur_pos w) (cur_buf w)) provider = Inr (p, None)"
    "packet_version p = NtpV5" "is_kiss_deny p" "is_kiss_ntsn p" "\<not> is_kiss_rate i p"
    "valid_server_response p \<lparr>expected_origin_timestamp = t, rqid_uid = Some uid\<rparr> True"
proof -
  obtain bs g where g: "header_reads (HV5 (forged_header t)) bs (HV5 g)" "h5_stratum g = 0" "h5_poll g = poll_NEVER"
      "fl_authnak (h5_flags g)" "h5_client_cookie g = ts_to_bits t" by (rule forged_header_reads)
  let ?fs = "[UniqueIdentifier uid, draft_identification]"
  have uidok: "ef_reads 4 EfV5 (UniqueIdentifier uid) (UniqueIdentifier uid)"
    using assms word_field_reads [of "UniqueIdentifier uid" 4 EfV5] by simp
  then have r: "list_all2 (ef_reads 4 EfV5) ?fs ?fs" using draft_field_reads [of 4] by simp
  have ok: "\<forall>f \<in> set ?fs. ef_ok EfV5 f" using uidok draft_ok by (simp add: ef_reads_def)
  have "48 + length (ef_wires 4 EfV5 ?fs) \<le> length (replicate 128 (0 :: byte))"
    using assms word_total [of "UniqueIdentifier uid" 4] draft_total [of 4] by simp
  with plain_packet_appends [OF g(1) _ ok, of "replicate 128 0" A nonce no_cipher] obtain w where
    w: "packet_serialize A nonce (forged_refusal t uid) no_cipher None (new_cursor (replicate 128 0)) = Inr w"
      "appends (new_cursor (replicate 128 0)) w (bs @ ef_wires 4 EfV5 ?fs)"
    unfolding forged_refusal_def by auto
  have out: "take (cur_pos w) (cur_buf w) = bs @ ef_wires 4 EfV5 ?fs"
    using appends_new [OF w(2)] .
  have len: "length bs = 48" using g(1) by (simp add: header_reads_def)
  let ?p = "\<lparr>header = HV5 g, efdata = unsealed ?fs, packet_mac = None\<rparr>"
  have "packet_deserialize A (bs @ ef_wires 4 EfV5 ?fs) provider = Inr (?p, None)"
    using efdata_deserialize_plain_v5 [OF r, of A bs provider] len
    by (intro parse_with_fields [OF g(1)]) (simp_all add: unsealed_def draft_identification_def)
  moreover have "valid_server_response ?p \<lparr>expected_origin_timestamp = t, rqid_uid = Some uid\<rparr> True"
    using g assms by (auto simp: valid_server_response_def unsealed_def check_uid_extensionfield_def is_kiss_ntsn_def
      is_kiss_def packet_stratum_def cookie_from_ntp_timestamp_def draft_identification_def slice_def)
  ultimately show thesis using w(1) out g(2-4)
    by (intro that [of w ?p]) (simp_all add: packet_version_def is_kiss_deny_def is_kiss_ntsn_def is_kiss_rate_def
      is_kiss_def packet_stratum_def)
qed

text \<open>
  C20: an unauthenticated packet can end an authenticated source. The code means to act on a denial
  only if it is signed; but a version 5 packet that carries the flag for a rejected cookie together
  with the poll interval \<open>NEVER\<close> is accepted without authentication and treated as a denial.
  Whatever the keys of the source, a packet built from the outstanding request's identifiers alone
  and serialised without any cipher demobilises the source.
\<close>
theorem unsigned_refusal_demobilises:
  assumes "src_nts s = Some nts" "src_protocol_version s = PV5"
    and "src_current_request_identifier s = Some (\<lparr>expected_origin_timestamp = t, rqid_uid = Some uid\<rparr>, validity)"
    and "length uid = 32" "se_now env \<le> validity"
  shows "\<exists>w. packet_serialize (se_aead env) nonce (forged_refusal t uid) no_cipher None (new_cursor (replicate 128 0)) = Inr w \<and>
    handle_incoming env C info snaps s (take (cur_pos w) (cur_buf w)) ts tr = Some (snaps, s, [Demobilize])"
proof -
  obtain w p where w: "packet_serialize (se_aead env) nonce (forged_refusal t uid) no_cipher None (new_cursor (replicate 128 0)) = Inr w"
    and p: "packet_deserialize (se_aead env) (take (cur_pos w) (cur_buf w)) (opt_cipher (Some (nts_s2c nts))) = Inr (p, None)"
      "packet_version p = NtpV5" "is_kiss_deny p" "is_kiss_ntsn p" "\<not> is_kiss_rate (src_last_poll_interval s) p"
      "valid_server_response p \<lparr>expected_origin_timestamp = t, rqid_uid = Some uid\<rparr> True"
    by (rule forged_refusal_reads [OF assms(4)])
  have "answers env s (take (cur_pos w) (cur_buf w)) p"
    using assms p by (simp add: answers_def)
  from handle_incoming_answer [OF this, of C info snaps ts tr]
  have "handle_incoming env C info snaps s (take (cur_pos w) (cur_buf w)) ts tr = handle_answer env C info snaps (upgraded p s) p ts tr" .
  moreover have "upgraded p s = s" using assms(2) by (simp add: upgraded_def next_protocol_version_def)
  ultimately show ?thesis using w p(3,5) assms(1) by (simp add: handle_answer_def)
qed

definition example_source :: "unit ntp_source" where
  "example_source =
     \<lparr>src_nts = Some \<lparr>nts_cookies = cookie_stash_default, nts_c2s = AesSivCmac256 [], nts_s2c = AesSivCmac256 []\<rparr>,
      src_last_poll_interval = PollInterval 4, src_remote_min_poll_interval = PollInterval 4,
      src_current_request_identifier =
        Some (\<lparr>expected_origin_timestamp = NtpTimestamp 5, rqid_uid = Some (replicate 32 2)\<rparr>, 100),
      src_have_deny_rstr_response = False, src_stratum = 16, src_reference_id = REFID_NONE,
      src_source_addr = example_addr, src_source_id = REFID_NONE, src_reach = reach_never, src_tries = 1,
      src_controller = (), src_source_config = example_source_config, src_buffer = replicate 1024 0,
      src_protocol_version = PV5, src_bloom_filter = the (rbf_new 16), src_id = ClockId 1\<rparr>"

lemma example_source_inv: "source_inv example_source"
proof -
  obtain r where r: "rbf_new 16 = Some r" "chunk_size r = 16" by (simp add: rbf_new_def)
  with rbf_new_inv [OF r(1)] show ?thesis
    by (simp add: source_inv_def example_source_def stash_inv_default)
qed

theorem unsigned_refusal_demobilises_witness:
  "\<exists>w. packet_serialize example_aead [] (forged_refusal (NtpTimestamp 5) (replicate 32 2)) no_cipher None
      (new_cursor (replicate 128 0)) = Inr w \<and>
    handle_incoming example_source_env example_controller example_source_info Map.empty example_source
      (take (cur_pos w) (cur_buf w)) (NtpTimestamp 0) (NtpTimestamp 0) = Some (Map.empty, example_source, [Demobilize])"
proof -
  let ?nts = "\<lparr>nts_cookies = cookie_stash_default, nts_c2s = AesSivCmac256 [], nts_s2c = AesSivCmac256 []\<rparr>"
  have s: "src_nts example_source = Some ?nts" "src_protocol_version example_source = PV5"
    "src_current_request_identifier example_source =
      Some (\<lparr>expected_origin_timestamp = NtpTimestamp 5, rqid_uid = Some (replicate 32 2)\<rparr>, 100)"
    by (simp_all add: example_source_def)
  have e: "length (replicate 32 2 :: bytes) = 32" "se_now example_source_env \<le> 100" "se_aead example_source_env = example_aead"
    by (simp_all add: example_source_env_def)
  from unsigned_refusal_demobilises [OF s e(1,2), of "[]" example_controller example_source_info Map.empty "NtpTimestamp 0" "NtpTimestamp 0"]
  show ?thesis unfolding e(3) .
qed

lemma example_affected:
  obtains message where "handle_incoming example_source_env example_controller example_source_info Map.empty example_source
      message (NtpTimestamp 0) (NtpTimestamp 0) \<noteq> Some (Map.empty, example_source, [])"
proof -
  let ?nts = "\<lparr>nts_cookies = cookie_stash_default, nts_c2s = AesSivCmac256 [], nts_s2c = AesSivCmac256 []\<rparr>"
  have l: "length (replicate 32 2 :: bytes) = 32" by simp
  obtain w p where
    "packet_serialize (se_aead example_source_env) [] (forged_refusal (NtpTimestamp 5) (replicate 32 2)) no_cipher None
      (new_cursor (replicate 128 0)) = Inr w"
    and p: "packet_deserialize (se_aead example_source_env) (take (cur_pos w) (cur_buf w)) (opt_cipher (Some (nts_s2c ?nts))) = Inr (p, None)"
      "packet_version p = NtpV5" "is_kiss_deny p" "is_kiss_ntsn p" "\<not> is_kiss_rate (src_last_poll_interval example_source) p"
      "valid_server_response p \<lparr>expected_origin_timestamp = NtpTimestamp 5, rqid_uid = Some (replicate 32 2)\<rparr> True"
    by (rule forged_refusal_reads [OF l])
  have "answers example_source_env example_source (take (cur_pos w) (cur_buf w)) p"
    using p by (simp add: answers_def example_source_def example_source_env_def)
  from handle_incoming_answer [OF this, of example_controller example_source_info Map.empty "NtpTimestamp 0" "NtpTimestamp 0"] p(3,5)
  have "handle_incoming example_source_env example_controller example_source_info Map.empty example_source
      (take (cur_pos w) (cur_buf w)) (NtpTimestamp 0) (NtpTimestamp 0) = Some (Map.empty, upgraded p example_source, [Demobilize])"
    by (simp add: handle_answer_def) (simp add: upgraded_def example_source_def)
  then show thesis by (intro that [of "take (cur_pos w) (cur_buf w)"]) simp
qed

theorem only_answers_affect_the_source_witness:
  "\<exists>message p. handle_incoming example_source_env example_controller example_source_info Map.empty example_source
      message (NtpTimestamp 0) (NtpTimestamp 0) \<noteq> Some (Map.empty, example_source, []) \<and>
    answers example_source_env example_source message p \<and>
    (is_kiss_ntsn p \<or> sealed_with example_aead (AesSivCmac256 []) message)"
proof -
  obtain message where m: "handle_incoming example_source_env example_controller example_source_info Map.empty example_source
      message (NtpTimestamp 0) (NtpTimestamp 0) \<noteq> Some (Map.empty, example_source, [])" by (rule example_affected)
  from only_answers_affect_the_source [OF example_source_inv m] obtain p where
    "answers example_source_env example_source message p"
    "\<forall>nts. src_nts example_source = Some nts \<longrightarrow> is_kiss_ntsn p \<or> sealed_with (se_aead example_source_env) (nts_s2c nts) message"
    by blast
  with m show ?thesis by (intro exI [of _ message] exI [of _ p]) (simp add: example_source_def example_source_env_def)
qed

section \<open>One measurement for each poll\<close>

text \<open>Any controller, with a log of the measurements it was given.\<close>

definition logged :: "'c source_controller \<Rightarrow> ('c \<times> measurement list) source_controller" where
  "logged C =
     \<lparr>sc_handle_measurement = (\<lambda>m (c, log). (sc_handle_measurement C m c, log @ [m])),
      sc_set_usable = (\<lambda>u (c, log). (sc_set_usable C u c, log)),
      sc_desired_poll_interval = (\<lambda>(c, _). sc_desired_poll_interval C c)\<rparr>"

fun is_send :: "ntp_source_action \<Rightarrow> bool" where
  "is_send (Send _) \<longleftrightarrow> True"
| "is_send _ \<longleftrightarrow> False"

definition sends :: "ntp_source_action list \<Rightarrow> nat" where
  "sends acts = length (filter is_send acts)"

definition log_and_pending :: "('c \<times> measurement list) ntp_source \<Rightarrow> nat" where
  "log_and_pending s =
     length (snd (src_controller s)) + (if src_current_request_identifier s = None then 0 else 2)"

lemma logged_usable [simp]: "snd (sc_set_usable (logged C) u c) = snd c"
  by (simp add: logged_def case_prod_beta)

lemma logged_measurement [simp]: "snd (sc_handle_measurement (logged C) m c) = snd c @ [m]"
  by (simp add: logged_def case_prod_beta)

lemma answer_log:
  assumes "source_inv s" "src_current_request_identifier s \<noteq> None"
    and "handle_answer env (logged C) info snaps s p ts tr = Some (snaps', s', acts)"
  shows "log_and_pending s' + sends acts \<le> log_and_pending s"
proof (cases rule: handle_answer_cases [of s p env "logged C" info snaps ts tr, case_names rate deny unsigned_deny ignored measured])
  case measured
  have "rbf_inv (src_bloom_filter s)" using assms(1) by (simp add: source_inv_def)
  from process_message_result [OF this, of env "logged C" info snaps p ts tr] obtain poll bloom u snaps1 where
    "process_message env (logged C) info snaps s p ts tr = Some (snaps1,
       (received p s)\<lparr>src_remote_min_poll_interval := poll, src_bloom_filter := bloom,
         src_controller :=
           (let (m, m') = measurements_from_packet p (src_id s) ts tr in
            sc_handle_measurement (logged C) m' (sc_handle_measurement (logged C) m (sc_set_usable (logged C) u (src_controller s)))),
         src_nts := with_new_cookies p (src_nts s)\<rparr>, [])" .
  with assms(2,3) measured(4) show ?thesis
    by (auto simp: log_and_pending_def received_def sends_def case_prod_beta)
qed (use assms(3) in \<open>auto simp: log_and_pending_def sends_def\<close>)

lemma step_log:
  assumes "source_inv s" "env_wf (ev_env e)" "source_step (logged C) snaps s e = Some (snaps', s', acts)"
  shows "log_and_pending s' \<le> log_and_pending s + 2 * sends acts"
proof (cases e)
  case (TimerFires env info)
  with assms(2) have env: "env_wf env" by simp
  show ?thesis
  proof (cases rule: handle_timer_cases [OF assms(1) env, of "logged C" info snaps, case_names stop reset sent])
    case stop
    then show ?thesis using assms(3) by (simp add: TimerFires)
  next
    case (reset nts')
    then show ?thesis using assms(3) by (auto simp: TimerFires log_and_pending_def)
  next
    case (sent snaps1 s1 bytes t rid u)
    then show ?thesis using assms(3) by (auto simp: TimerFires log_and_pending_def sends_def)
  qed
next
  case (DatagramArrives env info message ts tr)
  show ?thesis
  proof (cases rule: handle_incoming_cases [of env s message "logged C" info snaps ts tr, case_names ignored answer])
    case ignored
    then show ?thesis using assms(3) by (simp add: DatagramArrives)
  next
    case (answer p)
    have "source_inv (upgraded p s)" using assms(1) by (simp add: source_inv_def upgraded_def)
    moreover have "src_current_request_identifier (upgraded p s) \<noteq> None" using answer(1) by (auto simp: answers_def upgraded_def)
    ultimately have "log_and_pending s' + sends acts \<le> log_and_pending (upgraded p s)"
      by (rule answer_log) (use assms(3) answer(2) in \<open>simp add: DatagramArrives\<close>)
    then show ?thesis by (simp add: log_and_pending_def upgraded_def)
  qed
qed

lemma run_log:
  assumes "source_inv s" "\<forall>e \<in> set es. env_wf (ev_env e)" "source_run (logged C) snaps s es = Some (snaps', s', acts)"
  shows "log_and_pending s' \<le> log_and_pending s + 2 * sends acts"
  using assms
proof (induction es arbitrary: snaps s acts)
  case (Cons e es)
  from Cons.prems(3) obtain snaps1 s1 acts1 acts2 where
    1: "source_step (logged C) snaps s e = Some (snaps1, s1, acts1)" "source_run (logged C) snaps1 s1 es = Some (snaps', s', acts2)"
      "acts = acts1 @ acts2" by (auto simp: bind_eq_Some_conv)
  have "source_inv s1" using source_step_inv [of s e "logged C" snaps] 1(1) Cons.prems by auto
  from Cons.IH [OF this _ 1(2)] step_log [OF _ _ 1(1)] Cons.prems 1(3) show ?case by (simp add: sends_def)
qed simp

text \<open>
  C9: a source takes at most one measurement, in both directions, for each request it sends. However
  datagrams are repeated, delayed, reordered or forged, the controller behind the source receives at
  most two measurements, one for each direction, for every request that went out: a response is
  accepted once, and answers to earlier requests are not accepted at all.
\<close>
theorem one_measurement_per_poll:
  assumes "source_new md5 addr config version (c, []) nts sid = Some (s, acts0)"
    and "\<And>nts'. nts = Some nts' \<Longrightarrow> stash_inv (nts_cookies nts')"
    and "\<forall>e \<in> set es. env_wf (ev_env e)" "source_run (logged C) snaps s es = Some (snaps', s', acts)"
  shows "length (snd (src_controller s')) \<le> 2 * sends acts"
proof -
  have "source_inv s"
    using source_new_inv [where nts = nts and ?md5.0 = md5 and addr = addr and config = config and version = version
        and c = "(c, [] :: measurement list)" and sid = sid] assms(1,2) by auto
  from run_log [OF this assms(3,4)] assms(1) show ?thesis
    by (auto simp: log_and_pending_def source_new_def split: if_splits)
qed

theorem one_measurement_per_poll_witness:
  "\<exists>s snaps' s' acts. source_new id example_addr example_source_config PV4 ((), []) None (ClockId 1) = Some (s, [SetTimer 0]) \<and>
    source_run (logged example_controller) Map.empty s
      [TimerFires example_source_env example_source_info,
       DatagramArrives example_source_env example_source_info [1, 2, 3] (NtpTimestamp 0) (NtpTimestamp 0)] =
      Some (snaps', s', acts) \<and> length (snd (src_controller s')) \<le> 2 * sends acts"
proof -
  let ?es = "[TimerFires example_source_env example_source_info,
       DatagramArrives example_source_env example_source_info [1, 2, 3] (NtpTimestamp 0) (NtpTimestamp 0)]"
  obtain s where s: "source_new id example_addr example_source_config PV4 ((), [] :: measurement list) None (ClockId 1) =
      Some (s, [SetTimer 0])" "source_inv s"
    using source_new_inv [where nts = None and ?md5.0 = id and addr = example_addr and config = example_source_config
        and version = PV4 and c = "((), [] :: measurement list)" and sid = "ClockId 1"] by auto
  have e: "\<forall>e \<in> set ?es. env_wf (ev_env e)" by (simp add: example_env_wf)
  obtain snaps' s' acts where r: "source_run (logged example_controller) Map.empty s ?es = Some (snaps', s', acts)"
    using source_run_inv [OF s(2) e] by blast
  from one_measurement_per_poll [OF s(1) _ e r] s(1) r show ?thesis by auto
qed

section \<open>The protocol version settles\<close>

fun version_rank :: "protocol_version \<Rightarrow> nat" where
  "version_rank (PV4UpgradingToV5 n) = max (unat n) 1 + 1"
| "version_rank PUpgradedToV5 = 1"
| "version_rank PV4 = 0"
| "version_rank PV5 = 0"

inductive version_step :: "protocol_version \<Rightarrow> protocol_version \<Rightarrow> bool" where
  try_again: "1 < unat n \<Longrightarrow> version_step (PV4UpgradingToV5 n) (PV4UpgradingToV5 (n - 1))"
| give_up: "unat n \<le> 1 \<Longrightarrow> version_step (PV4UpgradingToV5 n) PV4"
| upgrade: "version_step (PV4UpgradingToV5 n) PUpgradedToV5"
| confirm: "version_step PUpgradedToV5 PV5"
| fall_back: "version_step PUpgradedToV5 PV4"

lemma version_step_rank: "version_step v v' \<Longrightarrow> version_rank v' < version_rank v"
proof (induction rule: version_step.induct)
  case (try_again n)
  then have "n \<noteq> 0" by auto
  then have "unat (n - 1) = unat n - 1" by (rule unat_minus_one)
  with try_again show ?case by simp
qed simp_all

lemma next_protocol_version_step: "next_protocol_version p v = v \<or> version_step v (next_protocol_version p v)"
proof (cases v)
  case (PV4UpgradingToV5 n)
  show ?thesis
  proof (cases "is_upgrade p")
    case False
    have "n - 1 = 0 \<longleftrightarrow> n = 1" by simp
    moreover have "unat n \<le> 1 \<longleftrightarrow> n = 0 \<or> n = 1" using unat_1 word_unat_eq_iff [of n 0] word_unat_eq_iff [of n 1] by auto
    ultimately show ?thesis
      using False PV4UpgradingToV5 by (auto simp: next_protocol_version_def Let_def intro!: version_step.intros)
  qed (simp add: PV4UpgradingToV5 next_protocol_version_def version_step.upgrade)
qed (simp_all add: next_protocol_version_def version_step.confirm)

lemma start_poll_version_step:
  "src_protocol_version (start_poll s) = src_protocol_version s \<or>
   version_step (src_protocol_version s) (src_protocol_version (start_poll s))"
  by (simp add: start_poll_def Let_def version_step.fall_back)

lemma answer_version:
  assumes "source_inv s" "handle_answer env C info snaps s p ts tr = Some (snaps', s', acts)"
  shows "src_protocol_version s' = src_protocol_version s"
proof (cases rule: handle_answer_cases [of s p env C info snaps ts tr, case_names rate deny unsigned_deny ignored measured])
  case measured
  have "rbf_inv (src_bloom_filter s)" using assms(1) by (simp add: source_inv_def)
  from process_message_result [OF this, of env C info snaps p ts tr] obtain poll bloom u snaps1 where
    "process_message env C info snaps s p ts tr = Some (snaps1,
       (received p s)\<lparr>src_remote_min_poll_interval := poll, src_bloom_filter := bloom,
         src_controller :=
           (let (m, m') = measurements_from_packet p (src_id s) ts tr in
            sc_handle_measurement C m' (sc_handle_measurement C m (sc_set_usable C u (src_controller s)))),
         src_nts := with_new_cookies p (src_nts s)\<rparr>, [])" .
  with assms(2) measured(4) show ?thesis by (auto simp: received_def)
qed (use assms(2) in auto)

lemma source_step_version:
  assumes "source_inv s" "env_wf (ev_env e)" "source_step C snaps s e = Some (snaps', s', acts)"
  shows "src_protocol_version s' = src_protocol_version s \<or> version_step (src_protocol_version s) (src_protocol_version s')"
proof (cases e)
  case (TimerFires env info)
  with assms(2) have env: "env_wf env" by simp
  show ?thesis
  proof (cases rule: handle_timer_cases [OF assms(1) env, of C info snaps, case_names stop reset sent])
    case stop
    then show ?thesis using assms(3) by (simp add: TimerFires)
  next
    case (reset nts')
    then show ?thesis using assms(3) start_poll_version_step [of s] by (auto simp: TimerFires)
  next
    case (sent snaps1 s1 bytes t rid u)
    then show ?thesis using assms(3) start_poll_version_step [of s] by (auto simp: TimerFires)
  qed
next
  case (DatagramArrives env info message ts tr)
  show ?thesis
  proof (cases rule: handle_incoming_cases [of env s message C info snaps ts tr, case_names ignored answer])
    case ignored
    then show ?thesis using assms(3) by (simp add: DatagramArrives)
  next
    case (answer p)
    have "source_inv (upgraded p s)" using assms(1) by (simp add: source_inv_def upgraded_def)
    then have "src_protocol_version s' = src_protocol_version (upgraded p s)"
      by (rule answer_version) (use assms(3) answer(2) in \<open>simp add: DatagramArrives\<close>)
    then show ?thesis using next_protocol_version_step by (simp add: upgraded_def)
  qed
qed

fun version_changes :: "'c source_controller \<Rightarrow> source_snapshots \<Rightarrow> 'c ntp_source \<Rightarrow> source_event list \<Rightarrow> nat" where
  "version_changes C snaps s [] = 0"
| "version_changes C snaps s (e # es) =
     (case source_step C snaps s e of
        None \<Rightarrow> 0
      | Some (snaps', s', acts) \<Rightarrow>
          (if src_protocol_version s' = src_protocol_version s then 0 else 1) + version_changes C snaps' s' es)"

lemma version_changes_bound:
  assumes "source_inv s" "\<forall>e \<in> set es. env_wf (ev_env e)"
  shows "version_changes C snaps s es \<le> version_rank (src_protocol_version s)"
  using assms
proof (induction es arbitrary: snaps s)
  case (Cons e es)
  from source_step_inv [of s e C snaps] Cons.prems obtain snaps1 s1 acts where
    1: "source_step C snaps s e = Some (snaps1, s1, acts)" "source_inv s1" by auto
  have "src_protocol_version s1 = src_protocol_version s \<or> version_step (src_protocol_version s) (src_protocol_version s1)"
    using source_step_version [OF _ _ 1(1)] Cons.prems by simp
  moreover have "version_changes C snaps1 s1 es \<le> version_rank (src_protocol_version s1)"
    using Cons.IH [OF 1(2)] Cons.prems by simp
  ultimately show ?case using 1(1) version_step_rank [of "src_protocol_version s" "src_protocol_version s1"] by auto
qed simp



end
