(* ===== verification/Ntp_System.thy ===== *)
theory Ntp_System
  imports Ntp_Server Source_Safety
begin

text \<open>
  The manager of sources and servers (\<^verbatim>\<open>ntp-proto/src/system.rs\<close>): what the daemon announces about its own
  synchronisation, computed from the snapshots that the sources publish, and why no loop of servers
  that use each other's time goes unnoticed.
\<close>

section \<open>Snapshots\<close>

datatype source_snapshot = SnapNtp ntp_source_snapshot | SnapExternal byte reference_id

definition ntp_snapshot_default :: ntp_snapshot where
  "ntp_snapshot_default = \<lparr>snap_stratum = 16, snap_reference_id = REFID_NONE, snap_bloom_filter = bloom_new\<rparr>"

definition saturating_inc_u8 :: "byte \<Rightarrow> byte" where
  "saturating_inc_u8 b = (if b = 255 then 255 else b + 1)"

fun snapshot_origin :: "source_snapshot \<Rightarrow> byte \<times> reference_id" where
  "snapshot_origin (SnapNtp s) = (ss_stratum s, ss_source_id s)"
| "snapshot_origin (SnapExternal stratum sid) = (stratum, sid)"

fun add_source_filter :: "bloom_filter \<Rightarrow> source_snapshot \<Rightarrow> bloom_filter" where
  "add_source_filter f (SnapNtp s) = (case ss_bloom_filter s of Some g \<Rightarrow> bloom_add f g | None \<Rightarrow> f)"
| "add_source_filter f (SnapExternal _ _) = f"

definition from_used_sources :: "byte \<Rightarrow> server_id \<Rightarrow> source_snapshot list \<Rightarrow> ntp_snapshot" where
  "from_used_sources own_stratum sid used =
     (let (stratum, rid) =
            (case used of
               [] \<Rightarrow> (own_stratum, REFID_NONE)
             | s # _ \<Rightarrow> (saturating_inc_u8 (fst (snapshot_origin s)), snd (snapshot_origin s)))
      in \<lparr>snap_stratum = stratum, snap_reference_id = rid,
          snap_bloom_filter = add_id (foldl add_source_filter bloom_new used) sid\<rparr>)"

section \<open>The manager\<close>

datatype source_type = Pps | Sock | NtpType | Csptp

record ntp_manager =
  mgr_synchronization_config :: synchronization_config
  mgr_server_id :: server_id
  mgr_source_snapshots :: source_snapshots
  mgr_server_info :: ntp_server_info
  mgr_source_info :: ntp_source_info

definition time_snapshot_default :: time_snapshot where
  "time_snapshot_default =
     \<lparr>ts_precision = dur_from_exponent (- 18), ts_root_delay = dur_ZERO, ts_root_dispersion = (\<lambda>_. dur_ZERO),
      ts_leap_indicator = Unknown\<rparr>"

definition manager_new :: "synchronization_config \<Rightarrow> ip_addr list \<Rightarrow> server_id \<Rightarrow> ntp_manager" where
  "manager_new config ip_list sid =
     (let source_info = \<lparr>info_ip_list = ip_list, info_server_id = sid, info_local_stratum = cfg_local_stratum config\<rparr>;
          server_info = \<lparr>time_snapshot_of = time_snapshot_default, ntp_snapshot_of = ntp_snapshot_default\<rparr>;
          server_info =
            (if cfg_local_stratum config = 1
             then server_info\<lparr>time_snapshot_of := (time_snapshot_of server_info)\<lparr>ts_leap_indicator := NoWarning\<rparr>,
                    ntp_snapshot_of := (ntp_snapshot_of server_info)
                      \<lparr>snap_reference_id := to_reference_id (cfg_reference_id config)\<rparr>\<rparr>
             else server_info)
      in \<lparr>mgr_synchronization_config = config, mgr_server_id = sid, mgr_source_snapshots = Map.empty,
          mgr_server_info = server_info, mgr_source_info = source_info\<rparr>)"

definition manager_new_server :: "server_config \<Rightarrow> key_set \<Rightarrow> ntp_manager \<Rightarrow> server option" where
  "manager_new_server config ks m = server_new config (mgr_server_info m) ks"

definition manager_new_source ::
  "(bytes \<Rightarrow> bytes) \<Rightarrow> socket_addr \<Rightarrow> source_config \<Rightarrow> protocol_version \<Rightarrow> 'c \<Rightarrow> source_nts_data option \<Rightarrow> clock_id \<Rightarrow>
   ntp_manager \<Rightarrow> ('c ntp_source \<times> ntp_source_action list) option" where
  "manager_new_source md5 addr config version c nts sid m = source_new md5 addr config version c nts sid"

definition update_ip_list :: "ip_addr list \<Rightarrow> ntp_manager \<Rightarrow> ntp_manager" where
  "update_ip_list ips m = m\<lparr>mgr_source_info := (mgr_source_info m)\<lparr>info_ip_list := ips\<rparr>\<rparr>"

fun used_source :: "source_snapshots \<Rightarrow> clock_id \<times> source_type \<Rightarrow> source_snapshot option" where
  "used_source snaps (sid, Pps) = Some (SnapExternal 0 REFID_PPS)"
| "used_source snaps (sid, Sock) = Some (SnapExternal 0 REFID_SOCK)"
| "used_source snaps (sid, NtpType) = map_option SnapNtp (snaps sid)"
| "used_source snaps (sid, Csptp) = Some (SnapExternal 0 REFID_CSPTP)"

text \<open>Collecting into an \<^verbatim>\<open>Option\<close> gives \<^verbatim>\<open>None\<close> as soon as one element is.\<close>

fun collect_options :: "'a option list \<Rightarrow> 'a list option" where
  "collect_options [] = Some []"
| "collect_options (None # _) = None"
| "collect_options (Some x # xs) = map_option (Cons x) (collect_options xs)"

definition update_used_sources :: "(clock_id \<times> source_type) list \<Rightarrow> ntp_manager \<Rightarrow> ntp_manager \<times> ntp_snapshot" where
  "update_used_sources sources m =
     (case collect_options (map (used_source (mgr_source_snapshots m)) sources) of
        Some used \<Rightarrow>
          let snapshot = from_used_sources (cfg_local_stratum (mgr_synchronization_config m)) (mgr_server_id m) used
          in (m\<lparr>mgr_server_info := (mgr_server_info m)\<lparr>ntp_snapshot_of := snapshot\<rparr>\<rparr>, snapshot)
      | None \<Rightarrow> (m, ntp_snapshot_of (mgr_server_info m)))"

definition manager_observe :: "ntp_manager \<Rightarrow> ntp_snapshot" where
  "manager_observe m = ntp_snapshot_of (mgr_server_info m)"

definition update_time_snapshot :: "time_snapshot \<Rightarrow> ntp_manager \<Rightarrow> ntp_manager" where
  "update_time_snapshot t m = m\<lparr>mgr_server_info := (mgr_server_info m)\<lparr>time_snapshot_of := t\<rparr>\<rparr>"

section \<open>Synchronisation loops\<close>

definition filters_wf :: "source_snapshot list \<Rightarrow> bool" where
  "filters_wf used \<longleftrightarrow> (\<forall>s f. SnapNtp s \<in> set used \<longrightarrow> ss_bloom_filter s = Some f \<longrightarrow> length f = 512)"

definition server_id_wf :: "server_id \<Rightarrow> bool" where
  "server_id_wf sid \<longleftrightarrow> (\<forall>i \<in> set sid. unat i < 4096)"

lemma fold_source_filters:
  assumes "filters_wf used" "length f = 512" "unat j < 4096"
  shows "length (foldl add_source_filter f used) = 512 \<and>
    (bloom_is_set (foldl add_source_filter f used) j \<longleftrightarrow>
       bloom_is_set f j \<or> (\<exists>s g. SnapNtp s \<in> set used \<and> ss_bloom_filter s = Some g \<and> bloom_is_set g j))"
  using assms(1,2)
proof (induction used arbitrary: f)
  case (Cons u used)
  show ?case
  proof (cases "\<exists>s g. u = SnapNtp s \<and> ss_bloom_filter s = Some g")
    case True
    then obtain s g where u: "u = SnapNtp s" "ss_bloom_filter s = Some g" by blast
    have g: "length g = 512" using Cons.prems(1) u by (auto simp: filters_wf_def)
    have w: "filters_wf used" using Cons.prems(1) by (simp add: filters_wf_def)
    have "length (bloom_add f g) = 512" using g Cons.prems(2) by simp
    from Cons.IH [OF w this] bloom_add_is_set [OF Cons.prems(2) g assms(3)] show ?thesis using u by auto
  next
    case False
    then have f: "add_source_filter f u = f" by (cases u) (auto split: option.splits)
    have w: "filters_wf used" using Cons.prems(1) by (simp add: filters_wf_def)
    from Cons.IH [OF w Cons.prems(2)] False show ?thesis by (auto simp: f)
  qed
qed simp

lemma from_used_sources_filter:
  assumes "filters_wf used" "server_id_wf sid" "unat j < 4096"
  shows "length (snap_bloom_filter (from_used_sources st sid used)) = 512"
    "bloom_is_set (snap_bloom_filter (from_used_sources st sid used)) j \<longleftrightarrow>
       j \<in> set sid \<or> (\<exists>s g. SnapNtp s \<in> set used \<and> ss_bloom_filter s = Some g \<and> bloom_is_set g j)"
proof -
  let ?f = "foldl add_source_filter bloom_new used"
  have b: "length bloom_new = 512" by (simp add: bloom_new_def BLOOM_BYTES_def)
  note f = fold_source_filters [OF assms(1) b assms(3)]
  have n: "\<not> bloom_is_set bloom_new j"
    using bloom_union_is_set [of "[]" j] assms(3) by (simp add: bloom_union_def)
  have r: "snap_bloom_filter (from_used_sources st sid used) = add_id ?f sid"
    by (simp add: from_used_sources_def case_prod_beta Let_def)
  show "length (snap_bloom_filter (from_used_sources st sid used)) = 512" using f r by simp
  show "bloom_is_set (snap_bloom_filter (from_used_sources st sid used)) j \<longleftrightarrow>
       j \<in> set sid \<or> (\<exists>s g. SnapNtp s \<in> set used \<and> ss_bloom_filter s = Some g \<and> bloom_is_set g j)"
    using f n add_id_is_set [of ?f sid j] assms(2) r by (auto simp: server_id_wf_def)
qed

text \<open>
  The filters that announce a server: its own, and that of every server that uses a source whose
  snapshot has such a filter, fetched part by part with any failed exchanges in between.
\<close>

inductive announces :: "server_id \<Rightarrow> bloom_filter \<Rightarrow> bool" for sid where
  own: "server_id_wf sid \<Longrightarrow> filters_wf used \<Longrightarrow> announces sid (snap_bloom_filter (from_used_sources st sid used))"
| via: "announces sid F \<Longrightarrow> rbf_session F r \<Longrightarrow> is_filled r \<Longrightarrow> SnapNtp s \<in> set used \<Longrightarrow>
    ss_bloom_filter s = full_filter r \<Longrightarrow> filters_wf used \<Longrightarrow> server_id_wf sid' \<Longrightarrow>
    announces sid (snap_bloom_filter (from_used_sources st sid' used))"

lemma fetched_filter:
  assumes "rbf_session F r" "length F = 512" "is_filled r"
  shows "full_filter r = Some F"
  using rbf_session_agrees [OF assms(1,2)] assms(3) by (simp add: full_filter_def rbf_agrees_def)

lemma announces_contains:
  assumes "announces sid F"
  shows "server_id_wf sid \<and> length F = 512 \<and> contains_id F sid"
  using assms
proof induction
  case (own used st)
  have "bloom_is_set (snap_bloom_filter (from_used_sources st sid used)) j" if "j \<in> set sid" for j
  proof -
    have "unat j < 4096" using that own(1) by (simp add: server_id_wf_def)
    from from_used_sources_filter(2) [OF own(2,1) this] that show ?thesis by simp
  qed
  with own from_used_sources_filter(1) [of used sid 0 st] show ?case
    by (simp add: contains_id_def list_all_iff)
next
  case (via F r s used sid' st)
  have F: "ss_bloom_filter s = Some F" using fetched_filter [OF via(2)] via by simp
  have "bloom_is_set (snap_bloom_filter (from_used_sources st sid' used)) j" if "j \<in> set sid" for j
  proof -
    have j: "unat j < 4096" using that via by (simp add: server_id_wf_def)
    have "bloom_is_set F j" using that via by (simp add: contains_id_def list_all_iff)
    with from_used_sources_filter(2) [OF via(6,7) j] F via(4) show ?thesis by auto
  qed
  with via from_used_sources_filter(1) [of used sid' 0 st] show ?case
    by (simp add: contains_id_def list_all_iff)
qed

text \<open>
  C10: no synchronisation loop of version 5 servers goes unnoticed. When a server's time reached a
  peer through any chain of servers, each of which fetched the complete filter of the one before it
  and used it as a source, then the filter the peer announces contains the server's identifier, and
  the server does not accept the peer as a source to synchronise to.
\<close>
theorem loops_are_rejected:
  assumes "announces sid F" "rbf_session F r" "is_filled r" "ss_bloom_filter s = full_filter r"
  shows "\<exists>e. accept_synchronization md5 s st ips sid = Inl e \<and> e \<in> {SyncStratum, SyncLoop}"
proof -
  have F: "length F = 512" "contains_id F sid" using announces_contains [OF assms(1)] by simp_all
  have "ss_bloom_filter s = Some F" using fetched_filter [OF assms(2) F(1) assms(3)] assms(4) by simp
  with F(2) show ?thesis by (simp add: accept_synchronization_def)
qed

lemma filter_can_be_fetched:
  assumes "length F = 512"
  shows "\<exists>r. rbf_session F r \<and> is_filled r"
proof -
  define r0 where "r0 = the (rbf_new 512)"
  define r1 where "r1 = snd (next_request r0 [1])"
  define r2 where "r2 = snd (the (handle_response r1 [1] (ReferenceIdResponse F)))"
  have "rbf_session F r0" by (rule start [of 512]) (simp add: r0_def rbf_new_def)
  then have "rbf_session F r1" unfolding r1_def by (rule request)
  then have "rbf_session F r2"
    by (rule answer [of _ _ 0 "[1]" "ReferenceIdResponse F" "[1]" "Inr ()"])
      (use assms in \<open>simp_all add: r2_def r1_def r0_def rbf_new_def next_request_def Let_def
        handle_response_def bloom_new_def BLOOM_BYTES_def rid_to_response_def get_range_def slice_def\<close>)
  moreover have "is_filled r2"
    using assms by (simp add: r2_def r1_def r0_def rbf_new_def next_request_def Let_def
        handle_response_def bloom_new_def BLOOM_BYTES_def advance_next_to_request_def)
  ultimately show ?thesis by blast
qed

theorem loops_are_rejected_witness:
  "\<exists>F r. announces [1, 2] F \<and> rbf_session F r \<and> is_filled r \<and>
     accept_synchronization id ((snapshot_from_source example_source)\<lparr>ss_bloom_filter := full_filter r, ss_stratum := 3\<rparr>)
       16 [] [1, 2] = Inl SyncLoop"
proof -
  let ?F = "snap_bloom_filter (from_used_sources 16 [1, 2] [])"
  have a: "announces [1, 2] ?F" by (rule own) (simp_all add: server_id_wf_def filters_wf_def)
  then have "length ?F = 512" using announces_contains by blast
  then obtain r where r: "rbf_session ?F r" "is_filled r" using filter_can_be_fetched by blast
  let ?s = "(snapshot_from_source example_source)\<lparr>ss_bloom_filter := full_filter r, ss_stratum := 3\<rparr>"
  have s: "ss_bloom_filter ?s = full_filter r" by simp
  have "accept_synchronization id ?s 16 [] [1, 2] \<noteq> Inl SyncStratum" by (simp add: accept_synchronization_def)
  then have "accept_synchronization id ?s 16 [] [1, 2] = Inl SyncLoop"
    using loops_are_rejected [OF a r s, of id 16 "[]"] by auto
  with a r show ?thesis by blast
qed

section \<open>What the daemon announces\<close>

lemma collect_options_Some: "collect_options xs = Some ys \<longleftrightarrow> xs = map Some ys"
proof (induction xs arbitrary: ys)
  case (Cons x xs)
  then show ?case by (cases x; cases ys) auto
qed auto

text \<open>The daemon announces one more than the stratum of its first source, and keeps its last
  announcement while a used source has not published a snapshot.\<close>

lemma announced_snapshot:
  "ntp_snapshot_of (mgr_server_info (fst (update_used_sources sources m))) = snd (update_used_sources sources m)"
  "snd (update_used_sources sources m) =
     (if \<exists>sid. (sid, NtpType) \<in> set sources \<and> mgr_source_snapshots m sid = None
      then ntp_snapshot_of (mgr_server_info m)
      else from_used_sources (cfg_local_stratum (mgr_synchronization_config m)) (mgr_server_id m)
             (map (the \<circ> used_source (mgr_source_snapshots m)) sources))"
proof -
  let ?us = "map (used_source (mgr_source_snapshots m)) sources"
  show "ntp_snapshot_of (mgr_server_info (fst (update_used_sources sources m))) = snd (update_used_sources sources m)"
    by (simp add: update_used_sources_def Let_def split: option.split)
  have none: "used_source (mgr_source_snapshots m) x = None \<longleftrightarrow>
      (\<exists>sid. x = (sid, NtpType) \<and> mgr_source_snapshots m sid = None)" for x
    by (cases "(mgr_source_snapshots m, x)" rule: used_source.cases) auto
  show "snd (update_used_sources sources m) =
     (if \<exists>sid. (sid, NtpType) \<in> set sources \<and> mgr_source_snapshots m sid = None
      then ntp_snapshot_of (mgr_server_info m)
      else from_used_sources (cfg_local_stratum (mgr_synchronization_config m)) (mgr_server_id m)
             (map (the \<circ> used_source (mgr_source_snapshots m)) sources))"
  proof (cases "collect_options ?us")
    case None
    have "None \<in> set ?us"
    proof (rule ccontr)
      assume "None \<notin> set ?us"
      then have "?us = map Some (map the ?us)" by (induction sources) auto
      then have "collect_options ?us = Some (map the ?us)" by (simp only: collect_options_Some)
      with None show False by simp
    qed
    then have "\<exists>sid. (sid, NtpType) \<in> set sources \<and> mgr_source_snapshots m sid = None"
      using none by (metis (no_types, lifting) image_iff list.set_map)
    with None show ?thesis by (simp add: update_used_sources_def)
  next
    case (Some ys)
    then have us: "?us = map Some ys" by (simp add: collect_options_Some)
    then have "None \<notin> set ?us" by (simp del: map_map)
    then have "\<not> (\<exists>sid. (sid, NtpType) \<in> set sources \<and> mgr_source_snapshots m sid = None)"
      using none by (metis (no_types, lifting) image_eqI list.set_map)
    moreover have "map (the \<circ> used_source (mgr_source_snapshots m)) sources = ys"
      using arg_cong [OF us, of "map the"] by (simp add: comp_def)
    ultimately show ?thesis using Some by (auto simp: update_used_sources_def Let_def)
  qed
qed

end
