(* ===== verification/Nts_Records.thy ===== *)
theory Nts_Records
  imports Crypto
begin

text \<open>
  The records of the NTS key exchange (\<^verbatim>\<open>ntp-proto/src/nts/record.rs\<close>) and the numbers in them
  (\<^verbatim>\<open>ntp-proto/src/nts/mod.rs\<close>). A reader is the list of the bytes that the peer sends before it closes its
  side; a parser returns what is left of them. The body of a record is read through
  \<^verbatim>\<open>AsyncReadExt::take\<close>: the functions on bodies take its size and the bytes behind the record's
  header. A string of the source is the list of its bytes, which are valid UTF-8.
\<close>

section \<open>Numbers\<close>

datatype next_protocol = NTPv4 | DraftNTPv5 | UnknownProtocol u16

definition protocol_from_u16 :: "u16 \<Rightarrow> next_protocol" where
  "protocol_from_u16 v = (if v = 0 then NTPv4 else if v = 0x8001 then DraftNTPv5 else UnknownProtocol v)"

fun protocol_to_u16 :: "next_protocol \<Rightarrow> u16" where
  "protocol_to_u16 NTPv4 = 0"
| "protocol_to_u16 DraftNTPv5 = 0x8001"
| "protocol_to_u16 (UnknownProtocol v) = v"

datatype error_code = UnrecognizedCriticalRecordCode | BadRequest | InternalServerError | UnknownError u16

definition error_from_u16 :: "u16 \<Rightarrow> error_code" where
  "error_from_u16 v =
     (if v = 0 then UnrecognizedCriticalRecordCode else if v = 1 then BadRequest
      else if v = 2 then InternalServerError else UnknownError v)"

fun error_to_u16 :: "error_code \<Rightarrow> u16" where
  "error_to_u16 UnrecognizedCriticalRecordCode = 0"
| "error_to_u16 BadRequest = 1"
| "error_to_u16 InternalServerError = 2"
| "error_to_u16 (UnknownError v) = v"

datatype warning_code = UnknownWarningCode u16

definition warning_from_u16 :: "u16 \<Rightarrow> warning_code" where
  "warning_from_u16 v = UnknownWarningCode v"

fun warning_to_u16 :: "warning_code \<Rightarrow> u16" where
  "warning_to_u16 (UnknownWarningCode v) = v"

record algorithm_description =
  ad_id :: aead_algorithm
  ad_keysize :: u16

fun aead_description :: "aead_algorithm \<Rightarrow> algorithm_description option" where
  "aead_description AeadAesSivCmac256 = Some \<lparr>ad_id = AeadAesSivCmac256, ad_keysize = 32\<rparr>"
| "aead_description AeadAesSivCmac512 = Some \<lparr>ad_id = AeadAesSivCmac512, ad_keysize = 64\<rparr>"
| "aead_description (UnknownAead _) = None"

lemma protocol_roundtrip [simp]: "protocol_to_u16 (protocol_from_u16 v) = v"
  by (simp add: protocol_from_u16_def)

lemma warning_canonical [simp]: "warning_from_u16 (warning_to_u16 w) = w"
  by (cases w) (simp add: warning_from_u16_def)

lemma error_roundtrip [simp]: "error_to_u16 (error_from_u16 v) = v"
  by (simp add: error_from_u16_def)

lemma aead_roundtrip [simp]: "aead_to_u16 (aead_from_u16 v) = v"
  by (simp add: aead_from_u16_def)

section \<open>Strings\<close>

text \<open>The validation of UTF-8 in Rust's standard library.\<close>

definition utf8_cont :: "byte \<Rightarrow> bool" where
  "utf8_cont b \<longleftrightarrow> 0x80 \<le> b \<and> b \<le> 0xBF"

definition utf8_second3 :: "byte \<Rightarrow> byte \<Rightarrow> bool" where
  "utf8_second3 a b \<longleftrightarrow>
     (a = 0xE0 \<and> 0xA0 \<le> b \<and> b \<le> 0xBF) \<or> (0xE1 \<le> a \<and> a \<le> 0xEC \<and> utf8_cont b) \<or>
     (a = 0xED \<and> 0x80 \<le> b \<and> b \<le> 0x9F) \<or> (0xEE \<le> a \<and> a \<le> 0xEF \<and> utf8_cont b)"

definition utf8_second4 :: "byte \<Rightarrow> byte \<Rightarrow> bool" where
  "utf8_second4 a b \<longleftrightarrow>
     (a = 0xF0 \<and> 0x90 \<le> b \<and> b \<le> 0xBF) \<or> (0xF1 \<le> a \<and> a \<le> 0xF3 \<and> utf8_cont b) \<or>
     (a = 0xF4 \<and> 0x80 \<le> b \<and> b \<le> 0x8F)"

fun utf8_valid :: "bytes \<Rightarrow> bool" where
  "utf8_valid [] \<longleftrightarrow> True"
| "utf8_valid (a # bs) \<longleftrightarrow>
     (if a < 0x80 then utf8_valid bs
      else case bs of
        [] \<Rightarrow> False
      | b # cs \<Rightarrow>
          if 0xC2 \<le> a \<and> a \<le> 0xDF then utf8_cont b \<and> utf8_valid cs
          else (case cs of
            [] \<Rightarrow> False
          | c # ds \<Rightarrow>
              if 0xE0 \<le> a \<and> a \<le> 0xEF then utf8_second3 a b \<and> utf8_cont c \<and> utf8_valid ds
              else (case ds of
                [] \<Rightarrow> False
              | d # es \<Rightarrow> utf8_second4 a b \<and> utf8_cont c \<and> utf8_cont d \<and> utf8_valid es)))"

section \<open>Records\<close>

type_synonym str = bytes

datatype nts_record =
    RecEndOfMessage
  | RecNextProtocol "next_protocol list"
  | RecError error_code
  | RecWarning warning_code
  | RecAeadAlgorithm "aead_algorithm list"
  | RecNewCookie bytes
  | RecServer str
  | RecPort u16
  | RecUnknown u16 bool bytes
  | RecKeepAlive
  | RecSupportedNextProtocolList "next_protocol list"
  | RecSupportedAlgorithmList "algorithm_description list"
  | RecFixedKeyRequest bytes bytes
  | RecNtpServerDeny str
  | RecAuthentication str

section \<open>Reading\<close>

definition next_u16 :: "bytes \<Rightarrow> io_error + u16 \<times> bytes" where
  "next_u16 data = (if length data < 2 then Inl UnexpectedEof else Inr (from_be (take 2 data), drop 2 data))"

text \<open>Two bytes of a body of which \<open>sz\<close> bytes are left.\<close>

definition body_u16 :: "nat \<Rightarrow> bytes \<Rightarrow> io_error + u16 \<times> bytes" where
  "body_u16 sz data = (if sz < 2 then Inl UnexpectedEof else next_u16 data)"

text \<open>The loops over the numbers of a body.\<close>

fun body_u16s :: "nat \<Rightarrow> bytes \<Rightarrow> io_error + u16 list \<times> bytes" where
  "body_u16s 0 data = Inr ([], data)"
| "body_u16s (Suc 0) data = Inl UnexpectedEof"
| "body_u16s (Suc (Suc n)) data =
     bindR (next_u16 data) (\<lambda>(v, data). bindR (body_u16s n data) (\<lambda>(vs, data). Inr (v # vs, data)))"

fun body_descriptions :: "nat \<Rightarrow> bytes \<Rightarrow> io_error + algorithm_description list \<times> bytes" where
  "body_descriptions sz data =
     (if sz = 0 then Inr ([], data)
      else bindR (body_u16 sz data) (\<lambda>(v, data).
           bindR (body_u16 (sz - 2) data) (\<lambda>(keysize, data).
           bindR (body_descriptions (sz - 4) data) (\<lambda>(ds, data).
           Inr (\<lparr>ad_id = aead_from_u16 v, ad_keysize = keysize\<rparr> # ds, data)))))"

text \<open>Reading and dropping a body, reading all of it, and reading it as a string.\<close>

definition body_drain :: "nat \<Rightarrow> bytes \<Rightarrow> io_error + bytes" where
  "body_drain sz data = (if length data < sz then Inl UnexpectedEof else Inr (drop sz data))"

definition body_exact :: "nat \<Rightarrow> bytes \<Rightarrow> io_error + bytes \<times> bytes" where
  "body_exact sz data = (if length data < sz then Inl UnexpectedEof else Inr (take sz data, drop sz data))"

definition body_string :: "nat \<Rightarrow> bytes \<Rightarrow> io_error + str \<times> bytes" where
  "body_string sz data =
     (if \<not> utf8_valid (take sz data) then Inl InvalidData
      else if length data < sz then Inl UnexpectedEof
      else Inr (take sz data, drop sz data))"

definition body_single_u16 :: "nat \<Rightarrow> bytes \<Rightarrow> io_error + u16 \<times> bytes" where
  "body_single_u16 sz data =
     bindR (body_u16 sz data) (\<lambda>(v, data). if sz - 2 \<noteq> 0 then Inl InvalidData else Inr (v, data))"

definition parse_end_of_message :: "nat \<Rightarrow> bytes \<Rightarrow> io_error + nts_record \<times> bytes" where
  "parse_end_of_message sz data = bindR (body_drain sz data) (\<lambda>data. Inr (RecEndOfMessage, data))"

definition parse_next_protocol :: "nat \<Rightarrow> bytes \<Rightarrow> io_error + nts_record \<times> bytes" where
  "parse_next_protocol sz data =
     bindR (body_u16s sz data) (\<lambda>(vs, data). Inr (RecNextProtocol (map protocol_from_u16 vs), data))"

definition parse_error :: "nat \<Rightarrow> bytes \<Rightarrow> io_error + nts_record \<times> bytes" where
  "parse_error sz data = bindR (body_single_u16 sz data) (\<lambda>(v, data). Inr (RecError (error_from_u16 v), data))"

definition parse_warning :: "nat \<Rightarrow> bytes \<Rightarrow> io_error + nts_record \<times> bytes" where
  "parse_warning sz data = bindR (body_single_u16 sz data) (\<lambda>(v, data). Inr (RecWarning (warning_from_u16 v), data))"

definition parse_aead_algorithm :: "nat \<Rightarrow> bytes \<Rightarrow> io_error + nts_record \<times> bytes" where
  "parse_aead_algorithm sz data =
     bindR (body_u16s sz data) (\<lambda>(vs, data). Inr (RecAeadAlgorithm (map aead_from_u16 vs), data))"

definition parse_new_cookie :: "nat \<Rightarrow> bytes \<Rightarrow> io_error + nts_record \<times> bytes" where
  "parse_new_cookie sz data = bindR (body_exact sz data) (\<lambda>(cookie, data). Inr (RecNewCookie cookie, data))"

definition parse_server :: "nat \<Rightarrow> bytes \<Rightarrow> io_error + nts_record \<times> bytes" where
  "parse_server sz data = bindR (body_string sz data) (\<lambda>(name, data). Inr (RecServer name, data))"

definition parse_port :: "nat \<Rightarrow> bytes \<Rightarrow> io_error + nts_record \<times> bytes" where
  "parse_port sz data = bindR (body_single_u16 sz data) (\<lambda>(v, data). Inr (RecPort v, data))"

definition parse_keep_alive :: "nat \<Rightarrow> bytes \<Rightarrow> io_error + nts_record \<times> bytes" where
  "parse_keep_alive sz data = bindR (body_drain sz data) (\<lambda>data. Inr (RecKeepAlive, data))"

definition parse_supported_next_protocol_list :: "nat \<Rightarrow> bytes \<Rightarrow> io_error + nts_record \<times> bytes" where
  "parse_supported_next_protocol_list sz data =
     bindR (body_u16s sz data) (\<lambda>(vs, data). Inr (RecSupportedNextProtocolList (map protocol_from_u16 vs), data))"

definition parse_supported_algorithm_list :: "nat \<Rightarrow> bytes \<Rightarrow> io_error + nts_record \<times> bytes" where
  "parse_supported_algorithm_list sz data =
     bindR (body_descriptions sz data) (\<lambda>(ds, data). Inr (RecSupportedAlgorithmList ds, data))"

definition parse_fixed_key_request :: "nat \<Rightarrow> bytes \<Rightarrow> io_error + nts_record \<times> bytes" where
  "parse_fixed_key_request sz data =
     (let n = sz div 2 in
      bindR (body_exact n data) (\<lambda>(c2s, data).
      bindR (body_exact n data) (\<lambda>(s2c, data).
      if sz - 2 * n \<noteq> 0 then Inl InvalidData else Inr (RecFixedKeyRequest c2s s2c, data))))"

definition parse_ntp_server_deny :: "nat \<Rightarrow> bytes \<Rightarrow> io_error + nts_record \<times> bytes" where
  "parse_ntp_server_deny sz data = bindR (body_string sz data) (\<lambda>(denied, data). Inr (RecNtpServerDeny denied, data))"

definition parse_authentication :: "nat \<Rightarrow> bytes \<Rightarrow> io_error + nts_record \<times> bytes" where
  "parse_authentication sz data = bindR (body_string sz data) (\<lambda>(key, data). Inr (RecAuthentication key, data))"

text \<open>The match on the type of a record without its critical bit.\<close>

definition parse_body :: "u16 \<Rightarrow> bool \<Rightarrow> nat \<Rightarrow> bytes \<Rightarrow> io_error + nts_record \<times> bytes" where
  "parse_body t critical sz data =
     (if t = 0 then parse_end_of_message sz data
      else if t = 1 then parse_next_protocol sz data
      else if t = 2 then parse_error sz data
      else if t = 3 then parse_warning sz data
      else if t = 4 then parse_aead_algorithm sz data
      else if t = 5 then parse_new_cookie sz data
      else if t = 6 then parse_server sz data
      else if t = 7 then parse_port sz data
      else if t = 8 then parse_keep_alive sz data
      else if t = 9 then parse_supported_next_protocol_list sz data
      else if t = 10 then parse_supported_algorithm_list sz data
      else if t = 12 then parse_fixed_key_request sz data
      else if t = 13 then parse_ntp_server_deny sz data
      else if t = 14 then parse_authentication sz data
      else bindR (body_exact sz data) (\<lambda>(d, data). Inr (RecUnknown t critical d, data)))"

definition nts_record_parse :: "bytes \<Rightarrow> io_error + nts_record \<times> bytes" where
  "nts_record_parse data =
     bindR (next_u16 data) (\<lambda>(raw_type, data).
     bindR (next_u16 data) (\<lambda>(raw_size, data).
     parse_body (raw_type AND 0x7FFF) (raw_type AND 0x8000 \<noteq> 0) (unat raw_size) data))"

section \<open>Writing\<close>

fun record_type :: "nts_record \<Rightarrow> u16" where
  "record_type RecEndOfMessage = 0 OR 0x8000"
| "record_type (RecNextProtocol _) = 1 OR 0x8000"
| "record_type (RecError _) = 2 OR 0x8000"
| "record_type (RecWarning _) = 3 OR 0x8000"
| "record_type (RecAeadAlgorithm _) = 4 OR 0x8000"
| "record_type (RecNewCookie _) = 5"
| "record_type (RecServer _) = 6 OR 0x8000"
| "record_type (RecPort _) = 7 OR 0x8000"
| "record_type (RecUnknown t critical _) = t OR (if critical then 0x8000 else 0)"
| "record_type RecKeepAlive = 8"
| "record_type (RecSupportedNextProtocolList _) = 9 OR 0x8000"
| "record_type (RecSupportedAlgorithmList _) = 10 OR 0x8000"
| "record_type (RecFixedKeyRequest _ _) = 12 OR 0x8000"
| "record_type (RecNtpServerDeny _) = 13"
| "record_type (RecAuthentication _) = 14"

fun body_size :: "nts_record \<Rightarrow> nat" where
  "body_size RecEndOfMessage = 0"
| "body_size RecKeepAlive = 0"
| "body_size (RecError _) = 2"
| "body_size (RecWarning _) = 2"
| "body_size (RecPort _) = 2"
| "body_size (RecNextProtocol ids) = length ids * 2"
| "body_size (RecAeadAlgorithm ids) = length ids * 2"
| "body_size (RecNewCookie d) = length d"
| "body_size (RecServer name) = length name"
| "body_size (RecUnknown _ _ d) = length d"
| "body_size (RecSupportedNextProtocolList ids) = length ids * 2"
| "body_size (RecSupportedAlgorithmList ds) = length ds * 2 * 2"
| "body_size (RecFixedKeyRequest c2s s2c) = length c2s + length s2c"
| "body_size (RecNtpServerDeny denied) = length denied"
| "body_size (RecAuthentication key) = length key"

fun record_body :: "nts_record \<Rightarrow> bytes" where
  "record_body RecEndOfMessage = []"
| "record_body RecKeepAlive = []"
| "record_body (RecNextProtocol ids) = concat (map (\<lambda>p. u16_to_be (protocol_to_u16 p)) ids)"
| "record_body (RecError e) = u16_to_be (error_to_u16 e)"
| "record_body (RecWarning w) = u16_to_be (warning_to_u16 w)"
| "record_body (RecAeadAlgorithm ids) = concat (map (\<lambda>a. u16_to_be (aead_to_u16 a)) ids)"
| "record_body (RecNewCookie d) = d"
| "record_body (RecServer name) = name"
| "record_body (RecPort p) = u16_to_be p"
| "record_body (RecUnknown _ _ d) = d"
| "record_body (RecSupportedNextProtocolList ids) = concat (map (\<lambda>p. u16_to_be (protocol_to_u16 p)) ids)"
| "record_body (RecSupportedAlgorithmList ds) =
     concat (map (\<lambda>d. u16_to_be (aead_to_u16 (ad_id d)) @ u16_to_be (ad_keysize d)) ds)"
| "record_body (RecFixedKeyRequest c2s s2c) = c2s @ s2c"
| "record_body (RecNtpServerDeny denied) = denied"
| "record_body (RecAuthentication key) = key"

text \<open>
  A stream takes every byte: writing gives the bytes sent and whether all went well. The type of a
  record is sent before the check of its size.
\<close>

type_synonym sent = "bytes \<times> (io_error + unit)"

definition nts_record_serialize :: "nts_record \<Rightarrow> sent" where
  "nts_record_serialize r =
     (if 65535 < body_size r then (u16_to_be (record_type r), Inl InvalidInput)
      else (u16_to_be (record_type r) @ u16_to_be (of_nat (body_size r)) @ record_body r, Inr ()))"

text \<open>Several records one after the other, up to the first error.\<close>

primrec send_records :: "nts_record list \<Rightarrow> sent" where
  "send_records [] = ([], Inr ())"
| "send_records (r # rs) =
     (case nts_record_serialize r of
        (d, Inl e) \<Rightarrow> (d, Inl e)
      | (d, Inr _) \<Rightarrow> (case send_records rs of (d', res) \<Rightarrow> (d @ d', res)))"

section \<open>Round trip\<close>

text \<open>
  The records that come back from the wire as they were: identifiers in the form that reading gives
  (an unknown number is not a known one), strings in UTF-8, two keys of the same size, and an unknown
  record with a type below the critical bit that is not a known type.
\<close>

definition known_record_type :: "u16 \<Rightarrow> bool" where
  "known_record_type t \<longleftrightarrow> t \<in> {0, 1, 2, 3, 4, 5, 6, 7, 8, 9, 10, 12, 13, 14}"

definition canonical_protocol :: "next_protocol \<Rightarrow> bool" where
  "canonical_protocol p \<longleftrightarrow> protocol_from_u16 (protocol_to_u16 p) = p"

definition canonical_aead :: "aead_algorithm \<Rightarrow> bool" where
  "canonical_aead a \<longleftrightarrow> aead_from_u16 (aead_to_u16 a) = a"

fun record_canonical :: "nts_record \<Rightarrow> bool" where
  "record_canonical (RecNextProtocol ids) \<longleftrightarrow> list_all canonical_protocol ids"
| "record_canonical (RecSupportedNextProtocolList ids) \<longleftrightarrow> list_all canonical_protocol ids"
| "record_canonical (RecError e) \<longleftrightarrow> error_from_u16 (error_to_u16 e) = e"
| "record_canonical (RecAeadAlgorithm ids) \<longleftrightarrow> list_all canonical_aead ids"
| "record_canonical (RecSupportedAlgorithmList ds) \<longleftrightarrow> list_all (\<lambda>d. canonical_aead (ad_id d)) ds"
| "record_canonical (RecServer name) \<longleftrightarrow> utf8_valid name"
| "record_canonical (RecNtpServerDeny denied) \<longleftrightarrow> utf8_valid denied"
| "record_canonical (RecAuthentication key) \<longleftrightarrow> utf8_valid key"
| "record_canonical (RecFixedKeyRequest c2s s2c) \<longleftrightarrow> length c2s = length s2c"
| "record_canonical (RecUnknown t _ _) \<longleftrightarrow> t < 0x8000 \<and> \<not> known_record_type t"
| "record_canonical RecEndOfMessage \<longleftrightarrow> True"
| "record_canonical RecKeepAlive \<longleftrightarrow> True"
| "record_canonical (RecWarning _) \<longleftrightarrow> True"
| "record_canonical (RecNewCookie _) \<longleftrightarrow> True"
| "record_canonical (RecPort _) \<longleftrightarrow> True"

definition record_wf :: "nts_record \<Rightarrow> bool" where
  "record_wf r \<longleftrightarrow> record_canonical r \<and> body_size r \<le> 65535"

definition record_bytes :: "nts_record \<Rightarrow> bytes" where
  "record_bytes r = u16_to_be (record_type r) @ u16_to_be (of_nat (body_size r)) @ record_body r"

lemma next_u16_append [simp]: "next_u16 (u16_to_be v @ r) = Inr (v, r)"
  by (simp add: next_u16_def del: to_be.simps)

lemma length_concat_u16s: "length (concat (map (\<lambda>p. u16_to_be (f p)) ids)) = length ids * 2"
  by (induction ids) simp_all

lemma length_record_body: "length (record_body r) = body_size r"
proof (cases r)
  case (RecSupportedAlgorithmList ds)
  have "length (concat (map (\<lambda>d. u16_to_be (aead_to_u16 (ad_id d)) @ u16_to_be (ad_keysize d)) ds)) = length ds * 2 * 2"
    by (induction ds) simp_all
  then show ?thesis by (simp add: RecSupportedAlgorithmList)
qed (simp_all add: length_concat_u16s del: to_be.simps)

lemma body_u16s_concat:
  "body_u16s (length vs * 2) (concat (map u16_to_be vs) @ r) = Inr (vs, r)"
proof (induction vs)
  case (Cons v vs)
  have "length (v # vs) * 2 = Suc (Suc (length vs * 2))" by simp
  with Cons show ?case by (simp del: to_be.simps mult_Suc)
qed simp

lemma body_descriptions_concat:
  "list_all (\<lambda>d. canonical_aead (ad_id d)) ds \<Longrightarrow>
    body_descriptions (length ds * 2 * 2)
      (concat (map (\<lambda>d. u16_to_be (aead_to_u16 (ad_id d)) @ u16_to_be (ad_keysize d)) ds) @ r) = Inr (ds, r)"
proof (induction ds)
  case (Cons d ds)
  then show ?case
    by (subst body_descriptions.simps)
       (simp add: body_u16_def canonical_aead_def algorithm_description.equality del: to_be.simps body_descriptions.simps)
qed simp

lemma map_canonical:
  "list_all (\<lambda>x. f (g x) = x) xs \<Longrightarrow> map f (map g xs) = xs"
  by (induction xs) simp_all

declare body_descriptions.simps [simp del]

lemma body_drain_append: "length d = n \<Longrightarrow> body_drain n (d @ r) = Inr r"
  by (auto simp: body_drain_def)

lemma body_exact_append: "length d = n \<Longrightarrow> body_exact n (d @ r) = Inr (d, r)"
  by (auto simp: body_exact_def)

lemma body_string_append: "utf8_valid d \<Longrightarrow> length d = n \<Longrightarrow> body_string n (d @ r) = Inr (d, r)"
  by (auto simp: body_string_def)

lemma body_single_u16_append: "body_single_u16 2 (u16_to_be v @ r) = Inr (v, r)"
  by (simp add: body_single_u16_def body_u16_def del: to_be.simps)

lemma body_u16s_map:
  "body_u16s (length xs * 2) (concat (map (\<lambda>x. u16_to_be (g x)) xs) @ r) = Inr (map g xs, r)"
  using body_u16s_concat [of "map g xs" r] by (simp add: comp_def del: to_be.simps)

lemma map_canonical_protocol:
  "list_all canonical_protocol ids \<Longrightarrow> map (protocol_from_u16 \<circ> protocol_to_u16) ids = ids"
  by (induction ids) (simp_all add: canonical_protocol_def)

lemma map_canonical_aead:
  "list_all canonical_aead ids \<Longrightarrow> map (aead_from_u16 \<circ> aead_to_u16) ids = ids"
  by (induction ids) (simp_all add: canonical_aead_def)

lemmas body_appends = body_drain_append [of "[]", simplified] body_exact_append body_string_append
  body_single_u16_append body_u16s_map map_canonical_protocol map_canonical_aead body_descriptions_concat

lemmas parse_defs = parse_end_of_message_def parse_next_protocol_def parse_error_def parse_warning_def
  parse_aead_algorithm_def parse_new_cookie_def parse_server_def parse_port_def parse_keep_alive_def
  parse_supported_next_protocol_list_def parse_supported_algorithm_list_def
  parse_ntp_server_deny_def parse_authentication_def

lemma unknown_type_bits:
  assumes "(t :: u16) < 0x8000"
  shows "(t OR 0x8000) AND 0x7FFF = t" "t AND 0x7FFF = t" "(t OR 0x8000) AND 0x8000 \<noteq> 0" "t AND 0x8000 = 0"
proof -
  have "take_bit 15 t = t"
    using assms by (intro word_unat_eq_iff [THEN iffD2]) (simp add: unsigned_take_bit_eq word_less_nat_alt take_bit_nat_eq_self)
  then have low: "t AND 0x7FFF = t" by (simp add: take_bit_eq_mask mask_eq_decr_exp)
  show "t AND 0x7FFF = t" by (rule low)
  show "(t OR 0x8000) AND 0x7FFF = t" by (simp add: bit.conj_disj_distrib2 low)
  have "t AND 0x8000 = (t AND 0x7FFF) AND 0x8000" by (simp only: low)
  also have "\<dots> = 0" by (simp add: and.assoc)
  finally show "t AND 0x8000 = 0" .
  then show "(t OR 0x8000) AND 0x8000 \<noteq> 0" by (simp add: bit.conj_disj_distrib2)
qed

lemma body_descriptions_concat4:
  "list_all (\<lambda>d. canonical_aead (ad_id d)) ds \<Longrightarrow>
    body_descriptions (4 * length ds)
      (concat (map (\<lambda>d. u16_to_be (aead_to_u16 (ad_id d)) @ u16_to_be (ad_keysize d)) ds) @ r) = Inr (ds, r)"
  using body_descriptions_concat [of ds r] by (simp add: mult.assoc mult.commute [of _ 4])

lemma parse_body_record:
  assumes "record_canonical r"
  shows "parse_body (record_type r AND 0x7FFF) (record_type r AND 0x8000 \<noteq> 0) (body_size r) (record_body r @ s) = Inr (r, s)"
proof (cases r)
  case (RecUnknown t critical d)
  then have "t < 0x8000" "\<not> known_record_type t" using assms by simp_all
  then show ?thesis
    using unknown_type_bits [of t]
    by (simp add: RecUnknown parse_body_def known_record_type_def body_exact_append)
qed (use assms in \<open>simp_all add: parse_body_def parse_defs parse_fixed_key_request_def body_appends body_descriptions_concat4 del: to_be.simps\<close>)

interpretation nts_rec: prefix_codec record_bytes nts_record_parse record_wf
proof
  fix r s
  assume "record_wf r"
  then have "record_canonical r" "body_size r < 2 ^ 16" by (simp_all add: record_wf_def)
  then show "nts_record_parse (record_bytes r @ s) = Inr (r, s)"
    using parse_body_record [of r s]
    by (simp add: nts_record_parse_def record_bytes_def unat_of_nat del: to_be.simps)
qed

lemma serialize_wf: "body_size r \<le> 65535 \<Longrightarrow> nts_record_serialize r = (record_bytes r, Inr ())"
  by (simp add: nts_record_serialize_def record_bytes_def)

lemma send_records_wf:
  "\<forall>r \<in> set rs. body_size r \<le> 65535 \<Longrightarrow> send_records rs = (concat (map record_bytes rs), Inr ())"
  by (induction rs) (simp_all add: serialize_wf)

lemma record_bytes_length: "length (record_bytes r) = body_size r + 4"
  by (simp add: record_bytes_def length_record_body)

text \<open>Whatever is read is in canonical form, and a record takes at least its header.\<close>

lemma canonical_protocol_from [simp]: "canonical_protocol (protocol_from_u16 v)"
  by (simp add: canonical_protocol_def)

lemma canonical_known_protocols [simp]: "canonical_protocol NTPv4" "canonical_protocol DraftNTPv5"
  by (simp_all add: canonical_protocol_def protocol_from_u16_def)

lemma canonical_aead_from [simp]: "canonical_aead (aead_from_u16 v)"
  by (simp add: canonical_aead_def)

lemma next_u16_Inr:
  "next_u16 data = Inr (v, rest) \<longleftrightarrow> 2 \<le> length data \<and> data = u16_to_be v @ rest"
proof
  assume "next_u16 data = Inr (v, rest)"
  then have "2 \<le> length data" "v = from_be (take 2 data)" "rest = drop 2 data"
    by (auto simp: next_u16_def split: if_splits)
  then show "2 \<le> length data \<and> data = u16_to_be v @ rest"
    by (simp del: to_be.simps)
qed (auto simp del: to_be.simps)

lemma body_u16s_Inr:
  "body_u16s sz data = Inr (vs, rest) \<Longrightarrow> length vs * 2 = sz \<and> sz \<le> length data \<and> rest = drop sz data"
proof (induction sz data arbitrary: vs rest rule: body_u16s.induct)
  case (3 n data)
  then obtain vs' where len: "2 \<le> length data" and rec: "body_u16s n (drop 2 data) = Inr (vs', rest)"
      and vs: "vs = from_be (take 2 data) # vs'"
    by (auto simp: result_simps next_u16_def split: if_splits)
  from 3(1) [OF rec] len vs show ?case by auto
qed simp_all

lemma body_u16_Inr:
  "body_u16 sz data = Inr (v, rest) \<Longrightarrow> 2 \<le> sz \<and> 2 \<le> length data \<and> rest = drop 2 data"
  by (auto simp: body_u16_def next_u16_def split: if_splits)

lemma body_descriptions_Inr:
  "body_descriptions sz data = Inr (ds, rest) \<Longrightarrow>
    list_all (\<lambda>d. canonical_aead (ad_id d)) ds \<and> length ds * 4 = sz \<and> sz \<le> length data \<and> rest = drop sz data"
proof (induction sz data arbitrary: ds rest rule: body_descriptions.induct)
  case (1 sz data)
  show ?case
  proof (cases "sz = 0")
    case True
    with 1(2) show ?thesis by (simp add: body_descriptions.simps)
  next
    case False
    with 1(2) obtain v data1 k data2 ds' where
        a: "body_u16 sz data = Inr (v, data1)" and b: "body_u16 (sz - 2) data1 = Inr (k, data2)"
        and c: "body_descriptions (sz - 4) data2 = Inr (ds', rest)"
        and ds: "ds = \<lparr>ad_id = aead_from_u16 v, ad_keysize = k\<rparr> # ds'"
      by (subst (asm) body_descriptions.simps) (auto simp: result_simps)
    from 1(1) [OF False c] body_u16_Inr [OF a] body_u16_Inr [OF b] ds
    show ?thesis by (auto simp: add.commute)
  qed
qed

lemma body_single_u16_Inr:
  "body_single_u16 sz data = Inr (v, rest) \<Longrightarrow> sz = 2 \<and> 2 \<le> length data \<and> rest = drop 2 data"
  by (auto simp: body_single_u16_def result_simps dest: body_u16_Inr split: if_splits)

lemma body_simple_Inr:
  "body_drain sz data = Inr rest \<Longrightarrow> sz \<le> length data \<and> rest = drop sz data"
  "body_exact sz data = Inr (d, rest) \<Longrightarrow> sz \<le> length data \<and> d = take sz data \<and> rest = drop sz data"
  "body_string sz data = Inr (d, rest) \<Longrightarrow>
     utf8_valid d \<and> sz \<le> length data \<and> d = take sz data \<and> rest = drop sz data"
  by (auto simp: body_drain_def body_exact_def body_string_def split: if_splits)

lemma fixed_key_Inr:
  assumes "parse_fixed_key_request sz data = Inr (r, rest)"
  shows "record_canonical r \<and> body_size r = sz \<and> sz \<le> length data \<and> rest = drop sz data"
proof -
  let ?n = "sz div 2"
  obtain c2s data1 s2c where a: "body_exact ?n data = Inr (c2s, data1)"
      and b: "body_exact ?n data1 = Inr (s2c, rest)" and even: "sz = ?n + ?n" and r: "r = RecFixedKeyRequest c2s s2c"
    using assms by (auto simp: parse_fixed_key_request_def result_simps Let_def split: if_splits)
  have "length c2s = ?n" "length s2c = ?n" "sz \<le> length data" "rest = drop (?n + ?n) data"
    using body_simple_Inr(2) [OF a] body_simple_Inr(2) [OF b] even by auto
  with even r show ?thesis by simp
qed

lemmas body_Inr = body_u16s_Inr body_descriptions_Inr body_single_u16_Inr body_simple_Inr

lemma parse_body_Inr:
  assumes "parse_body t critical sz data = Inr (r, rest)" and "t < 0x8000"
  shows "record_canonical r \<and> body_size r \<le> sz \<and> sz \<le> length data \<and> rest = drop sz data"
proof (cases "known_record_type t")
  case False
  then show ?thesis
    using assms by (auto simp: parse_body_def known_record_type_def result_simps dest!: body_Inr)
next
  case True
  then show ?thesis
    using assms(1) unfolding known_record_type_def
    by (elim insertE emptyE)
       (auto simp: parse_body_def parse_defs result_simps list_all_iff dest!: body_Inr fixed_key_Inr)
qed

lemma nts_record_parse_wf:
  assumes "nts_record_parse data = Inr (r, rest)"
  shows "record_wf r \<and> (\<exists>used. data = used @ rest \<and> body_size r + 4 \<le> length used)"
proof -
  obtain t z data2 where data: "data = u16_to_be t @ u16_to_be z @ data2"
      and b: "parse_body (t AND 0x7FFF) (t AND 0x8000 \<noteq> 0) (unat z) data2 = Inr (r, rest)"
    using assms by (auto simp: nts_record_parse_def result_simps next_u16_Inr simp del: to_be.simps)
  have "t AND 0x7FFF \<le> 0x7FFF" by (rule word_and_le1)
  then have "t AND 0x7FFF < 0x8000" by (rule order_le_less_trans) simp
  from parse_body_Inr [OF b this] have p: "record_canonical r" "body_size r \<le> unat z" "unat z \<le> length data2"
    "rest = drop (unat z) data2" by auto
  have "unat z < 2 ^ 16" using unat_lt2p [of z] by simp
  with p have "record_wf r" by (simp add: record_wf_def)
  moreover have "data = (u16_to_be t @ u16_to_be z @ take (unat z) data2) @ rest"
    using data p(4) by (simp del: to_be.simps)
  ultimately show ?thesis using p(2,3) by fastforce
qed

text \<open>
  C35: the records of the key exchange are a self-delimiting code. Every record that reading accepts
  from any bytes is well formed (its numbers in the form that reading gives, its strings in UTF-8,
  its keys of one size, at most 65535 bytes of body), its header and body are consumed and nothing
  behind them is; written again it is sent without error, and reading what was sent followed by
  anything gives the same record and leaves what follows.
\<close>
theorem nts_record_roundtrip:
  assumes "nts_record_parse data = Inr (r, rest)"
  shows "record_wf r \<and> (\<exists>used. data = used @ rest \<and> body_size r + 4 \<le> length used) \<and>
    (\<exists>d. nts_record_serialize r = (d, Inr ()) \<and> (\<forall>s. nts_record_parse (d @ s) = Inr (r, s)))"
proof -
  have wf: "record_wf r" and used: "\<exists>used. data = used @ rest \<and> body_size r + 4 \<le> length used"
    using nts_record_parse_wf [OF assms] by auto
  have "nts_record_serialize r = (record_bytes r, Inr ())"
    using wf by (intro serialize_wf) (simp add: record_wf_def)
  with wf used nts_rec.dec_enc [OF wf] show ?thesis by blast
qed

theorem nts_record_roundtrip_witness:
  "\<exists>d. nts_record_serialize (RecNextProtocol [NTPv4, UnknownProtocol 7]) = (d, Inr ()) \<and>
     (\<forall>s. nts_record_parse (d @ s) = Inr (RecNextProtocol [NTPv4, UnknownProtocol 7], s))"
proof -
  have "nts_record_parse [0, 1, 0, 4, 0, 0, 0, 7, 9] = Inr (RecNextProtocol [NTPv4, UnknownProtocol 7], [9])"
    by code_simp
  from nts_record_roundtrip [OF this] show ?thesis by blast
qed

end
