(* ===== verification/Nts_Messages.thy ===== *)
theory Nts_Messages
  imports Nts_Records
begin

text \<open>
  The messages of the NTS key exchange (\<^verbatim>\<open>ntp-proto/src/nts/messages.rs\<close>): a message is a sequence of records
  up to an end of message record, in the first 4096 bytes of what the peer sends. The parsers are one
  loop over a function that takes a record into the local variables of the source.
\<close>

datatype nts_error =
    IOError io_error
  | TlsError
  | DnsError
  | UnrecognizedCriticalRecord
  | NtsInvalid
  | NoCookie
  | NoOverlappingProtocol
  | NoOverlappingAlgorithm
  | UnknownWarning u16
  | PeerError error_code
  | AeadNotSupported u16
  | IncorrectSizedKey
  | NotPermitted

datatype request =
    KeyExchange "aead_algorithm list" "next_protocol list" "str list"
  | FixedKey str cipher cipher aead_algorithm next_protocol bool
  | Support str bool bool bool

definition MAX_MESSAGE_SIZE :: nat where
  "MAX_MESSAGE_SIZE = 4096"

definition DEFAULT_NUMBER_OF_COOKIES :: nat where
  "DEFAULT_NUMBER_OF_COOKIES = 8"

section \<open>The loop over the records\<close>

function message_loop :: "(nts_record \<Rightarrow> 's \<Rightarrow> nts_error + 's) \<Rightarrow> bytes \<Rightarrow> 's \<Rightarrow> nts_error + 's \<times> bytes" where
  "message_loop step data st =
     (case nts_record_parse data of
        Inl e \<Rightarrow> Inl (IOError e)
      | Inr (r, rest) \<Rightarrow>
          if r = RecEndOfMessage then Inr (st, rest)
          else (case step r st of
              Inl e \<Rightarrow> Inl e
            | Inr st' \<Rightarrow> message_loop step rest st'))"
  by pat_completeness auto
termination
  by (relation "measure (\<lambda>(step, data, st). length data)") (auto dest!: nts_record_parse_wf)

text \<open>A message from a stream: what is left of the stream begins behind the message.\<close>

definition read_message :: "(nts_record \<Rightarrow> 's \<Rightarrow> nts_error + 's) \<Rightarrow> 's \<Rightarrow> bytes \<Rightarrow> nts_error + 's \<times> bytes" where
  "read_message step st data =
     bindR (message_loop step (take MAX_MESSAGE_SIZE data) st)
       (\<lambda>(st, rest). Inr (st, rest @ drop MAX_MESSAGE_SIZE data))"

section \<open>Requests\<close>

record request_parts =
  rq_protocols :: "next_protocol list option"
  rq_algorithms :: "aead_algorithm list option"
  rq_authentication :: "str option"
  rq_denied_servers :: "str list"
  rq_wants_protocols :: bool
  rq_wants_algorithms :: bool
  rq_keep_alive :: bool
  rq_key_bytes :: "(bytes \<times> bytes) option"

definition request_parts_new :: request_parts where
  "request_parts_new = \<lparr>rq_protocols = None, rq_algorithms = None, rq_authentication = None, rq_denied_servers = [],
     rq_wants_protocols = False, rq_wants_algorithms = False, rq_keep_alive = False, rq_key_bytes = None\<rparr>"

fun request_step :: "nts_record \<Rightarrow> request_parts \<Rightarrow> nts_error + request_parts" where
  "request_step (RecNextProtocol ids) p =
     (if rq_protocols p \<noteq> None then Inl NtsInvalid else Inr (p\<lparr>rq_protocols := Some ids\<rparr>))"
| "request_step (RecAeadAlgorithm ids) p =
     (if rq_algorithms p \<noteq> None then Inl NtsInvalid else Inr (p\<lparr>rq_algorithms := Some ids\<rparr>))"
| "request_step (RecFixedKeyRequest c2s s2c) p =
     (if rq_key_bytes p \<noteq> None then Inl NtsInvalid else Inr (p\<lparr>rq_key_bytes := Some (c2s, s2c)\<rparr>))"
| "request_step (RecSupportedAlgorithmList _) p =
     (if rq_wants_algorithms p then Inl NtsInvalid else Inr (p\<lparr>rq_wants_algorithms := True\<rparr>))"
| "request_step (RecSupportedNextProtocolList _) p =
     (if rq_wants_protocols p then Inl NtsInvalid else Inr (p\<lparr>rq_wants_protocols := True\<rparr>))"
| "request_step (RecNtpServerDeny denied) p = Inr (p\<lparr>rq_denied_servers := rq_denied_servers p @ [denied]\<rparr>)"
| "request_step (RecAuthentication key) p =
     (if rq_authentication p \<noteq> None then Inl NtsInvalid else Inr (p\<lparr>rq_authentication := Some key\<rparr>))"
| "request_step RecKeepAlive p = Inr (p\<lparr>rq_keep_alive := True\<rparr>)"
| "request_step (RecUnknown _ critical _) p = (if critical then Inl UnrecognizedCriticalRecord else Inr p)"
| "request_step (RecServer _) p = Inr p"
| "request_step (RecPort _) p = Inr p"
| "request_step (RecError _) p = Inl NtsInvalid"
| "request_step (RecWarning _) p = Inl NtsInvalid"
| "request_step (RecNewCookie _) p = Inl NtsInvalid"
| "request_step RecEndOfMessage p = Inr p"

fun fixed_keys :: "aead_algorithm \<Rightarrow> bytes \<times> bytes \<Rightarrow> nts_error + cipher \<times> cipher" where
  "fixed_keys AeadAesSivCmac256 (c2s, s2c) =
     (case (cmac256_try_from c2s, cmac256_try_from s2c) of
        (Some c2s, Some s2c) \<Rightarrow> Inr (c2s, s2c)
      | _ \<Rightarrow> Inl IncorrectSizedKey)"
| "fixed_keys AeadAesSivCmac512 (c2s, s2c) =
     (case (cmac512_try_from c2s, cmac512_try_from s2c) of
        (Some c2s, Some s2c) \<Rightarrow> Inr (c2s, s2c)
      | _ \<Rightarrow> Inl IncorrectSizedKey)"
| "fixed_keys (UnknownAead v) _ = Inl (AeadNotSupported v)"

definition request_finish :: "request_parts \<Rightarrow> nts_error + request" where
  "request_finish p =
     (if rq_wants_algorithms p \<or> rq_wants_protocols p then
        (case rq_authentication p of
           Some authentication \<Rightarrow>
             if rq_key_bytes p = None \<and> rq_protocols p = None \<and> rq_algorithms p = None
             then Inr (Support authentication (rq_wants_protocols p) (rq_wants_algorithms p) (rq_keep_alive p))
             else Inl NtsInvalid
         | None \<Rightarrow> Inl NtsInvalid)
      else case rq_key_bytes p of
        Some keys \<Rightarrow>
          (case (rq_authentication p, rq_protocols p, rq_algorithms p) of
             (Some authentication, Some protocols, Some algorithms) \<Rightarrow>
               if length protocols \<noteq> 1 \<or> length algorithms \<noteq> 1 then Inl NtsInvalid
               else bindR (fixed_keys (hd algorithms) keys) (\<lambda>(c2s, s2c).
                 Inr (FixedKey authentication c2s s2c (hd algorithms) (hd protocols) (rq_keep_alive p)))
           | _ \<Rightarrow> Inl NtsInvalid)
      | None \<Rightarrow>
          (case (rq_protocols p, rq_algorithms p) of
             (Some protocols, Some algorithms) \<Rightarrow> Inr (KeyExchange algorithms protocols (rq_denied_servers p))
           | _ \<Rightarrow> Inl NtsInvalid))"

definition request_parse :: "bytes \<Rightarrow> nts_error + request \<times> bytes" where
  "request_parse data =
     bindR (read_message request_step request_parts_new data) (\<lambda>(p, rest).
     bindR (request_finish p) (\<lambda>request. Inr (request, rest)))"

fun request_records :: "request \<Rightarrow> nts_record list" where
  "request_records (KeyExchange algorithms protocols denied_servers) =
     [RecNextProtocol protocols, RecAeadAlgorithm algorithms] @ map RecNtpServerDeny denied_servers @ [RecEndOfMessage]"
| "request_records (FixedKey authentication c2s s2c algorithm protocol keep_alive) =
     [RecAuthentication authentication, RecFixedKeyRequest (key_bytes c2s) (key_bytes s2c),
      RecNextProtocol [protocol], RecAeadAlgorithm [algorithm]] @
     (if keep_alive then [RecKeepAlive] else []) @ [RecEndOfMessage]"
| "request_records (Support authentication wants_protocols wants_algorithms keep_alive) =
     [RecAuthentication authentication] @
     (if wants_protocols then [RecSupportedNextProtocolList []] else []) @
     (if wants_algorithms then [RecSupportedAlgorithmList []] else []) @
     (if keep_alive then [RecKeepAlive] else []) @ [RecEndOfMessage]"

definition request_serialize :: "request \<Rightarrow> sent" where
  "request_serialize request = send_records (request_records request)"

section \<open>Responses\<close>

record key_exchange_response =
  kr_protocol :: next_protocol
  kr_algorithm :: aead_algorithm
  kr_cookies :: "bytes list"
  kr_server :: "str option"
  kr_port :: "u16 option"
  kr_keep_alive :: bool

record response_parts =
  rp_protocol :: "next_protocol option"
  rp_algorithm :: "aead_algorithm option"
  rp_cookies :: "bytes list"
  rp_server :: "str option"
  rp_port :: "u16 option"
  rp_keep_alive :: bool

definition response_parts_new :: response_parts where
  "response_parts_new = \<lparr>rp_protocol = None, rp_algorithm = None, rp_cookies = [], rp_server = None,
     rp_port = None, rp_keep_alive = False\<rparr>"

fun response_step :: "nts_record \<Rightarrow> response_parts \<Rightarrow> nts_error + response_parts" where
  "response_step (RecNextProtocol ids) p =
     (if rp_protocol p \<noteq> None then Inl NtsInvalid
      else case ids of
        [] \<Rightarrow> Inl NoOverlappingProtocol
      | [i] \<Rightarrow> Inr (p\<lparr>rp_protocol := Some i\<rparr>)
      | _ \<Rightarrow> Inl NtsInvalid)"
| "response_step (RecAeadAlgorithm ids) p =
     (if rp_algorithm p \<noteq> None then Inl NtsInvalid
      else case ids of
        [] \<Rightarrow> Inl NoOverlappingAlgorithm
      | [i] \<Rightarrow> Inr (p\<lparr>rp_algorithm := Some i\<rparr>)
      | _ \<Rightarrow> Inl NtsInvalid)"
| "response_step (RecNewCookie d) p =
     Inr (if length (rp_cookies p) < DEFAULT_NUMBER_OF_COOKIES then p\<lparr>rp_cookies := rp_cookies p @ [d]\<rparr> else p)"
| "response_step (RecServer name) p =
     (if rp_server p \<noteq> None then Inl NtsInvalid else Inr (p\<lparr>rp_server := Some name\<rparr>))"
| "response_step (RecPort port) p =
     (if rp_port p \<noteq> None then Inl NtsInvalid else Inr (p\<lparr>rp_port := Some port\<rparr>))"
| "response_step RecKeepAlive p = Inr (p\<lparr>rp_keep_alive := True\<rparr>)"
| "response_step (RecError e) p = Inl (PeerError e)"
| "response_step (RecWarning w) p = (case w of UnknownWarningCode code \<Rightarrow> Inl (UnknownWarning code))"
| "response_step (RecUnknown _ critical _) p = (if critical then Inl UnrecognizedCriticalRecord else Inr p)"
| "response_step (RecAuthentication _) p = Inr p"
| "response_step (RecNtpServerDeny _) p = Inl NtsInvalid"
| "response_step (RecFixedKeyRequest _ _) p = Inl NtsInvalid"
| "response_step (RecSupportedAlgorithmList _) p = Inl NtsInvalid"
| "response_step (RecSupportedNextProtocolList _) p = Inl NtsInvalid"
| "response_step RecEndOfMessage p = Inr p"

definition response_finish :: "response_parts \<Rightarrow> nts_error + key_exchange_response" where
  "response_finish p =
     (case (rp_protocol p, rp_algorithm p) of
        (Some protocol, Some algorithm) \<Rightarrow>
          Inr \<lparr>kr_protocol = protocol, kr_algorithm = algorithm, kr_cookies = rp_cookies p, kr_server = rp_server p,
            kr_port = rp_port p, kr_keep_alive = rp_keep_alive p\<rparr>
      | _ \<Rightarrow> Inl NtsInvalid)"

definition response_parse :: "bytes \<Rightarrow> nts_error + key_exchange_response \<times> bytes" where
  "response_parse data =
     bindR (read_message response_step response_parts_new data) (\<lambda>(p, rest).
     bindR (response_finish p) (\<lambda>response. Inr (response, rest)))"

definition response_records :: "key_exchange_response \<Rightarrow> nts_record list" where
  "response_records r =
     [RecNextProtocol [kr_protocol r], RecAeadAlgorithm [kr_algorithm r]] @ map RecNewCookie (kr_cookies r) @
     (case kr_server r of Some name \<Rightarrow> [RecServer name] | None \<Rightarrow> []) @
     (case kr_port r of Some port \<Rightarrow> [RecPort port] | None \<Rightarrow> []) @
     (if kr_keep_alive r then [RecKeepAlive] else []) @ [RecEndOfMessage]"

definition response_serialize :: "key_exchange_response \<Rightarrow> sent" where
  "response_serialize r = send_records (response_records r)"

datatype no_overlap_response = RespNoOverlappingAlgorithm next_protocol | RespNoOverlappingProtocol

fun no_overlap_serialize :: "no_overlap_response \<Rightarrow> sent" where
  "no_overlap_serialize (RespNoOverlappingAlgorithm protocol) =
     send_records [RecNextProtocol [protocol], RecAeadAlgorithm [], RecEndOfMessage]"
| "no_overlap_serialize RespNoOverlappingProtocol = send_records [RecNextProtocol [], RecEndOfMessage]"

definition error_response_serialize :: "error_code \<Rightarrow> sent" where
  "error_response_serialize e = send_records [RecError e, RecEndOfMessage]"

record supports_response =
  sr_algorithms :: "algorithm_description list option"
  sr_protocols :: "next_protocol list option"
  sr_keep_alive :: bool

definition supports_serialize :: "supports_response \<Rightarrow> sent" where
  "supports_serialize r = send_records (
     (case sr_algorithms r of Some ds \<Rightarrow> [RecSupportedAlgorithmList ds] | None \<Rightarrow> []) @
     (case sr_protocols r of Some ps \<Rightarrow> [RecSupportedNextProtocolList ps] | None \<Rightarrow> []) @
     (if sr_keep_alive r then [RecKeepAlive] else []) @ [RecEndOfMessage])"

section \<open>Reading what was written\<close>

declare message_loop.simps [simp del]

primrec take_records :: "(nts_record \<Rightarrow> 's \<Rightarrow> nts_error + 's) \<Rightarrow> nts_record list \<Rightarrow> 's \<Rightarrow> nts_error + 's" where
  "take_records step [] st = Inr st"
| "take_records step (r # rs) st = bindR (step r st) (take_records step rs)"

lemma take_records_append:
  "take_records step (rs @ qs) st = bindR (take_records step rs st) (take_records step qs)"
  by (induction rs arbitrary: st) (auto simp: bindR_def split: sum.splits)

lemma message_loop_end: "message_loop step (record_bytes RecEndOfMessage @ s) st = Inr (st, s)"
  by (simp add: message_loop.simps nts_rec.dec_enc record_wf_def)

lemma message_loop_records:
  assumes "\<forall>r \<in> set rs. record_wf r \<and> r \<noteq> RecEndOfMessage"
  shows "message_loop step (concat (map record_bytes rs) @ record_bytes RecEndOfMessage @ s) st =
    bindR (take_records step rs st) (\<lambda>st'. Inr (st', s))"
  using assms
proof (induction rs arbitrary: st)
  case Nil
  then show ?case by (simp add: message_loop_end)
next
  case (Cons r rs)
  then show ?case
    by (subst message_loop.simps) (auto simp: nts_rec.dec_enc bindR_def split: sum.split)
qed

lemma read_message_records:
  assumes "\<forall>r \<in> set rs. record_wf r \<and> r \<noteq> RecEndOfMessage"
    and "length (concat (map record_bytes (rs @ [RecEndOfMessage]))) \<le> MAX_MESSAGE_SIZE"
  shows "read_message step st (concat (map record_bytes (rs @ [RecEndOfMessage])) @ s) =
    bindR (take_records step rs st) (\<lambda>st'. Inr (st', s))"
proof -
  let ?m = "concat (map record_bytes (rs @ [RecEndOfMessage]))"
  have "take MAX_MESSAGE_SIZE (?m @ s) = ?m @ take (MAX_MESSAGE_SIZE - length ?m) s"
    "drop MAX_MESSAGE_SIZE (?m @ s) = drop (MAX_MESSAGE_SIZE - length ?m) s"
    using assms(2) by simp_all
  then show ?thesis
    using message_loop_records [OF assms(1), of step "take (MAX_MESSAGE_SIZE - length ?m) s" st]
    by (simp add: read_message_def bindR_def split: sum.split)
qed

text \<open>The messages that come back from the wire as they were.\<close>

fun key_fits :: "aead_algorithm \<Rightarrow> cipher \<Rightarrow> bool" where
  "key_fits AeadAesSivCmac256 (AesSivCmac256 k) \<longleftrightarrow> length k = 32"
| "key_fits AeadAesSivCmac512 (AesSivCmac512 k) \<longleftrightarrow> length k = 64"
| "key_fits _ _ \<longleftrightarrow> False"

fun request_wf :: "request \<Rightarrow> bool" where
  "request_wf (KeyExchange algorithms protocols denied_servers) \<longleftrightarrow>
     list_all canonical_aead algorithms \<and> list_all canonical_protocol protocols \<and> list_all utf8_valid denied_servers"
| "request_wf (FixedKey authentication c2s s2c algorithm protocol keep_alive) \<longleftrightarrow>
     utf8_valid authentication \<and> key_fits algorithm c2s \<and> key_fits algorithm s2c \<and> canonical_protocol protocol"
| "request_wf (Support authentication wants_protocols wants_algorithms keep_alive) \<longleftrightarrow>
     utf8_valid authentication \<and> (wants_protocols \<or> wants_algorithms)"

definition response_wf :: "key_exchange_response \<Rightarrow> bool" where
  "response_wf r \<longleftrightarrow> canonical_protocol (kr_protocol r) \<and> canonical_aead (kr_algorithm r) \<and>
     length (kr_cookies r) \<le> DEFAULT_NUMBER_OF_COOKIES \<and> pred_option utf8_valid (kr_server r)"

definition records_size :: "nts_record list \<Rightarrow> nat" where
  "records_size rs = sum_list (map (\<lambda>r. body_size r + 4) rs)"

lemma length_records: "length (concat (map record_bytes rs)) = records_size rs"
  by (induction rs) (simp_all add: records_size_def record_bytes_length)

lemma records_size_member: "r \<in> set rs \<Longrightarrow> body_size r + 4 \<le> records_size rs"
  by (induction rs) (auto simp: records_size_def)

lemma records_sent:
  assumes "records_size rs \<le> MAX_MESSAGE_SIZE"
  shows "send_records rs = (concat (map record_bytes rs), Inr ())"
proof (rule send_records_wf, rule ballI)
  fix r assume "r \<in> set rs"
  with records_size_member [of r rs] assms show "body_size r \<le> 65535" by (simp add: MAX_MESSAGE_SIZE_def)
qed

lemma read_sent_message:
  assumes "records_size (rs @ [RecEndOfMessage]) \<le> MAX_MESSAGE_SIZE"
    and "\<forall>r \<in> set rs. record_canonical r \<and> r \<noteq> RecEndOfMessage"
  shows "read_message step st (fst (send_records (rs @ [RecEndOfMessage])) @ s) =
    bindR (take_records step rs st) (\<lambda>st'. Inr (st', s))"
proof -
  have "\<forall>r \<in> set rs. record_wf r \<and> r \<noteq> RecEndOfMessage"
    using assms(2) records_size_member [of _ "rs @ [RecEndOfMessage]"] assms(1)
    by (fastforce simp: record_wf_def MAX_MESSAGE_SIZE_def)
  then show ?thesis
    using read_message_records [of rs step st s] assms(1) by (simp only: records_sent [OF assms(1)] length_records fst_conv)
qed

lemma take_denied:
  "take_records request_step (map RecNtpServerDeny ds) p = Inr (p\<lparr>rq_denied_servers := rq_denied_servers p @ ds\<rparr>)"
  by (induction ds arbitrary: p) simp_all

lemma take_cookies:
  "length (rp_cookies p) + length cs \<le> DEFAULT_NUMBER_OF_COOKIES \<Longrightarrow>
    take_records response_step (map RecNewCookie cs) p = Inr (p\<lparr>rp_cookies := rp_cookies p @ cs\<rparr>)"
  by (induction cs arbitrary: p) simp_all

lemma fixed_keys_of_key:
  "key_fits a c \<Longrightarrow> key_fits a d \<Longrightarrow> fixed_keys a (key_bytes c, key_bytes d) = Inr (c, d)"
  by (cases "(a, c)" rule: key_fits.cases; cases "(a, d)" rule: key_fits.cases)
     (simp_all add: cmac256_try_from_def cmac512_try_from_def)

lemma key_fits_props:
  "key_fits a c \<Longrightarrow> key_fits a d \<Longrightarrow> length (key_bytes c) = length (key_bytes d)"
  "key_fits a c \<Longrightarrow> canonical_aead a"
  by (cases "(a, c)" rule: key_fits.cases; cases "(a, d)" rule: key_fits.cases; simp)
     (cases "(a, c)" rule: key_fits.cases; simp add: canonical_aead_def aead_from_u16_def)

definition request_body :: "request \<Rightarrow> nts_record list" where
  "request_body q = butlast (request_records q)"

lemma request_records_body:
  "request_records q = request_body q @ [RecEndOfMessage]"
  by (cases q) (simp_all add: request_body_def butlast_append)

lemma request_body_canonical:
  assumes "request_wf q" and "r \<in> set (request_body q)"
  shows "record_canonical r \<and> r \<noteq> RecEndOfMessage"
proof (cases q)
  case (FixedKey t c2s s2c a p k)
  then have "canonical_aead a" "length (key_bytes c2s) = length (key_bytes s2c)"
    using assms(1) key_fits_props(1) [of a c2s s2c] key_fits_props(2) [of a c2s] by simp_all
  with FixedKey assms show ?thesis by (auto simp: request_body_def butlast_append split: if_splits)
qed (use assms in \<open>auto simp: request_body_def butlast_append list_all_iff split: if_splits\<close>)

lemma request_body_taken:
  assumes "request_wf q"
  shows "bindR (take_records request_step (request_body q) request_parts_new) request_finish = Inr q"
proof (cases q)
  case (KeyExchange a p d)
  then show ?thesis
    by (simp add: request_body_def butlast_append take_records_append take_denied request_parts_new_def request_finish_def)
next
  case (FixedKey t c2s s2c a p k)
  then show ?thesis
    using assms fixed_keys_of_key [of a c2s s2c]
    by (simp add: request_body_def butlast_append request_parts_new_def request_finish_def)
next
  case (Support t p a k)
  then show ?thesis
    using assms by (auto simp: request_body_def butlast_append request_parts_new_def request_finish_def)
qed

definition request_fits :: "request \<Rightarrow> bool" where
  "request_fits q \<longleftrightarrow> request_wf q \<and> records_size (request_records q) \<le> MAX_MESSAGE_SIZE"

interpretation nts_req: prefix_codec "\<lambda>q. fst (request_serialize q)" request_parse request_fits
proof
  fix q s
  assume "request_fits q"
  then have wf: "request_wf q" and fits: "records_size (request_body q @ [RecEndOfMessage]) \<le> MAX_MESSAGE_SIZE"
    by (simp_all add: request_fits_def request_records_body)
  have "\<forall>r \<in> set (request_body q). record_canonical r \<and> r \<noteq> RecEndOfMessage"
    using request_body_canonical [OF wf] by blast
  from read_sent_message [OF fits this, of request_step request_parts_new s]
  have "read_message request_step request_parts_new (fst (request_serialize q) @ s) =
      bindR (take_records request_step (request_body q) request_parts_new) (\<lambda>p. Inr (p, s))"
    by (simp only: request_serialize_def request_records_body)
  moreover obtain p where "take_records request_step (request_body q) request_parts_new = Inr p" "request_finish p = Inr q"
    using request_body_taken [OF wf] unfolding bindR_eq_Inr_iff by blast
  ultimately show "request_parse (fst (request_serialize q) @ s) = Inr (q, s)"
    by (simp add: request_parse_def)
qed

lemma request_sent: "request_fits q \<Longrightarrow> snd (request_serialize q) = Inr ()"
  by (simp add: request_fits_def request_serialize_def records_sent)

definition response_body :: "key_exchange_response \<Rightarrow> nts_record list" where
  "response_body r = butlast (response_records r)"

lemma response_records_body: "response_records r = response_body r @ [RecEndOfMessage]"
  by (simp add: response_body_def response_records_def butlast_append split: option.split)

lemma response_body_canonical:
  assumes "response_wf r" and "x \<in> set (response_body r)"
  shows "record_canonical x \<and> x \<noteq> RecEndOfMessage"
  using assms
  by (cases "kr_server r")
     (auto simp: response_body_def response_records_def butlast_append response_wf_def split: if_splits option.splits)

lemma response_body_taken:
  assumes "response_wf r"
  shows "bindR (take_records response_step (response_body r) response_parts_new) response_finish = Inr r"
  using assms
  by (cases r)
     (auto simp: response_body_def response_records_def butlast_append response_wf_def take_records_append
       take_cookies response_parts_new_def response_finish_def split: option.split)

definition response_fits :: "key_exchange_response \<Rightarrow> bool" where
  "response_fits r \<longleftrightarrow> response_wf r \<and> records_size (response_records r) \<le> MAX_MESSAGE_SIZE"

interpretation nts_resp: prefix_codec "\<lambda>r. fst (response_serialize r)" response_parse response_fits
proof
  fix r s
  assume "response_fits r"
  then have wf: "response_wf r" and fits: "records_size (response_body r @ [RecEndOfMessage]) \<le> MAX_MESSAGE_SIZE"
    by (simp_all add: response_fits_def response_records_body)
  have "\<forall>x \<in> set (response_body r). record_canonical x \<and> x \<noteq> RecEndOfMessage"
    using response_body_canonical [OF wf] by blast
  from read_sent_message [OF fits this, of response_step response_parts_new s]
  have "read_message response_step response_parts_new (fst (response_serialize r) @ s) =
      bindR (take_records response_step (response_body r) response_parts_new) (\<lambda>p. Inr (p, s))"
    by (simp only: response_serialize_def response_records_body)
  moreover obtain p where "take_records response_step (response_body r) response_parts_new = Inr p" "response_finish p = Inr r"
    using response_body_taken [OF wf] unfolding bindR_eq_Inr_iff by blast
  ultimately show "response_parse (fst (response_serialize r) @ s) = Inr (r, s)"
    by (simp add: response_parse_def)
qed

lemma response_sent: "response_fits r \<Longrightarrow> snd (response_serialize r) = Inr ()"
  by (simp add: response_fits_def response_serialize_def records_sent)

section \<open>What is accepted\<close>

text \<open>
  An invariant of the local variables that may depend on how many bytes were consumed holds at the end
  of every message that is read.
\<close>

lemma message_loop_inv:
  assumes step: "\<forall>r st st' n. record_wf r \<longrightarrow> step r st = Inr st' \<longrightarrow> P st n \<longrightarrow> P st' (n + body_size r + 4)"
    and mono: "\<forall>st n m. P st n \<longrightarrow> n \<le> m \<longrightarrow> P st m"
  shows "message_loop step data st = Inr (st', rest) \<Longrightarrow> P st n \<Longrightarrow>
    \<exists>used. data = used @ rest \<and> 4 \<le> length used \<and> P st' (n + length used - 4)"
proof (induction "length data" arbitrary: data st n rule: less_induct)
  case less
  obtain r mid where parse: "nts_record_parse data = Inr (r, mid)"
    using less.prems(1) by (subst (asm) message_loop.simps) (auto split: sum.splits)
  obtain used where used: "data = used @ mid" "body_size r + 4 \<le> length used" and wf: "record_wf r"
    using nts_record_parse_wf [OF parse] by blast
  show ?case
  proof (cases "r = RecEndOfMessage")
    case True
    then have "st' = st" "rest = mid"
      using less.prems(1) parse by (subst (asm) message_loop.simps, simp)+
    moreover have "P st (n + length used - 4)" using mono less.prems(2) used(2) by simp
    ultimately show ?thesis using used by auto
  next
    case False
    then obtain st1 where s1: "step r st = Inr st1" and rec: "message_loop step mid st1 = Inr (st', rest)"
      using less.prems(1) parse by (subst (asm) message_loop.simps) (auto split: sum.splits)
    have "P st1 (n + body_size r + 4)" using step wf s1 less.prems(2) by blast
    then have P1: "P st1 (n + length used)" using mono used(2) by (simp add: add.assoc)
    have "length mid < length data" using used by auto
    from less.hyps [OF this rec P1] obtain used' where
      u: "mid = used' @ rest" "4 \<le> length used'" "P st' (n + length used + length used' - 4)" by blast
    show ?thesis
      using used(1) u by (intro exI [of _ "used @ used'"]) (simp add: add.assoc)
  qed
qed

lemma read_message_inv:
  assumes "read_message step st data = Inr (st', rest)"
    and "\<forall>r st st' n. record_wf r \<longrightarrow> step r st = Inr st' \<longrightarrow> P st n \<longrightarrow> P st' (n + body_size r + 4)"
    and "\<forall>st n m. P st n \<longrightarrow> n \<le> m \<longrightarrow> P st m"
    and "P st 0"
  shows "\<exists>used. data = used @ rest \<and> 4 \<le> length used \<and> length used \<le> MAX_MESSAGE_SIZE \<and> P st' (length used - 4)"
proof -
  obtain r1 where loop: "message_loop step (take MAX_MESSAGE_SIZE data) st = Inr (st', r1)"
      and rest: "rest = r1 @ drop MAX_MESSAGE_SIZE data"
    using assms(1) by (auto simp: read_message_def result_simps)
  obtain used where u: "take MAX_MESSAGE_SIZE data = used @ r1" "4 \<le> length used" "P st' (length used - 4)"
    using message_loop_inv [OF assms(2,3) loop assms(4)] by auto
  have "data = used @ rest"
    using u(1) rest append_take_drop_id [of MAX_MESSAGE_SIZE data] by simp
  moreover have "length used \<le> MAX_MESSAGE_SIZE"
    using arg_cong [OF u(1), of length] by simp
  ultimately show ?thesis using u by blast
qed

definition parts_size :: "request_parts \<Rightarrow> nat" where
  "parts_size p =
     (case rq_protocols p of None \<Rightarrow> 0 | Some ids \<Rightarrow> length ids * 2 + 4) +
     (case rq_algorithms p of None \<Rightarrow> 0 | Some ids \<Rightarrow> length ids * 2 + 4) +
     (case rq_authentication p of None \<Rightarrow> 0 | Some key \<Rightarrow> length key + 4) +
     sum_list (map (\<lambda>d. length d + 4) (rq_denied_servers p)) +
     (if rq_wants_protocols p then 4 else 0) + (if rq_wants_algorithms p then 4 else 0) +
     (if rq_keep_alive p then 4 else 0) +
     (case rq_key_bytes p of None \<Rightarrow> 0 | Some (c, s) \<Rightarrow> length c + length s + 4)"

definition request_inv :: "request_parts \<Rightarrow> nat \<Rightarrow> bool" where
  "request_inv p n \<longleftrightarrow>
     pred_option (list_all canonical_protocol) (rq_protocols p) \<and> pred_option (list_all canonical_aead) (rq_algorithms p) \<and>
     pred_option utf8_valid (rq_authentication p) \<and> list_all utf8_valid (rq_denied_servers p) \<and> parts_size p \<le> n"

lemma parts_size_update:
  "rq_protocols p = None \<Longrightarrow> parts_size (p\<lparr>rq_protocols := Some ids\<rparr>) = parts_size p + (length ids * 2 + 4)"
  "rq_algorithms p = None \<Longrightarrow> parts_size (p\<lparr>rq_algorithms := Some as\<rparr>) = parts_size p + (length as * 2 + 4)"
  "rq_authentication p = None \<Longrightarrow> parts_size (p\<lparr>rq_authentication := Some key\<rparr>) = parts_size p + (length key + 4)"
  "rq_key_bytes p = None \<Longrightarrow> parts_size (p\<lparr>rq_key_bytes := Some (c, d)\<rparr>) = parts_size p + (length c + length d + 4)"
  "parts_size (p\<lparr>rq_denied_servers := ds @ [d]\<rparr>) = parts_size (p\<lparr>rq_denied_servers := ds\<rparr>) + (length d + 4)"
  "parts_size (p\<lparr>rq_wants_protocols := True\<rparr>) \<le> parts_size p + 4"
  "parts_size (p\<lparr>rq_wants_algorithms := True\<rparr>) \<le> parts_size p + 4"
  "parts_size (p\<lparr>rq_keep_alive := True\<rparr>) \<le> parts_size p + 4"
  by (simp_all add: parts_size_def)

lemma request_step_inv:
  assumes "record_wf r" "request_step r p = Inr p'" "request_inv p n"
  shows "request_inv p' (n + body_size r + 4)"
proof (cases r)
  case (RecNtpServerDeny d)
  then show ?thesis
    using assms parts_size_update(5) [where p = p and ds = "rq_denied_servers p" and d = d] by (auto simp: request_inv_def record_wf_def)
next
  case (RecSupportedNextProtocolList ids)
  then show ?thesis
    using assms parts_size_update(6) [where p = p] by (auto simp: request_inv_def split: if_splits)
next
  case (RecSupportedAlgorithmList ds)
  then show ?thesis
    using assms parts_size_update(7) [where p = p] by (auto simp: request_inv_def split: if_splits)
next
  case (RecFixedKeyRequest c d)
  then show ?thesis
    using assms by (cases "rq_key_bytes p") (auto simp: request_inv_def parts_size_update(4))
next
  case RecKeepAlive
  then show ?thesis
    using assms parts_size_update(8) [where p = p] by (auto simp: request_inv_def)
qed (use assms in \<open>auto simp: request_inv_def parts_size_update(1-4) record_wf_def split: if_splits\<close>)

lemma fixed_keys_fit:
  "fixed_keys a (c, s) = Inr (c2s, s2c) \<Longrightarrow>
    key_fits a c2s \<and> key_fits a s2c \<and> key_bytes c2s = c \<and> key_bytes s2c = s"
  by (cases a) (auto simp: cmac256_try_from_def cmac512_try_from_def split: if_splits)

lemma request_finish_inv:
  assumes "request_finish p = Inr q" "request_inv p n"
  shows "request_wf q \<and> records_size (request_records q) \<le> n + 4"
proof (cases q)
  case (KeyExchange as ps ds)
  then have "rq_protocols p = Some ps" "rq_algorithms p = Some as" "rq_denied_servers p = ds"
    using assms(1) by (auto simp: request_finish_def result_simps split: if_splits option.splits)
  with assms(2) KeyExchange show ?thesis
    by (auto simp: request_inv_def parts_size_def records_size_def comp_def)
next
  case (FixedKey t c2s s2c a pr k)
  then obtain c s where "rq_protocols p = Some [pr]" "rq_algorithms p = Some [a]" "rq_authentication p = Some t"
      "rq_key_bytes p = Some (c, s)" "rq_keep_alive p = k" "fixed_keys a (c, s) = Inr (c2s, s2c)"
    using assms(1) by (auto simp: request_finish_def result_simps length_Suc_conv split: if_splits option.splits)
  with assms(2) FixedKey fixed_keys_fit [of a c s c2s s2c] show ?thesis
    by (auto simp: request_inv_def parts_size_def records_size_def)
next
  case (Support t wp wa k)
  then have "rq_authentication p = Some t" "rq_wants_protocols p = wp" "rq_wants_algorithms p = wa" "wp \<or> wa"
      "rq_keep_alive p = k"
    using assms(1) by (auto simp: request_finish_def result_simps split: if_splits option.splits)
  with assms(2) Support show ?thesis
    by (auto simp: request_inv_def parts_size_def records_size_def)
qed

lemma request_parse_fits:
  assumes "request_parse data = Inr (q, rest)"
  shows "request_fits q \<and> (\<exists>used. data = used @ rest \<and> records_size (request_records q) \<le> length used \<and> length used \<le> MAX_MESSAGE_SIZE)"
proof -
  obtain p where msg: "read_message request_step request_parts_new data = Inr (p, rest)" and fin: "request_finish p = Inr q"
    using assms by (auto simp: request_parse_def result_simps)
  have step: "\<forall>r st st' n. record_wf r \<longrightarrow> request_step r st = Inr st' \<longrightarrow> request_inv st n \<longrightarrow>
      request_inv st' (n + body_size r + 4)"
    using request_step_inv by blast
  have mono: "\<forall>st n m. request_inv st n \<longrightarrow> n \<le> m \<longrightarrow> request_inv st m"
    by (auto simp: request_inv_def)
  have "request_inv request_parts_new 0" by (simp add: request_inv_def request_parts_new_def parts_size_def)
  with read_message_inv [OF msg step mono] obtain used where u: "data = used @ rest" "4 \<le> length used" "length used \<le> MAX_MESSAGE_SIZE"
      and inv: "request_inv p (length used - 4)"
    by blast
  from request_finish_inv [OF fin inv] u show ?thesis by (auto simp: request_fits_def)
qed

text \<open>
  C34: a request that the server accepts is well formed. From whatever bytes a peer sends, within the
  first 4096 of them, the parser ends, and a request it returns has identifiers in the form that reading gives,
  strings in UTF-8, fixed keys of the size of their algorithm (which is a known one), and, if it asks
  what is supported, asks for something. Written again, the request is sent without error, takes no more
  bytes than were read, and is read back as it is.
\<close>
theorem accepted_requests_wf:
  assumes "request_parse data = Inr (q, rest)"
  shows "request_wf q \<and> (\<exists>used. data = used @ rest \<and> length used \<le> MAX_MESSAGE_SIZE \<and>
      length (fst (request_serialize q)) \<le> length used) \<and>
    snd (request_serialize q) = Inr () \<and> (\<forall>s. request_parse (fst (request_serialize q) @ s) = Inr (q, s))"
proof -
  have fits: "request_fits q" and used: "\<exists>used. data = used @ rest \<and> records_size (request_records q) \<le> length used \<and>
      length used \<le> MAX_MESSAGE_SIZE"
    using request_parse_fits [OF assms] by auto
  have "length (fst (request_serialize q)) = records_size (request_records q)"
    using fits by (simp add: request_serialize_def request_fits_def records_sent length_records)
  with used nts_req.dec_enc [OF fits] request_sent [OF fits] fits show ?thesis
    by (auto simp: request_fits_def)
qed

definition example_ke_request :: request where
  "example_ke_request = KeyExchange [AeadAesSivCmac512, AeadAesSivCmac256] [DraftNTPv5, NTPv4] []"

lemma example_ke_request_bytes:
  "request_parse [0x80, 1, 0, 4, 0x80, 1, 0, 0, 0x80, 4, 0, 4, 0, 17, 0, 15, 0x80, 0, 0, 0, 5] = Inr (example_ke_request, [5])"
  by code_simp

theorem accepted_requests_wf_witness:
  "request_wf example_ke_request \<and> (\<forall>s. request_parse (fst (request_serialize example_ke_request) @ s) = Inr (example_ke_request, s))"
  using accepted_requests_wf [OF example_ke_request_bytes] by blast

end
