(* ===== verification/Nts_Ke.thy ===== *)
theory Nts_Ke
  imports Ntp_Source Nts_Messages
begin

text \<open>
  The two sides of the NTS key exchange (\<^verbatim>\<open>ntp-proto/src/nts/mod.rs\<close>). The TLS connection is a parameter: a
  handshake that fails is \<open>None\<close>, one that succeeds gives the exporter of keying material
  (\<^verbatim>\<open>export_keying_material\<close> with the label of NTS), a function of a context and a length that may fail. What
  the peer sends is a list of bytes, and what a side sends is part of its result. The nonces of the
  cookies, the permit to keep a connection and the check of a server's name are arguments.
\<close>

type_synonym exporter = "bytes \<Rightarrow> nat \<Rightarrow> bytes option"

section \<open>The keys of a connection\<close>

definition extract_key_bytes :: "exporter \<Rightarrow> nat \<Rightarrow> bytes \<Rightarrow> nts_error + bytes" where
  "extract_key_bytes tls n ctx = ok_or TlsError (tls ctx n)"

definition export_context :: "next_protocol \<Rightarrow> aead_algorithm \<Rightarrow> byte \<Rightarrow> bytes" where
  "export_context protocol algorithm direction =
     (let protocol_id = protocol_to_u16 protocol; algorithm_id = aead_to_u16 algorithm in
      [ucast (drop_bit 8 protocol_id), ucast protocol_id, ucast (drop_bit 8 algorithm_id), ucast algorithm_id, direction])"

record nts_keys =
  nk_c2s :: cipher
  nk_s2c :: cipher

fun extract_from_connection :: "exporter \<Rightarrow> next_protocol \<Rightarrow> aead_algorithm \<Rightarrow> nts_error + nts_keys" where
  "extract_from_connection tls protocol AeadAesSivCmac256 =
     bindR (extract_key_bytes tls 32 (export_context protocol AeadAesSivCmac256 0)) (\<lambda>c2s.
     bindR (extract_key_bytes tls 32 (export_context protocol AeadAesSivCmac256 1)) (\<lambda>s2c.
     Inr \<lparr>nk_c2s = AesSivCmac256 c2s, nk_s2c = AesSivCmac256 s2c\<rparr>))"
| "extract_from_connection tls protocol AeadAesSivCmac512 =
     bindR (extract_key_bytes tls 64 (export_context protocol AeadAesSivCmac512 0)) (\<lambda>c2s.
     bindR (extract_key_bytes tls 64 (export_context protocol AeadAesSivCmac512 1)) (\<lambda>s2c.
     Inr \<lparr>nk_c2s = AesSivCmac512 c2s, nk_s2c = AesSivCmac512 s2c\<rparr>))"
| "extract_from_connection tls protocol (UnknownAead _) = Inl NtsInvalid"

section \<open>The client\<close>

record key_exchange_client =
  kc_protocols :: "next_protocol list"
  kc_algorithms :: "aead_algorithm list"

definition key_exchange_client_new :: "protocol_version \<Rightarrow> key_exchange_client" where
  "key_exchange_client_new version =
     \<lparr>kc_protocols = (case version of
          PV4 \<Rightarrow> [NTPv4]
        | PV5 \<Rightarrow> [DraftNTPv5]
        | _ \<Rightarrow> [DraftNTPv5, NTPv4]),
      kc_algorithms = [AeadAesSivCmac512, AeadAesSivCmac256]\<rparr>"

record key_exchange_result =
  ke_remote :: str
  ke_port :: u16
  ke_nts :: source_nts_data
  ke_version :: protocol_version

definition NTP_DEFAULT_PORT :: u16 where
  "NTP_DEFAULT_PORT = 123"

definition exchange_keys ::
  "(str \<Rightarrow> bool) \<Rightarrow> exporter option \<Rightarrow> key_exchange_client \<Rightarrow> str \<Rightarrow> str list \<Rightarrow> bytes \<Rightarrow>
   bytes \<times> (nts_error + key_exchange_result)" where
  "exchange_keys valid_name connection client server_name denied_servers incoming =
     (if \<not> valid_name server_name then ([], Inl DnsError)
      else case connection of
        None \<Rightarrow> ([], Inl TlsError)
      | Some tls \<Rightarrow>
          (case request_serialize (KeyExchange (kc_algorithms client) (kc_protocols client) denied_servers) of
             (_, Inl e) \<Rightarrow> ([], Inl (IOError e))
           | (req_buf, Inr _) \<Rightarrow>
               (req_buf,
                bindR (response_parse incoming) (\<lambda>(response, _).
                bindR (extract_from_connection tls (kr_protocol response) (kr_algorithm response)) (\<lambda>keys.
                let cookies = foldl stash_store cookie_stash_default (kr_cookies response);
                    result = \<lambda>version. Inr
                      \<lparr>ke_remote = (case kr_server response of Some name \<Rightarrow> name | None \<Rightarrow> server_name),
                       ke_port = (case kr_port response of Some port \<Rightarrow> port | None \<Rightarrow> NTP_DEFAULT_PORT),
                       ke_nts = \<lparr>nts_cookies = cookies, nts_c2s = nk_c2s keys, nts_s2c = nk_s2c keys\<rparr>,
                       ke_version = version\<rparr>
                in if stash_is_empty cookies then Inl NoCookie
                   else case kr_protocol response of
                     NTPv4 \<Rightarrow> result PV4
                   | DraftNTPv5 \<Rightarrow> result PV5
                   | UnknownProtocol _ \<Rightarrow> Inl NtsInvalid)))))"

section \<open>The server\<close>

record key_exchange_server =
  kx_protocols :: "next_protocol list"
  kx_algorithms :: "algorithm_description list"
  kx_pool_authentication_tokens :: "str list"
  kx_server :: "str option"
  kx_port :: "u16 option"

fun version_protocol :: "ntp_version \<Rightarrow> next_protocol option" where
  "version_protocol NtpV3 = None"
| "version_protocol NtpV4 = Some NTPv4"
| "version_protocol NtpV5 = Some DraftNTPv5"

text \<open>A missing description panics.\<close>

definition key_exchange_server_new ::
  "ntp_version list \<Rightarrow> str option \<Rightarrow> u16 option \<Rightarrow> str list \<Rightarrow> key_exchange_server option" where
  "key_exchange_server_new accepted_versions server port tokens =
     (case (aead_description AeadAesSivCmac256, aead_description AeadAesSivCmac512) of
        (Some d1, Some d2) \<Rightarrow>
          Some \<lparr>kx_protocols = List.map_filter version_protocol accepted_versions, kx_algorithms = [d1, d2],
            kx_pool_authentication_tokens = tokens, kx_server = server, kx_port = port\<rparr>
      | _ \<Rightarrow> None)"

text \<open>What a handler has sent, whether it has shut the connection down, and what it returns.\<close>

record 'a served =
  sv_sent :: bytes
  sv_shutdown :: bool
  sv_result :: "nts_error + 'a"

text \<open>A message is sent, and then the connection is shut down or not.\<close>

definition respond :: "sent \<Rightarrow> bool \<Rightarrow> nts_error + 'a \<Rightarrow> 'a served" where
  "respond message shutdown result =
     (case message of
        (d, Inl e) \<Rightarrow> \<lparr>sv_sent = d, sv_shutdown = False, sv_result = Inl (IOError e)\<rparr>
      | (d, Inr _) \<Rightarrow> \<lparr>sv_sent = d, sv_shutdown = shutdown, sv_result = result\<rparr>)"

text \<open>The answers to a request that does not parse.\<close>

fun refuse_request :: "nts_error \<Rightarrow> 'a served" where
  "refuse_request NtsInvalid = respond (error_response_serialize BadRequest) True (Inl NtsInvalid)"
| "refuse_request NotPermitted = respond (error_response_serialize BadRequest) True (Inl NotPermitted)"
| "refuse_request UnrecognizedCriticalRecord =
     respond (error_response_serialize UnrecognizedCriticalRecordCode) True (Inl NtsInvalid)"
| "refuse_request e = \<lparr>sv_sent = [], sv_shutdown = False, sv_result = Inl e\<rparr>"

text \<open>The cookies of a response; the nonces are in the order of their use.\<close>

definition make_cookies :: "aead \<Rightarrow> (nat \<Rightarrow> bytes) \<Rightarrow> key_set \<Rightarrow> decoded_server_cookie \<Rightarrow> bytes list option" where
  "make_cookies A nonces keyset cookie =
     those (map (\<lambda>i. encode_cookie A (nonces i) keyset cookie) [0..<DEFAULT_NUMBER_OF_COOKIES])"

definition server_supports :: "key_exchange_server \<Rightarrow> bool \<Rightarrow> bool \<Rightarrow> bool \<Rightarrow> supports_response" where
  "server_supports server wants_protocols wants_algorithms keep_alive =
     \<lparr>sr_algorithms = (if wants_algorithms then Some (kx_algorithms server) else None),
      sr_protocols = (if wants_protocols then Some (kx_protocols server) else None),
      sr_keep_alive = keep_alive\<rparr>"

fun is_unknown_aead :: "aead_algorithm \<Rightarrow> bool" where
  "is_unknown_aead (UnknownAead _) \<longleftrightarrow> True"
| "is_unknown_aead _ \<longleftrightarrow> False"

text \<open>A plain key exchange: the first protocol and the first known algorithm of the client.\<close>

definition handle_key_exchange ::
  "aead \<Rightarrow> exporter \<Rightarrow> (nat \<Rightarrow> bytes) \<Rightarrow> key_exchange_server \<Rightarrow> key_set \<Rightarrow> aead_algorithm list \<Rightarrow> next_protocol list \<Rightarrow>
   'a option served option" where
  "handle_key_exchange A tls nonces server keyset algorithms protocols =
     (case (find (\<lambda>v. v \<in> set (kx_protocols server)) protocols, find (\<lambda>v. \<not> is_unknown_aead v) algorithms) of
        (None, _) \<Rightarrow> Some (respond (no_overlap_serialize RespNoOverlappingProtocol) True (Inl NoOverlappingProtocol))
      | (Some protocol, None) \<Rightarrow>
          Some (respond (no_overlap_serialize (RespNoOverlappingAlgorithm protocol)) True (Inl NoOverlappingAlgorithm))
      | (Some protocol, Some algorithm) \<Rightarrow>
          (case extract_from_connection tls protocol algorithm of
             Inl e \<Rightarrow> Some (respond (error_response_serialize InternalServerError) False (Inl e))
           | Inr keys \<Rightarrow>
               map_option (\<lambda>cookies.
                 case response_serialize \<lparr>kr_protocol = protocol, kr_algorithm = algorithm, kr_cookies = cookies,
                   kr_server = kx_server server, kr_port = kx_port server, kr_keep_alive = False\<rparr> of
                   (_, Inl e) \<Rightarrow> \<lparr>sv_sent = [], sv_shutdown = False, sv_result = Inl (IOError e)\<rparr>
                 | (req_buf, Inr _) \<Rightarrow> \<lparr>sv_sent = req_buf, sv_shutdown = True, sv_result = Inr None\<rparr>)
               (make_cookies A nonces keyset
                 \<lparr>dsc_algorithm = algorithm, dsc_s2c = nk_s2c keys, dsc_c2s = nk_c2s keys\<rparr>)))"

definition handle_connection ::
  "aead \<Rightarrow> exporter option \<Rightarrow> (nat \<Rightarrow> bytes) \<Rightarrow> key_exchange_server \<Rightarrow> key_set \<Rightarrow> 'p option \<Rightarrow> bytes \<Rightarrow>
   ('p \<times> bytes) option served option" where
  "handle_connection A connection nonces server keyset permit incoming =
     (case connection of
        None \<Rightarrow> Some \<lparr>sv_sent = [], sv_shutdown = False, sv_result = Inl TlsError\<rparr>
      | Some tls \<Rightarrow>
          (case request_parse incoming of
             Inl e \<Rightarrow> Some (refuse_request e)
           | Inr (KeyExchange algorithms protocols _, _) \<Rightarrow>
               handle_key_exchange A tls nonces server keyset algorithms protocols
           | Inr (FixedKey authentication c2s_key s2c_key algorithm protocol keep_alive, io) \<Rightarrow>
               if authentication \<in> set (kx_pool_authentication_tokens server) then
                 map_option (\<lambda>cookies.
                   let permit = (if keep_alive then permit else None) in
                   respond (response_serialize \<lparr>kr_protocol = protocol, kr_algorithm = algorithm, kr_cookies = cookies,
                       kr_server = kx_server server, kr_port = kx_port server, kr_keep_alive = permit \<noteq> None\<rparr>)
                     (permit = None) (Inr (map_option (\<lambda>p. (p, io)) permit)))
                 (make_cookies A nonces keyset \<lparr>dsc_algorithm = algorithm, dsc_s2c = s2c_key, dsc_c2s = c2s_key\<rparr>)
               else Some (respond (error_response_serialize BadRequest) True (Inl NotPermitted))
           | Inr (Support authentication wants_protocols wants_algorithms keep_alive, io) \<Rightarrow>
               if authentication \<in> set (kx_pool_authentication_tokens server) then
                 (let permit = (if keep_alive then permit else None) in
                  Some (respond (supports_serialize (server_supports server wants_protocols wants_algorithms (permit \<noteq> None)))
                    (permit = None) (Inr (map_option (\<lambda>p. (p, io)) permit))))
               else Some (respond (error_response_serialize BadRequest) True (Inl NotPermitted))))"

text \<open>
  The requests on a connection that is kept, from the \<open>k\<close>-th on: the key set and the nonces of
  each are those at its time. The connection's bytes run out, so that the loop ends.
\<close>

definition then_served :: "bytes \<Rightarrow> 'a served \<Rightarrow> 'a served" where
  "then_served d s = s\<lparr>sv_sent := d @ sv_sent s\<rparr>"

lemma request_parse_rest:
  "request_parse data = Inr (q, rest) \<Longrightarrow> length rest < length data"
  using request_parse_fits [of data q rest] records_size_member [of RecEndOfMessage "request_records q"]
  by (auto simp: request_records_body)

function handle_longterm ::
  "aead \<Rightarrow> (nat \<Rightarrow> nat \<Rightarrow> bytes) \<Rightarrow> key_exchange_server \<Rightarrow> (nat \<Rightarrow> key_set) \<Rightarrow> nat \<Rightarrow> bytes \<Rightarrow> unit served option" where
  "handle_longterm A nonces server get_keyset k incoming =
     (case request_parse incoming of
        Inl (IOError UnexpectedEof) \<Rightarrow> Some \<lparr>sv_sent = [], sv_shutdown = True, sv_result = Inr ()\<rparr>
      | Inl e \<Rightarrow> Some (refuse_request e)
      | Inr (KeyExchange _ _ _, _) \<Rightarrow> Some (respond (error_response_serialize BadRequest) True (Inl NtsInvalid))
      | Inr (FixedKey authentication c2s_key s2c_key algorithm protocol keep_alive, io) \<Rightarrow>
          (case make_cookies A (nonces k) (get_keyset k)
              \<lparr>dsc_algorithm = algorithm, dsc_s2c = s2c_key, dsc_c2s = c2s_key\<rparr> of
             None \<Rightarrow> None
           | Some cs \<Rightarrow>
               (case response_serialize \<lparr>kr_protocol = protocol, kr_algorithm = algorithm, kr_cookies = cs,
                    kr_server = kx_server server, kr_port = kx_port server, kr_keep_alive = keep_alive\<rparr> of
                  (d, Inl e) \<Rightarrow> Some \<lparr>sv_sent = d, sv_shutdown = False, sv_result = Inl (IOError e)\<rparr>
                | (d, Inr _) \<Rightarrow>
                    if \<not> keep_alive then Some \<lparr>sv_sent = d, sv_shutdown = True, sv_result = Inr ()\<rparr>
                    else map_option (then_served d) (handle_longterm A nonces server get_keyset (Suc k) io)))
      | Inr (Support authentication wants_protocols wants_algorithms keep_alive, io) \<Rightarrow>
          (case supports_serialize (server_supports server wants_protocols wants_algorithms False) of
             (d, Inl e) \<Rightarrow> Some \<lparr>sv_sent = d, sv_shutdown = False, sv_result = Inl (IOError e)\<rparr>
           | (d, Inr _) \<Rightarrow>
               if \<not> keep_alive then Some \<lparr>sv_sent = d, sv_shutdown = True, sv_result = Inr ()\<rparr>
               else map_option (then_served d) (handle_longterm A nonces server get_keyset (Suc k) io)))"
  by pat_completeness auto
termination
  by (relation "measure (\<lambda>(A, nonces, server, get_keyset, k, incoming). length incoming)")
     (auto dest: request_parse_rest)

section \<open>Cookies of an exchange\<close>

declare handle_longterm.simps [simp del]

definition keyset_ok :: "key_set \<Rightarrow> bool" where
  "keyset_ok ks \<longleftrightarrow> unat (ks_primary ks) < length (ks_keys ks)"

text \<open>The exporter of a TLS connection gives as many bytes as are asked for.\<close>

definition exports :: "exporter \<Rightarrow> bool" where
  "exports tls \<longleftrightarrow> (\<forall>ctx n. \<exists>key. tls ctx n = Some key \<and> length key = n)"

definition server_ok :: "key_exchange_server \<Rightarrow> bool" where
  "server_ok server \<longleftrightarrow> list_all canonical_protocol (kx_protocols server) \<and>
     pred_option (\<lambda>name. utf8_valid name \<and> length name \<le> 2000) (kx_server server)"

text \<open>A cookie that the key set made for a pair of keys, with some nonce.\<close>

definition fresh_cookie :: "aead \<Rightarrow> key_set \<Rightarrow> decoded_server_cookie \<Rightarrow> bytes \<Rightarrow> bool" where
  "fresh_cookie A ks keys c \<longleftrightarrow> (\<exists>nonce. length nonce = 16 \<and> encode_cookie A nonce ks keys = Some c)"

lemma those_map_Some: "those (map (\<lambda>x. Some (f x)) xs) = Some (map f xs)"
  by (induction xs) simp_all

lemma make_cookies_sealed:
  assumes "keyset_ok ks" "\<forall>i. length (nonces i) = 16" "aead_overhead A"
  shows "make_cookies A nonces ks cookie =
    Some (map (\<lambda>i. sealed_cookie A (nonces i) (ks_keys ks ! unat (ks_primary ks)) (ks_primary ks + ks_id_offset ks) cookie)
      [0..<DEFAULT_NUMBER_OF_COOKIES])"
  using assms by (simp add: make_cookies_def encode_cookie_sealed keyset_ok_def those_map_Some)

lemma make_cookies_decode:
  assumes "make_cookies A nonces ks cookie = Some cs" "keyset_ok ks" "\<forall>i. length (nonces i) = 16"
    and "aead_overhead A" "aead_correct A" "cookie_wf cookie"
  shows "length cs = DEFAULT_NUMBER_OF_COOKIES \<and> (\<forall>c \<in> set cs. decode_cookie A ks c = Some cookie \<and> fresh_cookie A ks cookie c \<and> length c \<le> 168)"
proof -
  let ?c = "\<lambda>i. sealed_cookie A (nonces i) (ks_keys ks ! unat (ks_primary ks)) (ks_primary ks + ks_id_offset ks) cookie"
  have cs: "cs = map ?c [0..<DEFAULT_NUMBER_OF_COOKIES]"
    using assms(1) make_cookies_sealed [OF assms(2-4), of cookie] by simp
  have "decode_cookie A ks (?c i) = Some cookie" for i
    using assms(2) by (intro decode_sealed_cookie assms(5) assms(3) [rule_format] assms(4) assms(6)) (simp_all add: keyset_ok_def)
  moreover have "fresh_cookie A ks cookie (?c i)" for i
    using assms(2-4) encode_cookie_sealed [of ks "nonces i" A cookie] by (auto simp: fresh_cookie_def keyset_ok_def)
  moreover have "length (?c i) \<le> 168" for i
    using assms(6) length_sealed_cookie [OF assms(3) [rule_format, of i] assms(4)]
    by (cases rule: cookie_wf_cases) (simp_all add: dsc_plaintext_def)
  ultimately show ?thesis using cs by simp
qed

lemma extract_ok:
  assumes "exports tls" "\<not> is_unknown_aead a"
  obtains keys where "extract_from_connection tls p a = Inr keys"
    "cookie_wf \<lparr>dsc_algorithm = a, dsc_s2c = nk_s2c keys, dsc_c2s = nk_c2s keys\<rparr>"
proof (cases a)
  case AeadAesSivCmac256
  obtain k1 k2 where "tls (export_context p a 0) 32 = Some k1" "length k1 = 32"
      "tls (export_context p a 1) 32 = Some k2" "length k2 = 32"
    using assms(1) unfolding exports_def by meson
  then show ?thesis using AeadAesSivCmac256 that by (simp add: extract_key_bytes_def)
next
  case AeadAesSivCmac512
  obtain k1 k2 where "tls (export_context p a 0) 64 = Some k1" "length k1 = 64"
      "tls (export_context p a 1) 64 = Some k2" "length k2 = 64"
    using assms(1) unfolding exports_def by meson
  then show ?thesis using AeadAesSivCmac512 that by (simp add: extract_key_bytes_def)
qed (use assms in simp)

lemma known_canonical: "\<not> is_unknown_aead a \<Longrightarrow> canonical_aead a"
  by (cases a) (simp_all add: canonical_aead_def aead_from_u16_def)

lemma server_response_fits:
  assumes "server_ok server" "canonical_protocol p" "\<not> is_unknown_aead a"
    and "length cs = DEFAULT_NUMBER_OF_COOKIES" "\<forall>c \<in> set cs. length c \<le> 168"
  shows "response_fits \<lparr>kr_protocol = p, kr_algorithm = a, kr_cookies = cs, kr_server = kx_server server,
    kr_port = kx_port server, kr_keep_alive = k\<rparr>"
proof -
  have "sum_list (map (\<lambda>c. length c + 4) cs) \<le> sum_list (map (\<lambda>c. 172) cs)"
    using assms(5) by (intro sum_list_mono) auto
  also have "\<dots> = 172 * length cs" by (simp add: sum_list_triv)
  finally have "sum_list (map (\<lambda>c. length c + 4) cs) \<le> 1376" using assms(4) by (simp add: DEFAULT_NUMBER_OF_COOKIES_def)
  moreover have "(case kx_server server of None \<Rightarrow> 0 | Some name \<Rightarrow> length name + 4) \<le> 2004"
    using assms(1) by (cases "kx_server server") (auto simp: server_ok_def)
  ultimately have "records_size (response_records \<lparr>kr_protocol = p, kr_algorithm = a, kr_cookies = cs,
      kr_server = kx_server server, kr_port = kx_port server, kr_keep_alive = k\<rparr>) \<le> MAX_MESSAGE_SIZE"
    by (auto simp: records_size_def response_records_def comp_def MAX_MESSAGE_SIZE_def split: option.splits)
  moreover have "pred_option utf8_valid (kx_server server)"
    using assms(1) by (cases "kx_server server") (auto simp: server_ok_def)
  ultimately show ?thesis
    using assms(2,4) known_canonical [OF assms(3)] by (simp add: response_fits_def response_wf_def)
qed

lemma server_new_ok:
  assumes "key_exchange_server_new versions name port tokens = Some server"
    and "pred_option (\<lambda>name. utf8_valid name \<and> length name \<le> 2000) name"
  shows "server_ok server"
proof -
  have "list_all canonical_protocol (List.map_filter version_protocol versions)"
    by (induction versions) (auto simp: List.map_filter_simps elim!: version_protocol.elims split: option.split)
  with assms show ?thesis by (auto simp: key_exchange_server_new_def server_ok_def)
qed

section \<open>Both sides\<close>

lemma stash_of_cookies:
  assumes "length cs \<le> 8"
  shows "stash_inv (foldl stash_store cookie_stash_default cs)"
    and "stash_contents (foldl stash_store cookie_stash_default cs) = cs"
    and "stash_is_empty (foldl stash_store cookie_stash_default cs) \<longleftrightarrow> cs = []"
proof -
  let ?s = "foldl stash_store cookie_stash_default cs"
  have "stash_inv s \<Longrightarrow> stash_inv (foldl stash_store s cs)" for s
    by (induction cs arbitrary: s) (simp_all add: stash_store_inv)
  then show "stash_inv ?s" using stash_inv_default by blast
  show c: "stash_contents ?s = cs"
    using stash.put_all_contents [OF stash_inv_default, of cs] assms
    by (simp add: foldl_conv_fold stash_contents_default MAX_COOKIES_def)
  show "stash_is_empty ?s \<longleftrightarrow> cs = []"
    unfolding stash_is_empty_def by (metis c length_0_conv length_stash_contents)
qed

lemma handle_key_exchange_ok:
  assumes "aead_correct A" "aead_overhead A" "\<forall>i. length (nonces i) = 16" "exports tls" "keyset_ok ks" "server_ok server"
    and p: "find (\<lambda>v. v \<in> set (kx_protocols server)) protocols = Some p"
    and a: "find (\<lambda>v. \<not> is_unknown_aead v) algorithms = Some a"
  obtains keys cs r where "extract_from_connection tls p a = Inr keys"
    "r = \<lparr>kr_protocol = p, kr_algorithm = a, kr_cookies = cs, kr_server = kx_server server,
       kr_port = kx_port server, kr_keep_alive = False\<rparr>"
    "response_fits r" "length cs = 8"
    "\<forall>c \<in> set cs. decode_cookie A ks c = Some \<lparr>dsc_algorithm = a, dsc_s2c = nk_s2c keys, dsc_c2s = nk_c2s keys\<rparr> \<and>
       fresh_cookie A ks \<lparr>dsc_algorithm = a, dsc_s2c = nk_s2c keys, dsc_c2s = nk_c2s keys\<rparr> c"
    "cookie_wf \<lparr>dsc_algorithm = a, dsc_s2c = nk_s2c keys, dsc_c2s = nk_c2s keys\<rparr>"
    "handle_key_exchange A tls nonces server ks algorithms protocols =
       Some \<lparr>sv_sent = fst (response_serialize r), sv_shutdown = True, sv_result = Inr (None :: 'p option)\<rparr>"
proof -
  have known: "\<not> is_unknown_aead a" and "p \<in> set (kx_protocols server)"
    using a p by (auto simp: find_Some_iff)
  then have cp: "canonical_protocol p" using assms(6) by (auto simp: server_ok_def list_all_iff)
  obtain keys where keys: "extract_from_connection tls p a = Inr keys"
      and wf: "cookie_wf \<lparr>dsc_algorithm = a, dsc_s2c = nk_s2c keys, dsc_c2s = nk_c2s keys\<rparr>"
    using extract_ok [OF assms(4) known] .
  obtain cs where cs: "make_cookies A nonces ks \<lparr>dsc_algorithm = a, dsc_s2c = nk_s2c keys, dsc_c2s = nk_c2s keys\<rparr> = Some cs"
    using make_cookies_sealed [OF assms(5,3,2)] by blast
  from make_cookies_decode [OF cs assms(5,3,2,1) wf] have n: "length cs = DEFAULT_NUMBER_OF_COOKIES"
    and dec: "\<forall>c \<in> set cs. decode_cookie A ks c = Some \<lparr>dsc_algorithm = a, dsc_s2c = nk_s2c keys, dsc_c2s = nk_c2s keys\<rparr> \<and>
      fresh_cookie A ks \<lparr>dsc_algorithm = a, dsc_s2c = nk_s2c keys, dsc_c2s = nk_c2s keys\<rparr> c"
    and small: "\<forall>c \<in> set cs. length c \<le> 168" by auto
  let ?r = "\<lparr>kr_protocol = p, kr_algorithm = a, kr_cookies = cs, kr_server = kx_server server,
    kr_port = kx_port server, kr_keep_alive = False\<rparr>"
  have fits: "response_fits ?r" by (rule server_response_fits [OF assms(6) cp known n small])
  have "response_serialize ?r = (fst (response_serialize ?r), Inr ())"
    using response_sent [OF fits] by (metis prod.collapse)
  then have "handle_key_exchange A tls nonces server ks algorithms protocols =
      Some \<lparr>sv_sent = fst (response_serialize ?r), sv_shutdown = True, sv_result = Inr None\<rparr>"
    using p a keys cs unfolding handle_key_exchange_def
    by (cases "response_serialize ?r") simp
  with keys fits n dec wf that [of keys ?r cs] show thesis by (simp add: DEFAULT_NUMBER_OF_COOKIES_def)
qed

lemma exchange_keys_ok:
  assumes "valid_name host" "request_fits (KeyExchange (kc_algorithms client) (kc_protocols client) denied)"
    and "response_fits r" "extract_from_connection tls (kr_protocol r) (kr_algorithm r) = Inr keys" "kr_cookies r \<noteq> []"
    and "kr_protocol r = NTPv4 \<or> kr_protocol r = DraftNTPv5"
  shows "exchange_keys valid_name (Some tls) client host denied (fst (response_serialize r)) =
    (fst (request_serialize (KeyExchange (kc_algorithms client) (kc_protocols client) denied)),
     Inr \<lparr>ke_remote = (case kr_server r of Some name \<Rightarrow> name | None \<Rightarrow> host),
       ke_port = (case kr_port r of Some port \<Rightarrow> port | None \<Rightarrow> NTP_DEFAULT_PORT),
       ke_nts = \<lparr>nts_cookies = foldl stash_store cookie_stash_default (kr_cookies r), nts_c2s = nk_c2s keys, nts_s2c = nk_s2c keys\<rparr>,
       ke_version = (if kr_protocol r = NTPv4 then PV4 else PV5)\<rparr>)"
proof -
  let ?q = "KeyExchange (kc_algorithms client) (kc_protocols client) denied"
  have "response_parse (fst (response_serialize r)) = Inr (r, [])"
    using nts_resp.dec_enc [OF assms(3), of "[]"] by simp
  moreover have "request_serialize ?q = (fst (request_serialize ?q), Inr ())"
    using request_sent [OF assms(2)] by (metis prod.collapse)
  moreover have "length (kr_cookies r) \<le> 8"
    using assms(3) by (simp add: response_fits_def response_wf_def DEFAULT_NUMBER_OF_COOKIES_def)
  ultimately show ?thesis
    using assms stash_of_cookies [of "kr_cookies r"]
    by (cases "request_serialize ?q") (auto simp: exchange_keys_def Let_def)
qed

lemma key_exchange_run:
  fixes permit :: "'p option"
  assumes "aead_correct A" "aead_overhead A" "\<forall>i. length (nonces i) = 16" "exports tls" "keyset_ok ks"
    and server: "key_exchange_server_new versions name port tokens = Some server"
      "pred_option (\<lambda>name. utf8_valid name \<and> length name \<le> 2000) name"
    and client: "client = key_exchange_client_new version" "valid_name host"
      "request_fits (KeyExchange (kc_algorithms client) (kc_protocols client) denied)"
    and p: "find (\<lambda>v. v \<in> set (kx_protocols server)) (kc_protocols client) = Some p"
  shows "\<exists>request response result.
    (\<forall>incoming. fst (exchange_keys valid_name (Some tls) client host denied incoming) = request) \<and>
    handle_connection A (Some tls) nonces server ks permit request =
      Some \<lparr>sv_sent = response, sv_shutdown = True, sv_result = Inr None\<rparr> \<and>
    exchange_keys valid_name (Some tls) client host denied response = (request, Inr result) \<and>
    ke_version result = (if p = NTPv4 then PV4 else PV5) \<and>
    ke_remote result = (case name of Some name \<Rightarrow> name | None \<Rightarrow> host) \<and>
    ke_port result = (case port of Some port \<Rightarrow> port | None \<Rightarrow> 123) \<and>
    stash_inv (nts_cookies (ke_nts result)) \<and> length (stash_contents (nts_cookies (ke_nts result))) = 8 \<and>
    cookie_wf \<lparr>dsc_algorithm = AeadAesSivCmac512, dsc_s2c = nts_s2c (ke_nts result), dsc_c2s = nts_c2s (ke_nts result)\<rparr> \<and>
    (\<forall>c \<in> set (stash_contents (nts_cookies (ke_nts result))).
      decode_cookie A ks c =
        Some \<lparr>dsc_algorithm = AeadAesSivCmac512, dsc_s2c = nts_s2c (ke_nts result), dsc_c2s = nts_c2s (ke_nts result)\<rparr> \<and>
      fresh_cookie A ks
        \<lparr>dsc_algorithm = AeadAesSivCmac512, dsc_s2c = nts_s2c (ke_nts result), dsc_c2s = nts_c2s (ke_nts result)\<rparr> c)"
proof -
  let ?q = "KeyExchange (kc_algorithms client) (kc_protocols client) denied"
  let ?request = "fst (request_serialize ?q)"
  have sent: "request_serialize ?q = (?request, Inr ())"
    using request_sent [OF client(3)] by (metis prod.collapse)
  have first: "fst (exchange_keys valid_name (Some tls) client host denied incoming) = ?request" for incoming
    using sent client(2) by (cases "request_serialize ?q") (simp add: exchange_keys_def)
  have a: "find (\<lambda>v. \<not> is_unknown_aead v) (kc_algorithms client) = Some AeadAesSivCmac512"
    by (simp add: client(1) key_exchange_client_new_def)
  have pp: "p = NTPv4 \<or> p = DraftNTPv5"
    using p by (auto simp: client(1) key_exchange_client_new_def split: protocol_version.splits if_splits)
  obtain keys cs r where k: "extract_from_connection tls p AeadAesSivCmac512 = Inr keys"
      and r: "r = \<lparr>kr_protocol = p, kr_algorithm = AeadAesSivCmac512, kr_cookies = cs, kr_server = kx_server server,
        kr_port = kx_port server, kr_keep_alive = False\<rparr>"
      and fits: "response_fits r" and n: "length cs = 8"
      and dec: "\<forall>c \<in> set cs. decode_cookie A ks c =
        Some \<lparr>dsc_algorithm = AeadAesSivCmac512, dsc_s2c = nk_s2c keys, dsc_c2s = nk_c2s keys\<rparr> \<and>
        fresh_cookie A ks \<lparr>dsc_algorithm = AeadAesSivCmac512, dsc_s2c = nk_s2c keys, dsc_c2s = nk_c2s keys\<rparr> c"
      and wf: "cookie_wf \<lparr>dsc_algorithm = AeadAesSivCmac512, dsc_s2c = nk_s2c keys, dsc_c2s = nk_c2s keys\<rparr>"
      and h: "handle_key_exchange A tls nonces server ks (kc_algorithms client) (kc_protocols client) =
        Some \<lparr>sv_sent = fst (response_serialize r), sv_shutdown = True, sv_result = Inr (None :: ('p \<times> bytes) option)\<rparr>"
    using handle_key_exchange_ok [OF assms(1-5) server_new_ok [OF server] p a, where ?'p = "'p \<times> bytes"] .
  have ne: "cs \<noteq> []" using n by auto
  have "request_parse ?request = Inr (?q, [])" using nts_req.dec_enc [OF client(3), of "[]"] by simp
  then have handled: "handle_connection A (Some tls) nonces server ks permit ?request =
      Some \<lparr>sv_sent = fst (response_serialize r), sv_shutdown = True, sv_result = Inr None\<rparr>"
    using h by (simp add: handle_connection_def)
  have config: "kx_server server = name" "kx_port server = port"
    using server(1) by (auto simp: key_exchange_server_new_def)
  let ?result = "\<lparr>ke_remote = (case name of Some name \<Rightarrow> name | None \<Rightarrow> host),
       ke_port = (case port of Some port \<Rightarrow> port | None \<Rightarrow> 123),
       ke_nts = \<lparr>nts_cookies = foldl stash_store cookie_stash_default cs, nts_c2s = nk_c2s keys, nts_s2c = nk_s2c keys\<rparr>,
       ke_version = (if p = NTPv4 then PV4 else PV5)\<rparr>"
  have rsel: "kr_protocol r = p" "kr_algorithm r = AeadAesSivCmac512" "kr_cookies r = cs" "kr_server r = name" "kr_port r = port"
    using r config by simp_all
  have "exchange_keys valid_name (Some tls) client host denied (fst (response_serialize r)) = (?request, Inr ?result)"
    using exchange_keys_ok [where valid_name = valid_name and host = host and tls = tls and keys = keys, OF client(2,3) fits]
    unfolding rsel NTP_DEFAULT_PORT_def using k ne pp by blast
  with first handled stash_of_cookies(1,2) [of cs] n dec wf show ?thesis
    apply -
    apply (rule exI [of _ ?request], rule exI [of _ "fst (response_serialize r)"], rule exI [of _ ?result])
    apply (simp del: length_stash_contents cookie_wf.simps)
    done
qed

text \<open>
  C4: a key exchange makes client and server agree. When the first protocol of the client's list that
  the server speaks is \<open>p\<close>, the server answers the client's request with a response that the client
  accepts, and shuts the connection down; the client then holds eight cookies, each of which the key
  set opens to exactly the pair of keys that the client took from the connection, for the algorithm with the
  longer keys, and a source of the negotiated version, at the name and port of the server's
  configuration or else at the name it asked and port 123. The hypotheses on code outside the
  repository are that decryption inverts encryption and adds 16 bytes, that nonces have 16 bytes, and
  that the exporters of the two ends of the connection are one function that gives the bytes asked for.
\<close>
theorem key_exchange_agrees:
  fixes permit :: "'p option"
  assumes "aead_correct A" "aead_overhead A" "\<forall>i. length (nonces i) = 16" "exports tls" "keyset_ok ks"
    and server: "key_exchange_server_new versions name port tokens = Some server"
      "pred_option (\<lambda>name. utf8_valid name \<and> length name \<le> 2000) name"
    and client: "client = key_exchange_client_new version" "valid_name host"
      "request_fits (KeyExchange (kc_algorithms client) (kc_protocols client) denied)"
    and p: "find (\<lambda>v. v \<in> set (kx_protocols server)) (kc_protocols client) = Some p"
  shows "\<exists>request response result.
    (\<forall>incoming. fst (exchange_keys valid_name (Some tls) client host denied incoming) = request) \<and>
    handle_connection A (Some tls) nonces server ks permit request =
      Some \<lparr>sv_sent = response, sv_shutdown = True, sv_result = Inr None\<rparr> \<and>
    exchange_keys valid_name (Some tls) client host denied response = (request, Inr result) \<and>
    ke_version result = (if p = NTPv4 then PV4 else PV5) \<and>
    ke_remote result = (case name of Some name \<Rightarrow> name | None \<Rightarrow> host) \<and>
    ke_port result = (case port of Some port \<Rightarrow> port | None \<Rightarrow> 123) \<and>
    stash_inv (nts_cookies (ke_nts result)) \<and> length (stash_contents (nts_cookies (ke_nts result))) = 8 \<and>
    (\<forall>c \<in> set (stash_contents (nts_cookies (ke_nts result))). decode_cookie A ks c =
      Some \<lparr>dsc_algorithm = AeadAesSivCmac512, dsc_s2c = nts_s2c (ke_nts result), dsc_c2s = nts_c2s (ke_nts result)\<rparr>)"
  using key_exchange_run [where valid_name = valid_name and host = host and nonces = nonces and permit = permit, OF assms]
  by fast

definition example_exporter :: exporter where
  "example_exporter ctx n = Some (replicate n (last ctx + 1))"

definition example_keyset :: key_set where
  "example_keyset = \<lparr>ks_keys = [AesSivCmac512 (replicate 64 3)], ks_id_offset = 1, ks_primary = 0\<rparr>"

definition example_ke_server :: key_exchange_server where
  "example_ke_server = \<lparr>kx_protocols = [NTPv4],
     kx_algorithms = [\<lparr>ad_id = AeadAesSivCmac256, ad_keysize = 32\<rparr>, \<lparr>ad_id = AeadAesSivCmac512, ad_keysize = 64\<rparr>],
     kx_pool_authentication_tokens = [], kx_server = None, kx_port = Some 4460\<rparr>"

lemma example_exporter_exports: "exports example_exporter"
  by (simp add: exports_def example_exporter_def)

lemma example_ke_server_new: "key_exchange_server_new [NtpV3, NtpV4] None (Some 4460) [] = Some example_ke_server"
  by code_simp

theorem key_exchange_agrees_witness:
  "\<exists>response result.
    handle_connection example_aead (Some example_exporter) (\<lambda>_. replicate 16 0) example_ke_server example_keyset (None :: unit option)
      (fst (request_serialize example_ke_request)) = Some \<lparr>sv_sent = response, sv_shutdown = True, sv_result = Inr None\<rparr> \<and>
    exchange_keys (\<lambda>_. True) (Some example_exporter) (key_exchange_client_new (PV4UpgradingToV5 8)) [0x61] [] response =
      (fst (request_serialize example_ke_request), Inr result) \<and>
    ke_version result = PV4 \<and> ke_port result = 4460 \<and> length (stash_contents (nts_cookies (ke_nts result))) = 8"
proof -
  let ?client = "key_exchange_client_new (PV4UpgradingToV5 8)"
  have q: "KeyExchange (kc_algorithms ?client) (kc_protocols ?client) [] = example_ke_request"
    by (simp add: key_exchange_client_new_def example_ke_request_def)
  have fits: "request_fits example_ke_request" using request_parse_fits [OF example_ke_request_bytes] by blast
  have find: "find (\<lambda>v. v \<in> set (kx_protocols example_ke_server)) (kc_protocols ?client) = Some NTPv4"
    by (simp add: key_exchange_client_new_def example_ke_server_def)
  have "keyset_ok example_keyset" by (simp add: keyset_ok_def example_keyset_def)
  note agree = key_exchange_agrees [OF example_aead_ok _ example_exporter_exports this example_ke_server_new _ refl _ _ find,
      where valid_name = "\<lambda>_. True" and host = "[0x61]" and denied = "[]" and nonces = "\<lambda>_. replicate 16 0"
        and permit = "None :: unit option", unfolded q]
  have "fst (exchange_keys (\<lambda>_. True) (Some example_exporter) ?client [0x61] [] incoming) = fst (request_serialize example_ke_request)"
    for incoming
    using request_sent [OF fits] q
    by (cases "request_serialize example_ke_request") (simp add: exchange_keys_def)
  with agree fits show ?thesis by fastforce
qed

definition example_v5_response :: key_exchange_response where
  "example_v5_response = \<lparr>kr_protocol = DraftNTPv5, kr_algorithm = AeadAesSivCmac256, kr_cookies = [[1, 2, 3]],
     kr_server = None, kr_port = None, kr_keep_alive = False\<rparr>"

text \<open>
  C36: the client does not compare the server's choice with what it offered. A client for NTPv4, which
  offers only NTPv4, takes a response that chooses NTPv5, and the result is for a source that speaks
  NTPv5.
\<close>
theorem client_takes_unoffered_protocol:
  "kc_protocols (key_exchange_client_new PV4) = [NTPv4] \<and>
   (\<exists>request result. exchange_keys (\<lambda>_. True) (Some example_exporter) (key_exchange_client_new PV4) [0x61] []
      (fst (response_serialize example_v5_response)) = (request, Inr result) \<and> ke_version result = PV5)"
proof -
  let ?client = "key_exchange_client_new PV4"
  have fits: "request_fits (KeyExchange (kc_algorithms ?client) (kc_protocols ?client) [])"
    by (simp add: key_exchange_client_new_def request_fits_def records_size_def MAX_MESSAGE_SIZE_def
        canonical_aead_def aead_from_u16_def)
  have "response_fits example_v5_response"
    by (simp add: response_fits_def response_wf_def example_v5_response_def records_size_def response_records_def
        MAX_MESSAGE_SIZE_def DEFAULT_NUMBER_OF_COOKIES_def canonical_aead_def aead_from_u16_def)
  from exchange_keys_ok [where valid_name = "\<lambda>_. True" and host = "[0x61]" and tls = example_exporter
      and keys = "\<lparr>nk_c2s = AesSivCmac256 (replicate 32 1), nk_s2c = AesSivCmac256 (replicate 32 2)\<rparr>", OF _ fits this]
  show ?thesis
    by (simp add: example_v5_response_def extract_key_bytes_def example_exporter_def export_context_def Let_def
        key_exchange_client_new_def)
qed

section \<open>Who gets cookies\<close>

text \<open>
  The message is one that carries no cookie, or a response whose eight cookies open to a pair of keys.
\<close>

definition cookieless :: "bytes \<Rightarrow> bool" where
  "cookieless d \<longleftrightarrow> d = [] \<or> (\<exists>rs. d = fst (send_records rs) \<and> (\<forall>c. RecNewCookie c \<notin> set rs))"

definition carries_keys :: "aead \<Rightarrow> key_set \<Rightarrow> bytes \<Rightarrow> key_exchange_response \<Rightarrow> cipher \<Rightarrow> cipher \<Rightarrow> bool" where
  "carries_keys A ks d r c2s s2c \<longleftrightarrow>
     (\<forall>s. response_parse (d @ s) = Inr (r, s)) \<and> length (kr_cookies r) = 8 \<and>
     (\<forall>c \<in> set (kr_cookies r). decode_cookie A ks c =
        Some \<lparr>dsc_algorithm = kr_algorithm r, dsc_s2c = s2c, dsc_c2s = c2s\<rparr>)"

lemma cookieless_records: "\<forall>c. RecNewCookie c \<notin> set rs \<Longrightarrow> cookieless (fst (send_records rs))"
  by (auto simp: cookieless_def)

lemma sv_sent_respond [simp]: "sv_sent (respond m b res) = fst m"
  by (simp add: respond_def split: prod.split sum.split)

lemma cookieless_Nil [simp]: "cookieless []"
  by (simp add: cookieless_def)

lemma cookieless_error [simp]: "cookieless (fst (error_response_serialize e))"
  unfolding error_response_serialize_def by (rule cookieless_records) simp

lemma cookieless_no_overlap: "cookieless (fst (no_overlap_serialize response))"
  by (cases response) (simp_all only: no_overlap_serialize.simps, simp_all add: cookieless_records del: send_records.simps)

lemma cookieless_supports [simp]: "cookieless (fst (supports_serialize sr))"
  unfolding supports_serialize_def by (rule cookieless_records) (simp split: option.split)

lemma cookieless_refuse [simp]: "cookieless (sv_sent (refuse_request e))"
  by (cases e rule: refuse_request.cases) simp_all

lemma fixed_key_cookie_wf:
  assumes "request_wf (FixedKey t c2s s2c a p k)"
  shows "cookie_wf \<lparr>dsc_algorithm = a, dsc_s2c = s2c, dsc_c2s = c2s\<rparr>" "\<not> is_unknown_aead a" "canonical_protocol p"
  using assms by (cases a; cases c2s; cases s2c; simp)+

text \<open>The response to a fixed key request is read back with cookies for the keys of the request.\<close>

lemma fixed_key_response:
  assumes "aead_correct A" "aead_overhead A" "\<forall>i. length (nonces i) = 16" "keyset_ok ks" "server_ok server"
    and "request_wf (FixedKey t c2s s2c a p k)"
  obtains cs where "make_cookies A nonces ks \<lparr>dsc_algorithm = a, dsc_s2c = s2c, dsc_c2s = c2s\<rparr> = Some cs"
    "\<And>alive. let r = \<lparr>kr_protocol = p, kr_algorithm = a, kr_cookies = cs, kr_server = kx_server server,
        kr_port = kx_port server, kr_keep_alive = alive\<rparr> in
      snd (response_serialize r) = Inr () \<and> carries_keys A ks (fst (response_serialize r)) r c2s s2c"
proof -
  note wf = fixed_key_cookie_wf [OF assms(6)]
  obtain cs where cs: "make_cookies A nonces ks \<lparr>dsc_algorithm = a, dsc_s2c = s2c, dsc_c2s = c2s\<rparr> = Some cs"
    using make_cookies_sealed [OF assms(4,3,2)] by blast
  from make_cookies_decode [OF cs assms(4,3,2,1) wf(1)] have n: "length cs = DEFAULT_NUMBER_OF_COOKIES"
    and dec: "\<forall>c \<in> set cs. decode_cookie A ks c = Some \<lparr>dsc_algorithm = a, dsc_s2c = s2c, dsc_c2s = c2s\<rparr>"
    and small: "\<forall>c \<in> set cs. length c \<le> 168" by auto
  show thesis
  proof (rule that [OF cs])
    fix alive
    let ?r = "\<lparr>kr_protocol = p, kr_algorithm = a, kr_cookies = cs, kr_server = kx_server server,
        kr_port = kx_port server, kr_keep_alive = alive\<rparr>"
    have fits: "response_fits ?r" by (rule server_response_fits [OF assms(5) wf(3,2) n small])
    then show "let r = ?r in snd (response_serialize r) = Inr () \<and> carries_keys A ks (fst (response_serialize r)) r c2s s2c"
      using response_sent [OF fits] nts_resp.dec_enc [OF fits] n dec
      by (simp add: carries_keys_def DEFAULT_NUMBER_OF_COOKIES_def)
  qed
qed

definition entitled :: "exporter \<Rightarrow> key_exchange_server \<Rightarrow> request \<Rightarrow> key_exchange_response \<Rightarrow> cipher \<Rightarrow> cipher \<Rightarrow> bool" where
  "entitled tls server q r c2s s2c \<longleftrightarrow>
     (case q of
        KeyExchange algorithms protocols _ \<Rightarrow>
          kr_protocol r \<in> set protocols \<and> kr_protocol r \<in> set (kx_protocols server) \<and> kr_algorithm r \<in> set algorithms \<and>
          extract_from_connection tls (kr_protocol r) (kr_algorithm r) = Inr \<lparr>nk_c2s = c2s, nk_s2c = s2c\<rparr>
      | FixedKey authentication c2s_key s2c_key algorithm protocol _ \<Rightarrow>
          authentication \<in> set (kx_pool_authentication_tokens server) \<and> c2s = c2s_key \<and> s2c = s2c_key \<and>
          kr_algorithm r = algorithm \<and> kr_protocol r = protocol
      | Support _ _ _ _ \<Rightarrow> False)"

lemma key_exchange_served:
  assumes "aead_correct A" "aead_overhead A" "\<forall>i. length (nonces i) = 16" "exports tls" "keyset_ok ks" "server_ok server"
  shows "\<exists>s :: 'a option served. handle_key_exchange A tls nonces server ks algorithms protocols = Some s \<and>
    (cookieless (sv_sent s) \<or> (\<exists>r c2s s2c. carries_keys A ks (sv_sent s) r c2s s2c \<and>
      entitled tls server (KeyExchange algorithms protocols denied) r c2s s2c))"
proof (cases "find (\<lambda>v. v \<in> set (kx_protocols server)) protocols")
  case None
  then show ?thesis by (simp add: handle_key_exchange_def cookieless_no_overlap del: no_overlap_serialize.simps)
next
  case p: (Some p)
  show ?thesis
  proof (cases "find (\<lambda>v. \<not> is_unknown_aead v) algorithms")
    case None
    with p show ?thesis by (simp add: handle_key_exchange_def cookieless_no_overlap del: no_overlap_serialize.simps)
  next
    case a: (Some a)
    obtain keys cs r where h: "extract_from_connection tls p a = Inr keys"
      "r = \<lparr>kr_protocol = p, kr_algorithm = a, kr_cookies = cs, kr_server = kx_server server,
         kr_port = kx_port server, kr_keep_alive = False\<rparr>"
      "response_fits r" "length cs = 8"
      "\<forall>c \<in> set cs. decode_cookie A ks c = Some \<lparr>dsc_algorithm = a, dsc_s2c = nk_s2c keys, dsc_c2s = nk_c2s keys\<rparr> \<and>
         fresh_cookie A ks \<lparr>dsc_algorithm = a, dsc_s2c = nk_s2c keys, dsc_c2s = nk_c2s keys\<rparr> c"
      "cookie_wf \<lparr>dsc_algorithm = a, dsc_s2c = nk_s2c keys, dsc_c2s = nk_c2s keys\<rparr>"
      "handle_key_exchange A tls nonces server ks algorithms protocols =
         Some \<lparr>sv_sent = fst (response_serialize r), sv_shutdown = True, sv_result = Inr (None :: 'a option)\<rparr>"
      using handle_key_exchange_ok [OF assms p a, where ?'p = 'a] .
    have "carries_keys A ks (fst (response_serialize r)) r (nk_c2s keys) (nk_s2c keys)"
      using nts_resp.dec_enc [OF h(3)] h(2,4,5) by (simp add: carries_keys_def)
    moreover have "p \<in> set protocols \<and> p \<in> set (kx_protocols server)" "a \<in> set algorithms"
      using p a by (auto simp: find_Some_iff)
    then have "entitled tls server (KeyExchange algorithms protocols denied) r (nk_c2s keys) (nk_s2c keys)"
      using h(1,2) by (simp add: entitled_def)
    ultimately show ?thesis using h(7) by auto
  qed
qed



section \<open>Connections that are kept\<close>

fun kept_fixed_key :: "request \<Rightarrow> bool" where
  "kept_fixed_key (FixedKey _ _ _ _ _ keep_alive) \<longleftrightarrow> keep_alive"
| "kept_fixed_key _ \<longleftrightarrow> False"

fun answers_fixed_key :: "aead \<Rightarrow> key_set \<Rightarrow> request \<Rightarrow> key_exchange_response \<Rightarrow> bool" where
  "answers_fixed_key A ks (FixedKey _ c2s s2c algorithm protocol keep_alive) r \<longleftrightarrow>
     carries_keys A ks (fst (response_serialize r)) r c2s s2c \<and> kr_algorithm r = algorithm \<and>
     kr_protocol r = protocol \<and> kr_keep_alive r = keep_alive"
| "answers_fixed_key A ks _ r \<longleftrightarrow> False"

lemma request_parse_Nil: "request_parse [] = Inl (IOError UnexpectedEof)"
  by (simp add: request_parse_def read_message_def message_loop.simps nts_record_parse_def next_u16_def)

lemma longterm_step:
  assumes "aead_correct A" "aead_overhead A" "\<forall>i. length (nonces k i) = 16" "keyset_ok (get_keyset k)" "server_ok server"
    and "request_fits q" "kept_fixed_key q"
  obtains r where "answers_fixed_key A (get_keyset k) q r"
    "handle_longterm A nonces server get_keyset k (fst (request_serialize q) @ rest) =
       map_option (then_served (fst (response_serialize r))) (handle_longterm A nonces server get_keyset (Suc k) rest)"
proof -
  obtain t c2s s2c a p where q: "q = FixedKey t c2s s2c a p True" using assms(7) by (cases q rule: kept_fixed_key.cases) simp_all
  have wf: "request_wf (FixedKey t c2s s2c a p True)" using assms(6) q by (simp add: request_fits_def)
  obtain cs where cs: "make_cookies A (nonces k) (get_keyset k) \<lparr>dsc_algorithm = a, dsc_s2c = s2c, dsc_c2s = c2s\<rparr> = Some cs"
      "\<And>alive. let r = \<lparr>kr_protocol = p, kr_algorithm = a, kr_cookies = cs, kr_server = kx_server server,
         kr_port = kx_port server, kr_keep_alive = alive\<rparr> in
       snd (response_serialize r) = Inr () \<and> carries_keys A (get_keyset k) (fst (response_serialize r)) r c2s s2c"
    using fixed_key_response [OF assms(1-5) wf] by blast
  let ?r = "\<lparr>kr_protocol = p, kr_algorithm = a, kr_cookies = cs, kr_server = kx_server server,
      kr_port = kx_port server, kr_keep_alive = True\<rparr>"
  have r: "snd (response_serialize ?r) = Inr ()" "carries_keys A (get_keyset k) (fst (response_serialize ?r)) ?r c2s s2c"
    using cs(2) [of True] unfolding Let_def by blast+
  have parse: "request_parse (fst (request_serialize q) @ rest) = Inr (q, rest)" by (rule nts_req.dec_enc [OF assms(6)])
  have "handle_longterm A nonces server get_keyset k (fst (request_serialize q) @ rest) =
      map_option (then_served (fst (response_serialize ?r))) (handle_longterm A nonces server get_keyset (Suc k) rest)"
    using r(1) cs(1)
    by (subst handle_longterm.simps, simp only: parse, cases "response_serialize ?r") (simp add: q)
  then show thesis using that [of ?r] r(2) q by simp
qed

text \<open>
  C33: a kept connection serves a pool. On a connection over which a pool server sends any number of
  fixed key requests and then closes its side, the server answers every request, in order, with eight
  cookies that open to the keys of that request under the key set that is current when the
  request is served, keeps the connection between the requests, and ends without an error.
\<close>
theorem longterm_serves_every_request:
  assumes "aead_correct A" "aead_overhead A" "\<forall>k i. length (nonces k i) = 16" "\<forall>k. keyset_ok (get_keyset k)"
    and "server_ok server" "list_all (\<lambda>q. request_fits q \<and> kept_fixed_key q) qs"
  shows "\<exists>rs. length rs = length qs \<and>
    handle_longterm A nonces server get_keyset k (concat (map (\<lambda>q. fst (request_serialize q)) qs)) =
      Some \<lparr>sv_sent = concat (map (\<lambda>r. fst (response_serialize r)) rs), sv_shutdown = True, sv_result = Inr ()\<rparr> \<and>
    (\<forall>i < length qs. answers_fixed_key A (get_keyset (k + i)) (qs ! i) (rs ! i))"
  using assms(6)
proof (induction qs arbitrary: k)
  case Nil
  then show ?case by (simp add: handle_longterm.simps request_parse_Nil)
next
  case (Cons q qs)
  obtain rs where rs: "length rs = length qs"
    "handle_longterm A nonces server get_keyset (Suc k) (concat (map (\<lambda>q. fst (request_serialize q)) qs)) =
      Some \<lparr>sv_sent = concat (map (\<lambda>r. fst (response_serialize r)) rs), sv_shutdown = True, sv_result = Inr ()\<rparr>"
    "\<forall>i < length qs. answers_fixed_key A (get_keyset (Suc k + i)) (qs ! i) (rs ! i)"
    using Cons.IH [of "Suc k"] Cons.prems by auto
  obtain r where r: "answers_fixed_key A (get_keyset k) q r"
    "handle_longterm A nonces server get_keyset k
       (fst (request_serialize q) @ concat (map (\<lambda>q. fst (request_serialize q)) qs)) =
       map_option (then_served (fst (response_serialize r)))
         (handle_longterm A nonces server get_keyset (Suc k) (concat (map (\<lambda>q. fst (request_serialize q)) qs)))"
    using longterm_step [of A nonces k get_keyset server q] assms(1-5) Cons.prems by auto
  have "answers_fixed_key A (get_keyset (k + i)) ((q # qs) ! i) ((r # rs) ! i)" if "i < length (q # qs)" for i
    using that r(1) rs(3) by (cases i) auto
  with rs r(2) show ?case by (intro exI [of _ "r # rs"]) (simp add: then_served_def)
qed

definition example_fixed_key :: request where
  "example_fixed_key = FixedKey [0x70] (AesSivCmac256 (replicate 32 1)) (AesSivCmac256 (replicate 32 2)) AeadAesSivCmac256 NTPv4 True"

theorem longterm_serves_every_request_witness:
  "\<exists>rs. length rs = length [example_fixed_key, example_fixed_key] \<and>
    handle_longterm example_aead (\<lambda>_ _. replicate 16 0) example_ke_server (\<lambda>_. example_keyset) 0
      (fst (request_serialize example_fixed_key) @ fst (request_serialize example_fixed_key)) =
      Some \<lparr>sv_sent = concat (map (\<lambda>r. fst (response_serialize r)) rs), sv_shutdown = True, sv_result = Inr ()\<rparr>"
proof -
  have "list_all (\<lambda>q. request_fits q \<and> kept_fixed_key q) [example_fixed_key, example_fixed_key]"
    by (simp add: example_fixed_key_def request_fits_def records_size_def MAX_MESSAGE_SIZE_def)
  moreover have "keyset_ok example_keyset" by (simp add: keyset_ok_def example_keyset_def)
  moreover have "server_ok example_ke_server" by (rule server_new_ok [OF example_ke_server_new]) simp
  ultimately show ?thesis
    using longterm_serves_every_request [of example_aead "\<lambda>_ _. replicate 16 0" "\<lambda>_. example_keyset" example_ke_server
        "[example_fixed_key, example_fixed_key]" 0] example_aead_ok
    by fastforce
qed

end
