(* ===== verification/Ntp_Session.thy ===== *)
theory Ntp_Session
  imports Ntp_System Nts_Ke
begin

text \<open>
  A client and a server together: the key exchange of \<^verbatim>\<open>ntp-proto/src/nts/mod.rs\<close>, then polls, in each of which the
  timer of the source (\<^verbatim>\<open>ntp-proto/src/source.rs\<close>) sends a request, the server
  (\<^verbatim>\<open>ntp-proto/src/server.rs\<close>) answers it, and the source takes the answer. The network delivers each
  datagram as it was sent. The results are about NTPv4 with NTS, for any number of polls.
\<close>

section \<open>Polls\<close>

text \<open>What a poll takes from outside on the two sides.\<close>

record poll_inputs =
  pi_send :: source_env
  pi_receive :: source_env
  pi_info :: ntp_source_info
  pi_server :: environment
  pi_client_ip :: ip_addr
  pi_sent_at :: ntp_timestamp
  pi_server_received_at :: ntp_timestamp
  pi_received_at :: ntp_timestamp

text \<open>
  One poll: \<open>None\<close> if a side panics, the source sends nothing, the server does not respond, or the source
  takes an action other than keeping the answer.
\<close>

definition poll_exchange ::
  "'c source_controller \<Rightarrow> poll_inputs \<Rightarrow> source_snapshots \<times> 'c ntp_source \<times> server \<Rightarrow>
   (source_snapshots \<times> 'c ntp_source \<times> server) option" where
  "poll_exchange C i = (\<lambda>(snaps, s, srv).
     case handle_timer (pi_send i) C (pi_info i) snaps s of
       Some (snaps, s, [Send message, SetTimer _]) \<Rightarrow>
         (case handle (pi_server i) srv (pi_client_ip i) (pi_server_received_at i) message (replicate (length message) 0) of
            Some (srv, _, ActRespond resp) \<Rightarrow>
              (case handle_incoming (pi_receive i) C (pi_info i) snaps s resp (pi_sent_at i) (pi_received_at i) of
                 Some (snaps, s, []) \<Rightarrow> Some (snaps, s, srv)
               | _ \<Rightarrow> None)
          | _ \<Rightarrow> None)
     | _ \<Rightarrow> None)"

primrec poll_exchanges ::
  "'c source_controller \<Rightarrow> poll_inputs list \<Rightarrow> source_snapshots \<times> 'c ntp_source \<times> server \<Rightarrow>
   (source_snapshots \<times> 'c ntp_source \<times> server) option" where
  "poll_exchanges C [] st = Some st"
| "poll_exchanges C (i # is) st = Option.bind (poll_exchange C i st) (poll_exchanges C is)"

section \<open>The state between polls\<close>

text \<open>
  The source holds the keys of the session and cookies that the key set of the server made for them,
  and is not given up.
\<close>

definition in_session :: "aead \<Rightarrow> key_set \<Rightarrow> decoded_server_cookie \<Rightarrow> 'c ntp_source \<Rightarrow> bool" where
  "in_session A ks keys s \<longleftrightarrow>
     source_inv s \<and> src_protocol_version s = PV4 \<and> cookie_wf keys \<and>
     (is_reachable (src_reach s) \<or> src_tries s < STARTUP_TRIES_THRESHOLD) \<and>
     (\<exists>nts. src_nts s = Some nts \<and> nts_c2s nts = dsc_c2s keys \<and> nts_s2c nts = dsc_s2c keys \<and>
        stash_contents (nts_cookies nts) \<noteq> [] \<and> (\<forall>c \<in> set (stash_contents (nts_cookies nts)). fresh_cookie A ks keys c))"

definition cookie_count :: "'c ntp_source \<Rightarrow> nat" where
  "cookie_count s = (case src_nts s of None \<Rightarrow> 0 | Some nts \<Rightarrow> length (stash_contents (nts_cookies nts)))"

text \<open>
  What a poll needs: on both sides the same ciphers and random values of the right sizes, an answer within the poll
  window, and a server that is synchronised, accepts NTPv4, lets the client's address through and does not limit
  its rate.
\<close>

definition poll_ok :: "aead \<Rightarrow> server_config \<Rightarrow> ntp_server_info \<Rightarrow> poll_inputs \<Rightarrow> bool" where
  "poll_ok A config info i \<longleftrightarrow>
     env_wf (pi_send i) \<and> se_aead (pi_send i) = A \<and> se_aead (pi_receive i) = A \<and> env_aead (pi_server i) = A \<and>
     (\<forall>j. length (env_cookie_nonces (pi_server i) j) = 16) \<and> length (env_server_cookie (pi_server i)) = 8 \<and>
     length (env_seal_nonce (pi_server i)) = 16 \<and>
     se_now (pi_receive i) \<le> se_now (pi_send i) + POLL_WINDOW \<and>
     \<not> filtered config (pi_client_ip i) \<and> rate_limiting_cache_size config = 0 \<and> NtpV4 \<in> set (accepted_versions config) \<and>
     info_in_range info (pi_server_received_at i) \<and>
     snap_stratum (ntp_snapshot_of info) \<noteq> 0 \<and> snap_stratum (ntp_snapshot_of info) \<le> MAX_STRATUM"

section \<open>The timer of a source in session\<close>

lemma stash_get_in_session:
  assumes "stash_inv st" "stash_contents st \<noteq> []"
  obtains c st' where "stash_get st = (Some c, st')" "stash_inv st'" "stash_contents st = c # stash_contents st'"
proof -
  obtain c st' where g: "stash_get st = (c, st')" by fastforce
  have "stash_contents st' = tl (stash_contents st)" "c = (case stash_contents st of [] \<Rightarrow> None | c # _ \<Rightarrow> Some c)"
    using stash.pop_contents [OF assms(1)] stash.pop_result [OF assms(1)] g by simp_all
  with assms(2) obtain c' where "c = Some c'" "stash_contents st = c' # stash_contents st'"
    by (cases "stash_contents st") auto
  with that [of c' st'] g stash_get_inv [OF assms(1)] show thesis by auto
qed

lemma stash_gap_contents:
  assumes "stash_inv st"
  shows "unat (stash_gap st) = 8 - length (stash_contents st)"
proof -
  have "length (cookies st) - valid_count st \<le> 8" using assms by (simp add: stash_inv_def MAX_COOKIES_def)
  then have "unat (of_nat (length (cookies st) - valid_count st) :: byte) = length (cookies st) - valid_count st"
    by (simp add: unsigned_of_nat take_bit_nat_eq_self del: of_nat_diff)
  then show ?thesis using assms by (simp add: stash_gap_def stash_inv_def MAX_COOKIES_def)
qed

lemma fresh_cookie_length:
  assumes "fresh_cookie A ks keys c" "cookie_wf keys" "aead_overhead A"
  shows "length c = 104 \<or> length c = 168"
  using assms length_encoded_cookie [of A _ ks keys c] by (auto simp: fresh_cookie_def)

text \<open>With a cookie taken from a stash, the client asks for at least one and at most six.\<close>

lemma cookies_asked:
  assumes "stash_inv st" "length (stash_contents st) < 8" "length c = 104 \<or> length c = 168"
  shows "unat (cookies_to_request 1024 st c) = min (8 - length (stash_contents st)) (724 div length c)"
    and "1 \<le> unat (cookies_to_request 1024 st c)" "unat (cookies_to_request 1024 st c) \<le> 7"
proof -
  have "unat (of_nat (min (724 div length c) 255) :: byte) = 724 div length c"
    using assms(3) by (auto simp: unsigned_of_nat take_bit_nat_eq_self)
  then show n: "unat (cookies_to_request 1024 st c) = min (8 - length (stash_contents st)) (724 div length c)"
    using assms(3) stash_gap_contents [OF assms(1)] by (auto simp: cookies_to_request_def unat_min)
  show "1 \<le> unat (cookies_to_request 1024 st c)" "unat (cookies_to_request 1024 st c) \<le> 7"
    unfolding n using assms(2,3) by auto
qed

lemma start_poll_v4:
  "src_protocol_version s = PV4 \<Longrightarrow>
    start_poll s = s\<lparr>src_reach := reach_poll (src_reach s), src_tries := min (src_tries s + 1) (2 ^ 64 - 1)\<rparr>"
  by (simp add: start_poll_def)

lemma session_timer:
  assumes "in_session A ks keys s" "env_wf env" "se_aead env = A" "src_nts s = Some nts"
    and get: "stash_get (nts_cookies nts) = (Some c, st)" "stash_inv st" "1 \<le> unat n" "n = cookies_to_request 1024 st c"
    and req: "nts_poll_message (se_transmit env) (se_uid env) c n (current_poll_interval C (start_poll s)) = (req, rid)"
  obtains w snaps' u t where
    "packet_serialize A (se_nonce env) req (the_cipher (nts_c2s nts)) None (new_cursor (src_buffer s)) = Inr w"
    "length (cur_buf w) = 1024"
    "handle_timer env C info snaps s = Some (snaps',
       (start_poll s)\<lparr>src_nts := Some (nts\<lparr>nts_cookies := st\<rparr>),
         src_current_request_identifier := Some (rid, se_now env + POLL_WINDOW),
         src_last_poll_interval := current_poll_interval C (start_poll s),
         src_buffer := cur_buf w, src_controller := sc_set_usable C u (src_controller s)\<rparr>,
       [Send (take (cur_pos w) (cur_buf w)), SetTimer t])"
proof -
  let ?poll = "current_poll_interval C (start_poll s)"
  have inv: "source_inv s" "src_protocol_version s = PV4" "length (src_buffer s) = 1024"
      "rbf_inv (src_bloom_filter s)" "chunk_size (src_bloom_filter s) = 16"
      and go: "\<not> (\<not> is_reachable (src_reach s) \<and> STARTUP_TRIES_THRESHOLD \<le> src_tries s)"
    using assms(1) by (auto simp: in_session_def source_inv_def)
  have n: "unat n \<noteq> 0" "unat n \<le> 8" "unat n * max (length c) 1 \<le> 724"
    using cookies_to_request_bounds [OF get(2,4)] get(3) by auto
  let ?s2 = "(start_poll s)\<lparr>src_nts := Some (nts\<lparr>nts_cookies := st\<rparr>),
      src_current_request_identifier := Some (rid, se_now env + POLL_WINDOW)\<rparr>"
  have v4: "add_bloom_request req ?s2 = Some (?s2, req)"
    using req by (auto simp: nts_poll_message_def add_bloom_request_def Let_def split: prod.splits)
  have sp: "src_bloom_filter ?s2 = src_bloom_filter s" "src_buffer (start_poll s) = src_buffer s" "src_nts (start_poll s) = Some nts"
      "src_protocol_version (start_poll s) = PV4" "src_controller (start_poll s) = src_controller s"
    using inv(2) assms(4) by (simp_all add: start_poll_v4)
  have "rbf_inv (src_bloom_filter ?s2)" "chunk_size (src_bloom_filter ?s2) = 16" using inv(4,5) sp(1) by simp_all
  note fits = nts_request_fits [OF assms(2) this inv(3) n, of req rid ?poll "nts_c2s nts"]
  have "(req, rid) \<in> {nts_poll_message (se_transmit env) (se_uid env) c n ?poll,
      nts_poll_message_v5 (se_client_cookie env) (se_uid env) c n ?poll}"
    unfolding req by (rule insertI1)
  from fits [OF this] obtain bloom p' w d where f: "add_bloom_request req ?s2 = Some (?s2\<lparr>src_bloom_filter := bloom\<rparr>, p')"
      "packet_serialize (se_aead env) (se_nonce env) p' (opt_cipher (Some (nts_c2s nts))) None (new_cursor (src_buffer s)) = Inr w"
      "appends (new_cursor (src_buffer s)) w d" by (elim exE conjE)
  have "p' = req" using f(1) unfolding v4 by simp
  then have w: "packet_serialize A (se_nonce env) req (opt_cipher (Some (nts_c2s nts))) None (new_cursor (src_buffer s)) = Inr w"
      "appends (new_cursor (src_buffer s)) w d"
    using f(2,3) assms(3) by simp_all
  have buf: "length (cur_buf w) = 1024" using w(2) inv(3) by (simp add: appends_def new_cursor_def)
  have "n \<noteq> 0" using n(1) by auto
  then have br: "build_request env ?poll (start_poll s) =
      ((start_poll s)\<lparr>src_nts := Some (nts\<lparr>nts_cookies := st\<rparr>)\<rparr>, Some (req, rid))"
    using get(1,4) req sp inv(3) by (simp add: build_request_def Let_def)
  let ?s3 = "?s2\<lparr>src_last_poll_interval := ?poll\<rparr>"
  let ?s4 = "?s3\<lparr>src_buffer := cur_buf w\<rparr>"
  obtain u snaps' where pub: "publish env C info (snapshot_from_source ?s3) snaps ?s4 =
      (snaps', ?s4\<lparr>src_controller := sc_set_usable C u (src_controller ?s4)\<rparr>)"
    by (simp add: publish_def Let_def)
  have "handle_timer env C info snaps s = Some (snaps', ?s4\<lparr>src_controller := sc_set_usable C u (src_controller ?s4)\<rparr>,
      [Send (take (cur_pos w) (cur_buf w)), SetTimer (se_jitter env (poll_as_system_duration ?poll))])"
    using v4 w(1) pub go by (simp add: handle_timer_def br Let_def sp assms(3))
  with w(1) buf that [of w snaps' u] show thesis by (simp add: opt_cipher_the sp(5))
qed

section \<open>The answer\<close>

lemma v4_answer_header:
  assumes "nts_poll_message t uid c n i = (req, rid)"
    and "nts_timestamp_response A nonces rnd info req recv now keys ks = Some resp0" "header_close (header resp0) (header resp)"
  shows "packet_version resp = NtpV4" "packet_mode resp = Server" "packet_stratum resp = snap_stratum (ntp_snapshot_of info)"
    "packet_receive_timestamp resp = recv" "packet_transmit_timestamp resp = now"
proof -
  obtain g where "header resp0 = HV4 (h4_timestamp_response info g recv now)"
    using assms(1,2) by (auto simp: nts_poll_message_def nts_timestamp_response_def Let_def split: prod.splits)
  with assms(3) obtain d e where
    "header resp = HV4 ((h4_timestamp_response info g recv now)\<lparr>h4_root_delay := d, h4_root_dispersion := e\<rparr>)"
    by (cases rule: header_close_cases) auto
  then show "packet_version resp = NtpV4" "packet_mode resp = Server" "packet_stratum resp = snap_stratum (ntp_snapshot_of info)"
    "packet_receive_timestamp resp = recv" "packet_transmit_timestamp resp = now"
    by (simp_all add: packet_version_def packet_mode_def packet_stratum_def packet_receive_timestamp_def
        packet_transmit_timestamp_def h4_timestamp_response_def)
qed

lemma handle_answer_measures:
  assumes "packet_stratum p \<noteq> 0" "packet_stratum p \<le> MAX_STRATUM" "packet_mode p = Server"
  shows "handle_answer env C info snaps s p ts tr = process_message env C info snaps s p ts tr"
proof -
  have "\<not> is_kiss p" using assms(1) by (simp add: is_kiss_def)
  then have k: "\<not> is_kiss_rate i p" "\<not> is_kiss_rstr p" "\<not> is_kiss_deny p" "\<not> is_kiss_ntsn p" "\<not> is_kiss p" for i
    by (simp_all add: is_kiss_rate_def is_kiss_rstr_def is_kiss_deny_def is_kiss_ntsn_def)
  have "\<not> MAX_STRATUM < packet_stratum p" using assms(2) by simp
  then show ?thesis by (simp only: handle_answer_def k assms(3) if_False simp_thms)
qed

lemma stash_store_all:
  assumes "stash_inv st" "length (stash_contents st) + length cs \<le> 8"
  shows "stash_contents (foldl stash_store st cs) = stash_contents st @ cs"
  using stash.put_all_contents [OF assms(1), of cs] assms(2)
  by (simp add: foldl_conv_fold MAX_COOKIES_def del: length_stash_contents)

text \<open>The source in session takes an authentic answer with its cookies.\<close>

lemma session_answer:
  fixes s :: "('c \<times> measurement list) ntp_source"
  assumes "source_inv s" "src_protocol_version s = PV4" "src_nts s = Some nts"
      "src_current_request_identifier s = Some (rid, validity)" "se_now env \<le> validity"
    and "packet_deserialize (se_aead env) message (the_cipher (nts_s2c nts)) = Inr (p, None)" "valid_server_response p rid True"
    and "packet_version p = NtpV4" "packet_mode p = Server" "packet_stratum p \<noteq> 0" "packet_stratum p \<le> MAX_STRATUM"
  obtains snaps' s' m m' where
    "handle_incoming env (logged C) info snaps s message ts tr = Some (snaps', s', [])" "source_inv s'"
    "src_protocol_version s' = PV4" "is_reachable (src_reach s')"
    "src_nts s' = Some (nts\<lparr>nts_cookies := foldl stash_store (nts_cookies nts) (new_cookies p)\<rparr>)"
    "snd (src_controller s') = snd (src_controller s) @ [m, m']"
    "m_sender_ts m = ts" "m_receiver_ts m = packet_receive_timestamp p"
    "m_sender_ts m' = packet_transmit_timestamp p" "m_receiver_ts m' = tr"
proof -
  have up: "upgraded p s = s" using assms(2) by (simp add: upgraded_def next_protocol_version_def)
  have "answers env s message p"
    unfolding answers_def using assms(2-8) by (simp add: opt_cipher_the)
  from handle_incoming_answer [OF this, of "logged C" info snaps ts tr]
  have h: "handle_incoming env (logged C) info snaps s message ts tr = process_message env (logged C) info snaps s p ts tr"
    by (simp only: up handle_answer_measures [OF assms(10,11,9)])
  have "rbf_inv (src_bloom_filter s)" using assms(1) by (simp add: source_inv_def)
  from process_message_result [OF this, of env "logged C" info snaps p ts tr] obtain poll bloom u snaps' where
    r: "process_message env (logged C) info snaps s p ts tr = Some (snaps',
       (received p s)\<lparr>src_remote_min_poll_interval := poll, src_bloom_filter := bloom,
         src_controller :=
           (let (m, m') = measurements_from_packet p (src_id s) ts tr in
            sc_handle_measurement (logged C) m' (sc_handle_measurement (logged C) m (sc_set_usable (logged C) u (src_controller s)))),
         src_nts := with_new_cookies p (src_nts s)\<rparr>, [])" (is "_ = Some (_, ?s', _)") .
  obtain m m' where m: "measurements_from_packet p (src_id s) ts tr = (m, m')" by fastforce
  have "source_inv ?s'"
    using source_inv_incoming [OF assms(1), of env "logged C" info snaps message ts tr] h r by simp
  moreover have "src_nts ?s' = Some (nts\<lparr>nts_cookies := foldl stash_store (nts_cookies nts) (new_cookies p)\<rparr>)"
    by (simp add: with_new_cookies_def assms(3))
  moreover have "is_reachable (src_reach ?s')"
    using trailing_zeros_byte(2,3) [of "reach_bits (src_reach s) OR 1"] trailing_zeros_byte(2) [of "reach_bits (src_reach s)"]
    by (auto simp: received_def is_reachable_def received_packet_def)
  moreover have "src_protocol_version ?s' = PV4" by (simp add: received_def assms(2))
  moreover have "snd (src_controller ?s') = snd (src_controller s) @ [m, m']" by (simp add: m)
  ultimately show thesis
    using that [of snaps' ?s' m m'] h r m by (auto simp: measurements_from_packet_def)
qed

lemma timer_state_inv:
  assumes "source_inv s" "src_protocol_version s = PV4" "length buf = 1024" "stash_inv st"
    and "nts_poll_message t uid c n poll = (req, rid)"
  shows "source_inv ((start_poll s)\<lparr>src_nts := Some (nts\<lparr>nts_cookies := st\<rparr>), src_current_request_identifier := Some (rid, validity),
    src_last_poll_interval := poll', src_buffer := buf, src_controller := controller\<rparr>)"
  using assms by (auto simp: source_inv_def start_poll_v4 nts_poll_message_def h4_poll_message_def)

text \<open>The server answers the request of a source in session.\<close>

lemma session_served:
  assumes "aead_correct A" "aead_overhead A" "server_inv srv" and ok: "poll_ok A (srv_config srv) (srv_server_info srv) i"
    and "cookie_wf keys" "fresh_cookie A (srv_keyset srv) keys c" "1 \<le> unat n" "unat n \<le> 7"
    and req: "nts_poll_message (se_transmit (pi_send i)) (se_uid (pi_send i)) c n poll = (req, rid)"
    and w: "packet_serialize A (se_nonce (pi_send i)) req (the_cipher (dsc_c2s keys)) None (new_cursor buf) = Inr w" "length buf = 1024"
  obtains st resp p where
    "handle (pi_server i) srv (pi_client_ip i) (pi_server_received_at i) (take (cur_pos w) (cur_buf w))
       (replicate (length (take (cur_pos w) (cur_buf w))) 0) =
     Some (after_policy (pi_server i) srv (pi_client_ip i), [st], ActRespond resp)"
    "packet_deserialize A resp (the_cipher (dsc_s2c keys)) = Inr (p, None)" "valid_server_response p rid True"
    "length (new_cookies p) = unat n" "\<forall>c \<in> set (new_cookies p). fresh_cookie A (srv_keyset srv) keys c"
    "packet_version p = NtpV4" "packet_mode p = Server" "packet_stratum p = snap_stratum (ntp_snapshot_of (srv_server_info srv))"
    "packet_receive_timestamp p = pi_server_received_at i" "packet_transmit_timestamp p = env_now (pi_server i)"
proof -
  let ?e = "pi_server i" and ?ip = "pi_client_ip i" and ?recv = "pi_server_received_at i"
  obtain nonce where nonce: "length nonce = 16" "encode_cookie (env_aead ?e) nonce (srv_keyset srv) keys = Some c"
    using assms(6) ok by (auto simp: fresh_cookie_def poll_ok_def)
  have A: "env_aead ?e = A" using ok by (simp add: poll_ok_def)
  have open_: "\<not> filtered (srv_config srv) ?ip" "snd (rate_check ?e srv ?ip)"
    using ok assms(3) by (simp_all add: poll_ok_def rate_check_def is_allowed_def server_inv_def Let_def)
  have e: "\<And>j. length (env_cookie_nonces ?e j) = 16" "length (env_server_cookie ?e) = 8" "length (env_seal_nonce ?e) = 16"
      "info_in_range (srv_server_info srv) ?recv" "length (se_uid (pi_send i)) = 32" "length (se_nonce (pi_send i)) = 16"
    using ok by (simp_all add: poll_ok_def env_wf_def)
  have v4: "packet_version req \<in> set (accepted_versions (srv_config srv))"
    using ok req by (auto simp: nts_poll_message_def packet_version_def poll_ok_def Let_def split: prod.splits)
  have member: "(req, rid) \<in> {nts_poll_message (se_transmit (pi_send i)) (se_uid (pi_send i)) c n poll,
      nts_poll_message_v5 (ts_to_bits (se_transmit (pi_send i))) (se_uid (pi_send i)) c n poll}"
    unfolding req by (rule insertI1)
  have "length buf \<le> 65500" using w(2) by simp
  from nts_request_answer_full [OF assms(3) open_ _ _ e(6) nonce(1) e(1-4) assms(5) nonce(2) member e(5) assms(7,8) v4
      w(1) [folded A] this refl, of "replicate (length (take (cur_pos w) (cur_buf w))) 0"] assms(1,2)
  obtain st resp resp0 p where r:
    "handle ?e srv ?ip ?recv (take (cur_pos w) (cur_buf w)) (replicate (length (take (cur_pos w) (cur_buf w))) 0) =
       Some (after_policy ?e srv ?ip, [st], ActRespond resp)"
    "packet_deserialize (env_aead ?e) resp (the_cipher (dsc_s2c keys)) = Inr (p, None)" "valid_server_response p rid True"
    "length (new_cookies p) = unat n"
    "\<forall>c \<in> set (new_cookies p). \<exists>j. encode_cookie (env_aead ?e) (env_cookie_nonces ?e j) (srv_keyset srv) keys = Some c"
    "nts_timestamp_response (env_aead ?e) (env_cookie_nonces ?e) (env_server_cookie ?e) (srv_server_info srv) req ?recv
      (env_now ?e) keys (srv_keyset srv) = Some resp0" "header_close (header resp0) (header p)"
    by (auto simp: A)
  have "\<forall>c \<in> set (new_cookies p). fresh_cookie A (srv_keyset srv) keys c"
    using r(5) e(1) unfolding fresh_cookie_def A by blast
  with that [OF r(1) _ r(3,4)] r(2) v4_answer_header [OF req r(6,7)] show thesis by (simp add: A)
qed

lemma session_poll:
  fixes s :: "('c \<times> measurement list) ntp_source"
  assumes "aead_correct A" "aead_overhead A" "server_inv srv" "in_session A (srv_keyset srv) keys s"
    and ok: "poll_ok A (srv_config srv) (srv_server_info srv) i"
  obtains snaps' s' m m' where
    "poll_exchange (logged C) i (snaps, s, srv) = Some (snaps', s', after_policy (pi_server i) srv (pi_client_ip i))"
    "in_session A (srv_keyset srv) keys s'" "cookie_count s \<le> cookie_count s'"
    "snd (src_controller s') = snd (src_controller s) @ [m, m']"
    "m_sender_ts m = pi_sent_at i" "m_receiver_ts m = pi_server_received_at i"
    "m_sender_ts m' = env_now (pi_server i)" "m_receiver_ts m' = pi_received_at i"
proof -
  let ?ks = "srv_keyset srv" and ?env = "pi_send i" and ?C = "logged C" and ?info = "srv_server_info srv"
  obtain nts where nts: "src_nts s = Some nts" "nts_c2s nts = dsc_c2s keys" "nts_s2c nts = dsc_s2c keys"
      "stash_contents (nts_cookies nts) \<noteq> []" "\<forall>c \<in> set (stash_contents (nts_cookies nts)). fresh_cookie A ?ks keys c"
      and inv: "source_inv s" "src_protocol_version s = PV4" "cookie_wf keys"
    using assms(4) by (auto simp: in_session_def)
  have si: "stash_inv (nts_cookies nts)" using inv(1) nts(1) by (simp add: source_inv_def)
  obtain c st where get: "stash_get (nts_cookies nts) = (Some c, st)" "stash_inv st"
      "stash_contents (nts_cookies nts) = c # stash_contents st"
    using stash_get_in_session [OF si nts(4)] .
  have "length (stash_contents (nts_cookies nts)) \<le> 8" using stash.cap_bound [OF si] by (simp add: MAX_COOKIES_def)
  then have k: "length (stash_contents st) < 8" using get(3) by (simp del: length_stash_contents)
  have fresh: "fresh_cookie A ?ks keys c" using nts(5) get(3) by simp
  define n where "n = cookies_to_request 1024 st c"
  note asked = cookies_asked [OF get(2) k fresh_cookie_length [OF fresh inv(3) assms(2)], folded n_def]
  obtain req rid where req: "nts_poll_message (se_transmit ?env) (se_uid ?env) c n (current_poll_interval ?C (start_poll s)) = (req, rid)"
    by fastforce
  have e: "env_wf ?env" "se_aead ?env = A" "env_aead (pi_server i) = A" "length (se_uid ?env) = 32" "length (se_nonce ?env) = 16"
    using ok by (auto simp: poll_ok_def env_wf_def)
  obtain w snaps1 u t where w: "packet_serialize A (se_nonce ?env) req (the_cipher (nts_c2s nts)) None (new_cursor (src_buffer s)) = Inr w"
      "length (cur_buf w) = 1024" and timer: "handle_timer ?env ?C (pi_info i) snaps s = Some (snaps1,
       (start_poll s)\<lparr>src_nts := Some (nts\<lparr>nts_cookies := st\<rparr>),
         src_current_request_identifier := Some (rid, se_now ?env + POLL_WINDOW),
         src_last_poll_interval := current_poll_interval ?C (start_poll s),
         src_buffer := cur_buf w, src_controller := sc_set_usable ?C u (src_controller s)\<rparr>,
       [Send (take (cur_pos w) (cur_buf w)), SetTimer t])" (is "_ = Some (_, ?s1, [Send ?message, _])")
    using session_timer [OF assms(4) e(1,2) nts(1) get(1,2) asked(2) n_def req, of "pi_info i" snaps] .
  have buf: "length (src_buffer s) = 1024" using inv(1) by (simp add: source_inv_def)
  obtain stat resp p where served: "handle (pi_server i) srv (pi_client_ip i) (pi_server_received_at i) ?message (replicate (length ?message) 0) =
      Some (after_policy (pi_server i) srv (pi_client_ip i), [stat], ActRespond resp)"
    and p: "packet_deserialize A resp (the_cipher (dsc_s2c keys)) = Inr (p, None)" "valid_server_response p rid True"
    "length (new_cookies p) = unat n" "\<forall>c \<in> set (new_cookies p). fresh_cookie A ?ks keys c"
    "packet_version p = NtpV4" "packet_mode p = Server" "packet_stratum p = snap_stratum (ntp_snapshot_of ?info)"
    "packet_receive_timestamp p = pi_server_received_at i" "packet_transmit_timestamp p = env_now (pi_server i)"
    using session_served [OF assms(1-3) ok inv(3) fresh asked(2,3) req w(1) [unfolded nts(2)] buf] .
  have rcv: "se_aead (pi_receive i) = A" "se_now (pi_receive i) \<le> se_now ?env + POLL_WINDOW"
      "packet_stratum p \<noteq> 0" "packet_stratum p \<le> MAX_STRATUM"
    using ok p(7) by (auto simp: poll_ok_def)
  have s1: "source_inv ?s1" "src_protocol_version ?s1 = PV4" "src_nts ?s1 = Some (nts\<lparr>nts_cookies := st\<rparr>)"
      "src_current_request_identifier ?s1 = Some (rid, se_now ?env + POLL_WINDOW)"
    using timer_state_inv [OF inv(1,2) w(2) get(2) req] inv(2) by (simp_all add: start_poll_v4)
  obtain snaps2 s2 m m' where a: "handle_incoming (pi_receive i) ?C (pi_info i) snaps1 ?s1 resp (pi_sent_at i) (pi_received_at i) =
      Some (snaps2, s2, [])" "source_inv s2" "src_protocol_version s2 = PV4" "is_reachable (src_reach s2)"
    "src_nts s2 = Some (nts\<lparr>nts_cookies := foldl stash_store st (new_cookies p)\<rparr>)"
    "snd (src_controller s2) = snd (src_controller ?s1) @ [m, m']"
    "m_sender_ts m = pi_sent_at i" "m_receiver_ts m = packet_receive_timestamp p"
    "m_sender_ts m' = packet_transmit_timestamp p" "m_receiver_ts m' = pi_received_at i"
    using session_answer [where env = "pi_receive i" and C = C and info = "pi_info i" and snaps = snaps1 and message = resp
        and ts = "pi_sent_at i" and tr = "pi_received_at i" and p = p, OF s1 rcv(2) _ p(2,5,6) rcv(3,4)] p(1) nts(3) rcv(1)
    by (simp, blast)
  have contents: "stash_contents (foldl stash_store st (new_cookies p)) = stash_contents st @ new_cookies p"
    using stash_store_all [OF get(2)] p(3) asked(1) k by simp
  have "poll_exchange ?C i (snaps, s, srv) = Some (snaps2, s2, after_policy (pi_server i) srv (pi_client_ip i))"
    using timer served a(1) by (simp add: poll_exchange_def)
  moreover have "in_session A ?ks keys s2"
    using a(2-5) contents nts(2,3,5) get(3) p(3,4) asked(2) inv(3) by (auto simp: in_session_def)
  moreover have "cookie_count s \<le> cookie_count s2"
    using contents p(3) asked(2) get(3) nts(1) a(5) by (simp add: cookie_count_def del: length_stash_contents)
  ultimately show thesis
    using that a(6-10) p(8,9) by simp
qed

section \<open>Any number of polls\<close>

definition stamps :: "measurement \<Rightarrow> ntp_timestamp \<times> ntp_timestamp" where
  "stamps m = (m_sender_ts m, m_receiver_ts m)"

text \<open>The timestamps a poll should measure, on the way to the server and back.\<close>

definition poll_stamps :: "poll_inputs \<Rightarrow> (ntp_timestamp \<times> ntp_timestamp) list" where
  "poll_stamps i = [(pi_sent_at i, pi_server_received_at i), (env_now (pi_server i), pi_received_at i)]"

lemma session_polls:
  fixes s :: "('c \<times> measurement list) ntp_source"
  assumes "aead_correct A" "aead_overhead A"
  shows "server_inv srv \<Longrightarrow> in_session A (srv_keyset srv) keys s \<Longrightarrow>
    list_all (poll_ok A (srv_config srv) (srv_server_info srv)) is \<Longrightarrow>
    \<exists>snaps' s' srv'. poll_exchanges (logged C) is (snaps, s, srv) = Some (snaps', s', srv') \<and>
      in_session A (srv_keyset srv) keys s' \<and> cookie_count s \<le> cookie_count s' \<and>
      map stamps (snd (src_controller s')) = map stamps (snd (src_controller s)) @ concat (map poll_stamps is)"
proof (induction "is" arbitrary: snaps s srv)
  case Nil
  then show ?case by simp
next
  case (Cons i "is")
  let ?srv = "after_policy (pi_server i) srv (pi_client_ip i)"
  have "poll_ok A (srv_config srv) (srv_server_info srv) i" using Cons.prems(3) by simp
  from session_poll [OF assms Cons.prems(1,2) this, of C snaps] obtain snaps1 s1 m m' where
    p: "poll_exchange (logged C) i (snaps, s, srv) = Some (snaps1, s1, ?srv)" "in_session A (srv_keyset srv) keys s1"
    "cookie_count s \<le> cookie_count s1" "snd (src_controller s1) = snd (src_controller s) @ [m, m']"
    "stamps m = (pi_sent_at i, pi_server_received_at i)" "stamps m' = (env_now (pi_server i), pi_received_at i)"
    unfolding stamps_def by metis
  from Cons.IH [of ?srv s1 snaps1] server_inv_after [OF Cons.prems(1)] p(2) Cons.prems(3) obtain snaps' s' srv' where
    "poll_exchanges (logged C) is (snaps1, s1, ?srv) = Some (snaps', s', srv')" "in_session A (srv_keyset srv) keys s'"
    "cookie_count s1 \<le> cookie_count s'"
    "map stamps (snd (src_controller s')) = map stamps (snd (src_controller s1)) @ concat (map poll_stamps is)"
    by auto
  with p show ?case by (auto simp: poll_stamps_def [of i])
qed

lemma cookie_count_le:
  "source_inv s \<Longrightarrow> cookie_count s \<le> 8"
  using stash.cap_bound by (fastforce simp: cookie_count_def source_inv_def MAX_COOKIES_def split: option.split)

text \<open>A source made from the result of a key exchange is in session.\<close>

lemma source_new_in_session:
  assumes "stash_inv (nts_cookies nts)" "stash_contents (nts_cookies nts) \<noteq> []"
    and "keys = \<lparr>dsc_algorithm = a, dsc_s2c = nts_s2c nts, dsc_c2s = nts_c2s nts\<rparr>" "cookie_wf keys"
    and "\<forall>c \<in> set (stash_contents (nts_cookies nts)). fresh_cookie A ks keys c"
  obtains s where "source_new md5 addr config PV4 controller (Some nts) sid = Some (s, [SetTimer 0])" "in_session A ks keys s"
    "cookie_count s = length (stash_contents (nts_cookies nts))" "src_controller s = controller"
proof -
  obtain s where s: "source_new md5 addr config PV4 controller (Some nts) sid = Some (s, [SetTimer 0])" "source_inv s"
    using source_new_inv [of "Some nts" md5 addr config PV4 controller sid] assms(1) by auto
  then have "src_nts s = Some nts" "src_protocol_version s = PV4" "src_tries s = 0" "src_controller s = controller"
    by (auto simp: source_new_def)
  with s that [of s] assms show thesis by (simp add: in_session_def cookie_count_def STARTUP_TRIES_THRESHOLD_def)
qed

definition example_poll :: poll_inputs where
  "example_poll = \<lparr>pi_send = example_source_env, pi_receive = example_source_env, pi_info = example_source_info,
     pi_server = example_env, pi_client_ip = IpV4 7, pi_sent_at = NtpTimestamp 1, pi_server_received_at = NtpTimestamp 5,
     pi_received_at = NtpTimestamp 9\<rparr>"

end
