(* ===== verification/Ptp_Common.thy ===== *)
theory Ptp_Common
  imports Ntp_Prelude
begin

text \<open>
  The data types shared by all PTP messages (\<^verbatim>\<open>statime-wire/src/common\<close>) and their wire formats.
  A serialiser of the source writes into a mutable slice: here it takes the slice and returns it
  rewritten, or the error. What a failed serialiser leaves in the slice is not modelled, every
  caller drops it. A slice expression out of range, a \<^verbatim>\<open>copy_from_slice\<close> between different lengths and an
  \<^verbatim>\<open>unwrap\<close> of an error abort the program, which is the value \<open>WirePanic\<close>; it is not a value of the
  source's error type and the theorems show that it does not occur.
\<close>

datatype wire_error = BufferTooShort | Invalid | WirePanic

type_synonym serializer = "bytes \<Rightarrow> wire_error + bytes"

section \<open>Access to slices\<close>

text \<open>\<^verbatim>\<open>buffer.get(a..b).ok_or(BufferTooShort)\<close> and \<^verbatim>\<open>&buffer[a..b]\<close>, and the same for a single byte.\<close>

definition get_slice :: "nat \<Rightarrow> nat \<Rightarrow> bytes \<Rightarrow> wire_error + bytes" where
  "get_slice a b buf = ok_or BufferTooShort (get_range a b buf)"

definition index_slice :: "nat \<Rightarrow> nat \<Rightarrow> bytes \<Rightarrow> wire_error + bytes" where
  "index_slice a b buf = ok_or WirePanic (get_range a b buf)"

definition get_byte :: "nat \<Rightarrow> bytes \<Rightarrow> wire_error + byte" where
  "get_byte i buf = (if i < length buf then Inr (buf ! i) else Inl BufferTooShort)"

definition index_byte :: "nat \<Rightarrow> bytes \<Rightarrow> wire_error + byte" where
  "index_byte i buf = (if i < length buf then Inr (buf ! i) else Inl WirePanic)"

text \<open>\<^verbatim>\<open>copy_from_slice\<close>, and a serialiser applied to the part \<open>a..b\<close> of a slice, with \<open>e\<close> when there is no
  such part.\<close>

definition copy_from :: "bytes \<Rightarrow> serializer" where
  "copy_from d s = (if length d = length s then Inr d else Inl WirePanic)"

definition put_slice :: "wire_error \<Rightarrow> nat \<Rightarrow> nat \<Rightarrow> serializer \<Rightarrow> serializer" where
  "put_slice e a b f buf =
     bindR (ok_or e (get_range a b buf)) (\<lambda>s. bindR (f s) (\<lambda>s. Inr (splice a s buf)))"

primrec in_turn :: "serializer list \<Rightarrow> serializer" where
  "in_turn [] buf = Inr buf"
| "in_turn (f # fs) buf = bindR (f buf) (in_turn fs)"

text \<open>\<open>lays f d\<close>: the serialiser fills the front of every slice that is long enough with \<open>d\<close> and leaves the
  rest alone.\<close>

definition lays :: "serializer \<Rightarrow> bytes \<Rightarrow> bool" where
  "lays f d \<longleftrightarrow> (\<forall>s. length d \<le> length s \<longrightarrow> f s = Inr (d @ drop (length d) s))"

lemma laysD: "lays f d \<Longrightarrow> length d \<le> length s \<Longrightarrow> f s = Inr (d @ drop (length d) s)"
  by (simp add: lays_def)

lemma get_slice_ok [simp]: "a \<le> b \<Longrightarrow> b \<le> length buf \<Longrightarrow> get_slice a b buf = Inr (slice a b buf)"
  by (simp add: get_slice_def get_range_def)

lemma index_slice_ok [simp]: "a \<le> b \<Longrightarrow> b \<le> length buf \<Longrightarrow> index_slice a b buf = Inr (slice a b buf)"
  by (simp add: index_slice_def get_range_def)

lemma get_byte_ok [simp]: "i < length buf \<Longrightarrow> get_byte i buf = Inr (buf ! i)"
  by (simp add: get_byte_def)

lemma index_byte_ok [simp]: "i < length buf \<Longrightarrow> index_byte i buf = Inr (buf ! i)"
  by (simp add: index_byte_def)

lemma get_slice_short: "length buf < b \<Longrightarrow> get_slice a b buf = Inl BufferTooShort"
  by (simp add: get_slice_def get_range_def)

lemma put_slice_copy [simp]:
  "a \<le> b \<Longrightarrow> b \<le> length buf \<Longrightarrow> length d = b - a \<Longrightarrow>
    put_slice e a b (copy_from d) buf = Inr (splice a d buf)"
  by (simp add: put_slice_def get_range_def copy_from_def)

lemma put_slice_lays:
  "lays f d \<Longrightarrow> a \<le> b \<Longrightarrow> b \<le> length buf \<Longrightarrow> length d = b - a \<Longrightarrow>
    put_slice e a b f buf = Inr (splice a d buf)"
  by (simp add: put_slice_def get_range_def laysD)

lemma get_slice_no_panic: "get_slice a b buf \<noteq> Inl WirePanic"
  by (simp add: get_slice_def ok_or_def split: option.split)

section \<open>Timestamps\<close>

record ptp_timestamp =
  ptp_seconds :: u64
  ptp_nanos :: u32

definition ptp_timestamp_new :: "u64 \<Rightarrow> u32 \<Rightarrow> wire_error + ptp_timestamp" where
  "ptp_timestamp_new seconds nanos =
     (if seconds \<ge> push_bit 48 1 \<or> nanos \<ge> 1000000000 then Inl Invalid
      else Inr \<lparr>ptp_seconds = seconds, ptp_nanos = nanos\<rparr>)"

definition ptp_timestamp_default :: ptp_timestamp where
  "ptp_timestamp_default = \<lparr>ptp_seconds = 0, ptp_nanos = 0\<rparr>"

definition try_set_seconds :: "u64 \<Rightarrow> ptp_timestamp \<Rightarrow> wire_error + ptp_timestamp" where
  "try_set_seconds seconds t = (if seconds \<ge> push_bit 48 1 then Inl Invalid else Inr (t\<lparr>ptp_seconds := seconds\<rparr>))"

definition try_set_nanos :: "u32 \<Rightarrow> ptp_timestamp \<Rightarrow> wire_error + ptp_timestamp" where
  "try_set_nanos nanos t = (if nanos \<ge> 1000000000 then Inl Invalid else Inr (t\<lparr>ptp_nanos := nanos\<rparr>))"

definition ptp_timestamp_serialize :: "ptp_timestamp \<Rightarrow> serializer" where
  "ptp_timestamp_serialize t =
     in_turn [put_slice BufferTooShort 0 6 (copy_from (slice 2 8 (u64_to_be (ptp_seconds t)))),
              put_slice BufferTooShort 6 10 (copy_from (u32_to_be (ptp_nanos t)))]"

definition ptp_timestamp_deserialize :: "bytes \<Rightarrow> wire_error + ptp_timestamp" where
  "ptp_timestamp_deserialize buffer =
     bindR (get_slice 0 6 buffer) (\<lambda>seconds.
     bindR (get_slice 6 10 buffer) (\<lambda>nanos.
       if (from_be nanos :: u32) > 1000000000 then Inl Invalid
       else Inr \<lparr>ptp_seconds = from_be (replicate 2 0 @ seconds), ptp_nanos = from_be nanos\<rparr>))"

text \<open>What the constructors promise, and what the parser promises: the parser lets a full second of
  nanoseconds pass.\<close>

definition ptp_timestamp_wf :: "ptp_timestamp \<Rightarrow> bool" where
  "ptp_timestamp_wf t \<longleftrightarrow> ptp_seconds t < 2 ^ 48 \<and> ptp_nanos t \<le> 1000000000"

definition ptp_timestamp_bytes :: "ptp_timestamp \<Rightarrow> bytes" where
  "ptp_timestamp_bytes t = to_be 6 (ptp_seconds t) @ u32_to_be (ptp_nanos t)"

lemma length_ptp_timestamp_bytes [simp]: "length (ptp_timestamp_bytes t) = 10"
  by (simp add: ptp_timestamp_bytes_def)

lemma slice_2_8_to_be: "slice 2 8 (u64_to_be s) = to_be 6 s"
  by (simp add: slice_def eval_nat_numeral)

lemma less_48_take_bit: "(s :: u64) < 281474976710656 \<longleftrightarrow> take_bit 48 s = s"
proof -
  have "s < 281474976710656 \<longleftrightarrow> uint s < 2 ^ 48" by (simp add: word_less_def)
  also have "\<dots> \<longleftrightarrow> take_bit 48 (uint s) = uint s" by (simp add: take_bit_int_eq_self_iff)
  also have "\<dots> \<longleftrightarrow> take_bit 48 s = s" by (simp only: unsigned_word_eqI unsigned_take_bit_eq [symmetric] word_uint_eq_iff)
  finally show ?thesis .
qed

lemma ptp_timestamp_lays [simp, intro]: "lays (ptp_timestamp_serialize t) (ptp_timestamp_bytes t)"
  by (simp add: lays_def ptp_timestamp_serialize_def ptp_timestamp_bytes_def slice_2_8_to_be splice_def)

lemma from_be_zeros: "from_be (replicate n 0 @ bs) = (from_be bs :: 'a::len word)"
  by (induction n) simp_all

lemma from_be_to_be_48: "(s :: u64) < 281474976710656 \<Longrightarrow> from_be (to_be 6 s) = s"
  by (simp add: from_be_to_be less_48_take_bit)

lemma ptp_timestamp_bytes_read:
  "ptp_timestamp_wf t \<Longrightarrow> ptp_timestamp_deserialize (ptp_timestamp_bytes t @ r) = Inr t"
  by (simp add: ptp_timestamp_deserialize_def ptp_timestamp_bytes_def ptp_timestamp_wf_def slice_def
      from_be_zeros from_be_to_be_48 not_less)

lemma ptp_timestamp_deserialize_wf:
  assumes "ptp_timestamp_deserialize buffer = Inr t"
  shows "ptp_timestamp_wf t"
proof -
  let ?s = "slice 0 6 buffer"
  have "length ?s = 6" "ptp_seconds t = from_be ?s" "ptp_nanos t \<le> 1000000000"
    using assms
    by (auto simp: ptp_timestamp_deserialize_def result_simps from_be_zeros get_slice_def get_range_def
        not_less split: if_splits)
  moreover have "take_bit 48 (from_be ?s :: u64) = from_be ?s"
    using \<open>length ?s = 6\<close> by (intro bit_word_eqI) (auto simp: bit_simps dest: bit_from_be_bound)
  ultimately show ?thesis by (simp add: ptp_timestamp_wf_def less_48_take_bit)
qed

lemma ptp_timestamp_no_panic: "ptp_timestamp_deserialize buffer \<noteq> Inl WirePanic"
  by (auto simp: ptp_timestamp_deserialize_def result_simps get_slice_no_panic split: if_splits)

text \<open>
  A timestamp with exactly \<open>10\<^sup>9\<close> nanoseconds is parsed, although the parser documents and the
  constructors enforce that the nanoseconds are fewer.
\<close>

lemma full_second_is_parsed:
  assumes "s < 2 ^ 48"
  shows "ptp_timestamp_deserialize (to_be 6 s @ u32_to_be 1000000000) =
      Inr \<lparr>ptp_seconds = s, ptp_nanos = 1000000000\<rparr> \<and>
    ptp_timestamp_new s 1000000000 = Inl Invalid"
  using assms ptp_timestamp_bytes_read [of "\<lparr>ptp_seconds = s, ptp_nanos = 1000000000\<rparr>" "[]"]
  by (simp add: ptp_timestamp_new_def ptp_timestamp_wf_def ptp_timestamp_bytes_def)

section \<open>Clock accuracy\<close>

datatype clock_accuracy =
    AccReserved | PS1 | PS2_5 | PS10 | PS25 | PS100 | PS250 | NS1 | NS2_5
  | NS10 | NS25 | NS100 | NS250 | US1 | US2_5 | US10 | US25 | US100 | US250
  | MS1 | MS2_5 | MS10 | MS25 | MS100 | MS250 | S1 | S10 | SGT10 | AccProfileSpecific byte | AccUnknown

fun accuracy_to_primitive :: "clock_accuracy \<Rightarrow> byte" where
  "accuracy_to_primitive AccReserved = 0x0"
| "accuracy_to_primitive PS1 = 0x17"
| "accuracy_to_primitive PS2_5 = 0x18"
| "accuracy_to_primitive PS10 = 0x19"
| "accuracy_to_primitive PS25 = 0x1a"
| "accuracy_to_primitive PS100 = 0x1b"
| "accuracy_to_primitive PS250 = 0x1c"
| "accuracy_to_primitive NS1 = 0x1d"
| "accuracy_to_primitive NS2_5 = 0x1e"
| "accuracy_to_primitive NS10 = 0x1f"
| "accuracy_to_primitive NS25 = 0x20"
| "accuracy_to_primitive NS100 = 0x21"
| "accuracy_to_primitive NS250 = 0x22"
| "accuracy_to_primitive US1 = 0x23"
| "accuracy_to_primitive US2_5 = 0x24"
| "accuracy_to_primitive US10 = 0x25"
| "accuracy_to_primitive US25 = 0x26"
| "accuracy_to_primitive US100 = 0x27"
| "accuracy_to_primitive US250 = 0x28"
| "accuracy_to_primitive MS1 = 0x29"
| "accuracy_to_primitive MS2_5 = 0x2a"
| "accuracy_to_primitive MS10 = 0x2b"
| "accuracy_to_primitive MS25 = 0x2c"
| "accuracy_to_primitive MS100 = 0x2d"
| "accuracy_to_primitive MS250 = 0x2e"
| "accuracy_to_primitive S1 = 0x2f"
| "accuracy_to_primitive S10 = 0x30"
| "accuracy_to_primitive SGT10 = 0x31"
| "accuracy_to_primitive (AccProfileSpecific v) = 0x80 + v"
| "accuracy_to_primitive AccUnknown = 0xfe"

definition accuracy_from_primitive :: "byte \<Rightarrow> clock_accuracy" where
  "accuracy_from_primitive v =
     (if v \<le> 0x16 \<or> (0x32 \<le> v \<and> v \<le> 0x7f) \<or> v = 0xff then AccReserved
      else if v = 0x17 then PS1
      else if v = 0x18 then PS2_5
      else if v = 0x19 then PS10
      else if v = 0x1a then PS25
      else if v = 0x1b then PS100
      else if v = 0x1c then PS250
      else if v = 0x1d then NS1
      else if v = 0x1e then NS2_5
      else if v = 0x1f then NS10
      else if v = 0x20 then NS25
      else if v = 0x21 then NS100
      else if v = 0x22 then NS250
      else if v = 0x23 then US1
      else if v = 0x24 then US2_5
      else if v = 0x25 then US10
      else if v = 0x26 then US25
      else if v = 0x27 then US100
      else if v = 0x28 then US250
      else if v = 0x29 then MS1
      else if v = 0x2a then MS2_5
      else if v = 0x2b then MS10
      else if v = 0x2c then MS25
      else if v = 0x2d then MS100
      else if v = 0x2e then MS250
      else if v = 0x2f then S1
      else if v = 0x30 then S10
      else if v = 0x31 then SGT10
      else if 0x80 \<le> v \<and> v \<le> 0xfd then AccProfileSpecific (v - 0x80)
      else AccUnknown)"

text \<open>The addition of \<^verbatim>\<open>to_primitive\<close> wraps for profile specific values that no parser makes.\<close>

fun accuracy_wf :: "clock_accuracy \<Rightarrow> bool" where
  "accuracy_wf (AccProfileSpecific v) \<longleftrightarrow> v \<le> 0x7d"
| "accuracy_wf _ \<longleftrightarrow> True"

lemma profile_range: "0x80 \<le> (v :: byte) \<Longrightarrow> v \<le> 0xfd \<Longrightarrow> v - 0x80 \<le> 0x7d"
  by unat_arith

lemma profile_range_back: "(v :: byte) \<le> 0x7d \<Longrightarrow> 0x80 \<le> 0x80 + v \<and> 0x80 + v \<le> 0xfd"
  by (unat_arith; simp)

lemma accuracy_from_primitive_wf: "accuracy_wf (accuracy_from_primitive v)"
  by (simp add: accuracy_from_primitive_def profile_range)

lemma accuracy_from_profile:
  assumes "0x80 \<le> v" "v \<le> 0xfd"
  shows "accuracy_from_primitive v = AccProfileSpecific (v - 0x80)"
proof -
  have "\<not> v \<le> 0x16" "\<not> v \<le> 0x7f" "v \<noteq> 0xff" using assms by unat_arith+
  then show ?thesis using assms by (auto simp: accuracy_from_primitive_def)
qed

lemma accuracy_read [simp]: "accuracy_wf a \<Longrightarrow> accuracy_from_primitive (accuracy_to_primitive a) = a"
proof (cases a)
  case (AccProfileSpecific v)
  moreover assume "accuracy_wf a"
  ultimately show ?thesis using profile_range_back [of v] by (simp add: accuracy_from_profile)
qed (simp_all add: accuracy_from_primitive_def)

section \<open>Clock and port identities\<close>

type_synonym clock_identity = bytes

definition from_mac_address :: "bytes \<Rightarrow> clock_identity" where
  "from_mac_address addr = splice 0 addr (replicate 8 0)"

definition clock_identity_default :: clock_identity where
  "clock_identity_default = replicate 8 0"

definition clock_identity_serialize :: "clock_identity \<Rightarrow> serializer" where
  "clock_identity_serialize c = put_slice BufferTooShort 0 (length c) (copy_from c)"

definition clock_identity_deserialize :: "bytes \<Rightarrow> wire_error + clock_identity" where
  "clock_identity_deserialize buffer = get_slice 0 8 buffer"

text \<open>The array \<^verbatim>\<open>[u8; 8]\<close>.\<close>

abbreviation clock_identity_wf :: "clock_identity \<Rightarrow> bool" where
  "clock_identity_wf c \<equiv> length c = 8"

record port_identity =
  pi_clock :: clock_identity
  pi_port :: u16

definition port_identity_default :: port_identity where
  "port_identity_default = \<lparr>pi_clock = clock_identity_default, pi_port = 0\<rparr>"

definition port_identity_serialize :: "port_identity \<Rightarrow> serializer" where
  "port_identity_serialize p =
     in_turn [put_slice BufferTooShort 0 8 (clock_identity_serialize (pi_clock p)),
              put_slice BufferTooShort 8 10 (copy_from (u16_to_be (pi_port p)))]"

definition port_identity_deserialize :: "bytes \<Rightarrow> wire_error + port_identity" where
  "port_identity_deserialize buffer =
     bindR (get_slice 0 8 buffer) (\<lambda>c.
     bindR (clock_identity_deserialize c) (\<lambda>c.
     bindR (get_slice 8 10 buffer) (\<lambda>n. Inr \<lparr>pi_clock = c, pi_port = from_be n\<rparr>)))"

definition port_identity_bytes :: "port_identity \<Rightarrow> bytes" where
  "port_identity_bytes p = pi_clock p @ u16_to_be (pi_port p)"

abbreviation port_identity_wf :: "port_identity \<Rightarrow> bool" where
  "port_identity_wf p \<equiv> clock_identity_wf (pi_clock p)"

lemma clock_identity_lays [simp, intro]: "lays (clock_identity_serialize c) c"
  by (simp add: lays_def clock_identity_serialize_def splice_def)

lemma clock_identity_read: "clock_identity_wf c \<Longrightarrow> clock_identity_deserialize (c @ r) = Inr c"
  by (simp add: clock_identity_deserialize_def slice_def)

lemma clock_identity_deserialize_wf: "clock_identity_deserialize b = Inr c \<Longrightarrow> clock_identity_wf c"
  by (auto simp: clock_identity_deserialize_def get_slice_def result_simps get_range_def split: if_splits)

lemma clock_identity_no_panic: "clock_identity_deserialize b \<noteq> Inl WirePanic"
  by (simp add: clock_identity_deserialize_def get_slice_no_panic)

lemma length_port_identity_bytes [simp]: "port_identity_wf p \<Longrightarrow> length (port_identity_bytes p) = 10"
  by (simp add: port_identity_bytes_def)

lemma port_identity_lays [simp, intro]:
  "port_identity_wf p \<Longrightarrow> lays (port_identity_serialize p) (port_identity_bytes p)"
  by (simp add: lays_def port_identity_serialize_def port_identity_bytes_def splice_def
      put_slice_lays [OF clock_identity_lays])

lemma port_identity_read:
  "port_identity_wf p \<Longrightarrow> port_identity_deserialize (port_identity_bytes p @ r) = Inr p"
  by (simp add: port_identity_deserialize_def port_identity_bytes_def slice_def
      clock_identity_read [where r = "[]", simplified])

lemma port_identity_deserialize_wf: "port_identity_deserialize b = Inr p \<Longrightarrow> port_identity_wf p"
  by (auto simp: port_identity_deserialize_def result_simps dest: clock_identity_deserialize_wf)

lemma port_identity_no_panic: "port_identity_deserialize b \<noteq> Inl WirePanic"
  by (auto simp: port_identity_deserialize_def result_simps get_slice_no_panic clock_identity_no_panic)

section \<open>Clock quality\<close>

record clock_quality =
  cq_class :: byte
  cq_accuracy :: clock_accuracy
  cq_variance :: u16

definition clock_quality_default :: clock_quality where
  "clock_quality_default =
     \<lparr>cq_class = 248, cq_accuracy = AccUnknown, cq_variance = 0x8000 - 23 * 256\<rparr>"

definition clock_quality_serialize :: "clock_quality \<Rightarrow> serializer" where
  "clock_quality_serialize q =
     in_turn [put_slice BufferTooShort 0 1 (copy_from [cq_class q]),
              put_slice BufferTooShort 1 2 (copy_from [accuracy_to_primitive (cq_accuracy q)]),
              put_slice BufferTooShort 2 4 (copy_from (u16_to_be (cq_variance q)))]"

definition clock_quality_deserialize :: "bytes \<Rightarrow> wire_error + clock_quality" where
  "clock_quality_deserialize buffer =
     bindR (get_byte 0 buffer) (\<lambda>cls.
     bindR (get_byte 1 buffer) (\<lambda>acc.
     bindR (get_slice 2 4 buffer) (\<lambda>v.
       Inr \<lparr>cq_class = cls, cq_accuracy = accuracy_from_primitive acc, cq_variance = from_be v\<rparr>)))"

definition clock_quality_bytes :: "clock_quality \<Rightarrow> bytes" where
  "clock_quality_bytes q = cq_class q # accuracy_to_primitive (cq_accuracy q) # u16_to_be (cq_variance q)"

abbreviation clock_quality_wf :: "clock_quality \<Rightarrow> bool" where
  "clock_quality_wf q \<equiv> accuracy_wf (cq_accuracy q)"

lemma length_clock_quality_bytes [simp]: "length (clock_quality_bytes q) = 4"
  by (simp add: clock_quality_bytes_def)

lemma clock_quality_lays [simp, intro]: "lays (clock_quality_serialize q) (clock_quality_bytes q)"
  by (simp add: lays_def clock_quality_serialize_def clock_quality_bytes_def splice_def)

lemma clock_quality_read:
  "clock_quality_wf q \<Longrightarrow> clock_quality_deserialize (clock_quality_bytes q @ r) = Inr q"
  by (simp add: clock_quality_deserialize_def clock_quality_bytes_def slice_def)

lemma clock_quality_deserialize_wf: "clock_quality_deserialize b = Inr q \<Longrightarrow> clock_quality_wf q"
  by (auto simp: clock_quality_deserialize_def result_simps accuracy_from_primitive_wf)

lemma clock_quality_no_panic: "clock_quality_deserialize b \<noteq> Inl WirePanic"
  by (auto simp: clock_quality_deserialize_def result_simps get_slice_no_panic get_byte_def split: if_splits)

section \<open>Time intervals\<close>

text \<open>The \<^verbatim>\<open>i64\<close> of a \<^verbatim>\<open>TimeInterval\<close> is kept as the word of its two's complement, read by \<open>sint\<close>.\<close>

type_synonym time_interval = u64

definition time_interval_serialize :: "time_interval \<Rightarrow> serializer" where
  "time_interval_serialize t = put_slice BufferTooShort 0 8 (copy_from (u64_to_be t))"

definition time_interval_deserialize :: "bytes \<Rightarrow> wire_error + time_interval" where
  "time_interval_deserialize buffer = bindR (get_slice 0 8 buffer) (\<lambda>b. Inr (from_be b))"

lemma time_interval_lays [simp, intro]: "lays (time_interval_serialize t) (u64_to_be t)"
  by (simp add: lays_def time_interval_serialize_def splice_def)

lemma time_interval_read: "time_interval_deserialize (u64_to_be t @ r) = Inr t"
  by (simp add: time_interval_deserialize_def slice_def)

lemma time_interval_no_panic: "time_interval_deserialize b \<noteq> Inl WirePanic"
  by (auto simp: time_interval_deserialize_def result_simps get_slice_no_panic)

section \<open>Time sources\<close>

datatype time_source =
    AtomicClock | Gnss | TerrestrialRadio | SerialTimeCode | SourcePtp | SourceNtp | HandSet | OtherSource
  | InternalOscillator | SourceProfileSpecific byte | SourceReserved byte

fun time_source_to_primitive :: "time_source \<Rightarrow> byte" where
  "time_source_to_primitive AtomicClock = 0x10"
| "time_source_to_primitive Gnss = 0x20"
| "time_source_to_primitive TerrestrialRadio = 0x30"
| "time_source_to_primitive SerialTimeCode = 0x39"
| "time_source_to_primitive SourcePtp = 0x40"
| "time_source_to_primitive SourceNtp = 0x50"
| "time_source_to_primitive HandSet = 0x60"
| "time_source_to_primitive OtherSource = 0x90"
| "time_source_to_primitive InternalOscillator = 0xa0"
| "time_source_to_primitive (SourceProfileSpecific v) = v"
| "time_source_to_primitive (SourceReserved v) = v"

definition time_source_from_primitive :: "byte \<Rightarrow> time_source" where
  "time_source_from_primitive v =
     (if v = 0x10 then AtomicClock else if v = 0x20 then Gnss else if v = 0x30 then TerrestrialRadio
      else if v = 0x39 then SerialTimeCode else if v = 0x40 then SourcePtp else if v = 0x50 then SourceNtp
      else if v = 0x60 then HandSet else if v = 0x90 then OtherSource else if v = 0xa0 then InternalOscillator
      else if 0xf0 \<le> v \<and> v \<le> 0xfe then SourceProfileSpecific v else SourceReserved v)"

text \<open>The values a parser makes.\<close>

definition time_source_wf :: "time_source \<Rightarrow> bool" where
  "time_source_wf s \<longleftrightarrow> time_source_from_primitive (time_source_to_primitive s) = s"

lemma time_source_roundtrip: "time_source_to_primitive (time_source_from_primitive v) = v"
  by (simp add: time_source_from_primitive_def)

lemma time_source_from_primitive_wf: "time_source_wf (time_source_from_primitive v)"
  by (simp add: time_source_wf_def time_source_roundtrip)

end
