(* ===== verification/Ptp_Tlv.thy ===== *)
theory Ptp_Tlv
  imports Ptp_Common
begin

text \<open>
  The extensions of PTP messages (\<^verbatim>\<open>statime-wire/src/common/tlv.rs\<close>): types, single TLVs, the builder,
  the validation of a received set and the iterator over it. A \<^verbatim>\<open>TlvSet\<close> is the slice of bytes it
  wraps. The iterator is modelled by the list of all its items; a consumer that stops early sees
  a prefix of it.
\<close>

section \<open>Types\<close>

datatype tlv_type =
    TlvReserved u16 | TlvManagement | TlvManagementErrorStatus | TlvOrganizationExtension
  | TlvRequestUnicastTransmission | TlvGrantUnicastTransmission | TlvCancelUnicastTransmission
  | TlvAcknowledgeCancelUnicastTransmission | TlvPathTrace | TlvAlternateTimeOffsetIndicator
  | TlvLegacy u16 | TlvExperimental u16 | TlvOrganizationExtensionPropagate
  | TlvEnhancedAccuracyMetrics | TlvOrganizationExtensionDoNotPropagate | TlvL1Sync
  | TlvPortCommunicationAvailability | TlvProtocolAddress | TlvSlaveRxSyncTimingData
  | TlvSlaveRxSyncComputedData | TlvSlaveTxEventTimestamps | TlvCumulativeRateRatio | TlvPad
  | TlvAuthentication | TlvCsptpStatus | TlvCsptpRequest | TlvCsptpResponse

fun tlv_type_to_primitive :: "tlv_type \<Rightarrow> u16" where
  "tlv_type_to_primitive TlvManagement = 0x1"
| "tlv_type_to_primitive TlvManagementErrorStatus = 0x2"
| "tlv_type_to_primitive TlvOrganizationExtension = 0x3"
| "tlv_type_to_primitive TlvRequestUnicastTransmission = 0x4"
| "tlv_type_to_primitive TlvGrantUnicastTransmission = 0x5"
| "tlv_type_to_primitive TlvCancelUnicastTransmission = 0x6"
| "tlv_type_to_primitive TlvAcknowledgeCancelUnicastTransmission = 0x7"
| "tlv_type_to_primitive TlvPathTrace = 0x8"
| "tlv_type_to_primitive TlvAlternateTimeOffsetIndicator = 0x9"
| "tlv_type_to_primitive TlvOrganizationExtensionPropagate = 0x4000"
| "tlv_type_to_primitive TlvEnhancedAccuracyMetrics = 0x4001"
| "tlv_type_to_primitive TlvOrganizationExtensionDoNotPropagate = 0x8000"
| "tlv_type_to_primitive TlvL1Sync = 0x8001"
| "tlv_type_to_primitive TlvPortCommunicationAvailability = 0x8002"
| "tlv_type_to_primitive TlvProtocolAddress = 0x8003"
| "tlv_type_to_primitive TlvSlaveRxSyncTimingData = 0x8004"
| "tlv_type_to_primitive TlvSlaveRxSyncComputedData = 0x8005"
| "tlv_type_to_primitive TlvSlaveTxEventTimestamps = 0x8006"
| "tlv_type_to_primitive TlvCumulativeRateRatio = 0x8007"
| "tlv_type_to_primitive TlvPad = 0x8008"
| "tlv_type_to_primitive TlvAuthentication = 0x8009"
| "tlv_type_to_primitive TlvCsptpStatus = 0xf002"
| "tlv_type_to_primitive TlvCsptpRequest = 0xff00"
| "tlv_type_to_primitive TlvCsptpResponse = 0xff01"
| "tlv_type_to_primitive (TlvReserved v) = v"
| "tlv_type_to_primitive (TlvLegacy v) = v"
| "tlv_type_to_primitive (TlvExperimental v) = v"

definition tlv_type_from_primitive :: "u16 \<Rightarrow> tlv_type" where
  "tlv_type_from_primitive v =
     (if v = 0 \<or> (0x000a \<le> v \<and> v \<le> 0x1fff) \<or> (0x2030 \<le> v \<and> v \<le> 0x3fff) \<or>
         (0x4002 \<le> v \<and> v \<le> 0x7eff) \<or> (0x800a \<le> v \<and> v \<le> 0xf001) \<or> (0xf003 \<le> v \<and> v \<le> 0xfeff) \<or>
         (0xff02 \<le> v \<and> v \<le> 0xffef) \<or> 0xfff0 \<le> v
      then TlvReserved v
      else if 0x2000 \<le> v \<and> v \<le> 0x2003 then TlvLegacy v
      else if (0x2004 \<le> v \<and> v \<le> 0x202f) \<or> (0x7f00 \<le> v \<and> v \<le> 0x7fff) then TlvExperimental v
      else if v = 0x1 then TlvManagement
      else if v = 0x2 then TlvManagementErrorStatus
      else if v = 0x3 then TlvOrganizationExtension
      else if v = 0x4 then TlvRequestUnicastTransmission
      else if v = 0x5 then TlvGrantUnicastTransmission
      else if v = 0x6 then TlvCancelUnicastTransmission
      else if v = 0x7 then TlvAcknowledgeCancelUnicastTransmission
      else if v = 0x8 then TlvPathTrace
      else if v = 0x9 then TlvAlternateTimeOffsetIndicator
      else if v = 0x4000 then TlvOrganizationExtensionPropagate
      else if v = 0x4001 then TlvEnhancedAccuracyMetrics
      else if v = 0x8000 then TlvOrganizationExtensionDoNotPropagate
      else if v = 0x8001 then TlvL1Sync
      else if v = 0x8002 then TlvPortCommunicationAvailability
      else if v = 0x8003 then TlvProtocolAddress
      else if v = 0x8004 then TlvSlaveRxSyncTimingData
      else if v = 0x8005 then TlvSlaveRxSyncComputedData
      else if v = 0x8006 then TlvSlaveTxEventTimestamps
      else if v = 0x8007 then TlvCumulativeRateRatio
      else if v = 0x8008 then TlvPad
      else if v = 0x8009 then TlvAuthentication
      else if v = 0xf002 then TlvCsptpStatus
      else if v = 0xff00 then TlvCsptpRequest
      else TlvCsptpResponse)"

definition announce_propagate :: "tlv_type \<Rightarrow> bool" where
  "announce_propagate t \<longleftrightarrow>
     (let v = tlv_type_to_primitive t in v = 0x0008 \<or> v = 0x0009 \<or> (0x4000 \<le> v \<and> v \<le> 0x7fff))"

text \<open>The values a parser makes.\<close>

definition tlv_type_wf :: "tlv_type \<Rightarrow> bool" where
  "tlv_type_wf t \<longleftrightarrow> tlv_type_from_primitive (tlv_type_to_primitive t) = t"

section \<open>Single TLVs\<close>

record tlv =
  tlv_ty :: tlv_type
  tlv_value :: bytes

definition tlv_wire_size :: "tlv \<Rightarrow> nat" where
  "tlv_wire_size t = 4 + length (tlv_value t)"

definition tlv_serialize :: "tlv \<Rightarrow> serializer" where
  "tlv_serialize t buffer =
     (if length (tlv_value t) \<ge> 2 ^ 16 then Inl Invalid
      else in_turn
        [put_slice BufferTooShort 0 2 (copy_from (u16_to_be (tlv_type_to_primitive (tlv_ty t)))),
         put_slice BufferTooShort 2 4 (copy_from (u16_to_be (of_nat (length (tlv_value t))))),
         put_slice BufferTooShort 4 (4 + length (tlv_value t)) (copy_from (tlv_value t))] buffer)"

definition tlv_length :: "bytes \<Rightarrow> nat" where
  "tlv_length buffer = unat (from_be (slice 2 4 buffer) :: u16)"

definition tlv_deserialize :: "bytes \<Rightarrow> wire_error + tlv" where
  "tlv_deserialize buffer =
     (if length buffer < 4 then Inl BufferTooShort
      else let ty = tlv_type_from_primitive (from_be (slice 0 2 buffer)); len = tlv_length buffer in
        if length buffer < 4 + len then Inl BufferTooShort
        else Inr \<lparr>tlv_ty = ty, tlv_value = slice 4 (4 + len) buffer\<rparr>)"

section \<open>Builders\<close>

type_synonym tlv_set = bytes

record tlv_builder =
  tb_buffer :: bytes
  tb_used :: nat

definition tlv_builder_new :: "bytes \<Rightarrow> tlv_builder" where
  "tlv_builder_new buffer = \<lparr>tb_buffer = buffer, tb_used = 0\<rparr>"

definition tlv_builder_add :: "tlv \<Rightarrow> tlv_builder \<Rightarrow> wire_error + tlv_builder" where
  "tlv_builder_add t b =
     bindR (put_slice WirePanic (tb_used b) (length (tb_buffer b)) (tlv_serialize t) (tb_buffer b)) (\<lambda>buffer.
       Inr \<lparr>tb_buffer = buffer, tb_used = tb_used b + tlv_wire_size t\<rparr>)"

definition tlv_builder_build :: "tlv_builder \<Rightarrow> wire_error + tlv_set" where
  "tlv_builder_build b = index_slice 0 (tb_used b) (tb_buffer b)"

section \<open>Sets\<close>

definition tlv_set_serialize :: "tlv_set \<Rightarrow> serializer" where
  "tlv_set_serialize s = put_slice BufferTooShort 0 (length s) (copy_from s)"

text \<open>The loop of \<^verbatim>\<open>TlvSet::deserialize\<close>, with the rest of the buffer and the total length so far.\<close>

fun tlv_set_loop :: "bytes \<Rightarrow> nat \<Rightarrow> wire_error + nat" where
  "tlv_set_loop buffer total_length =
     (if length buffer > 4 then
        (let len = tlv_length buffer in
         if odd len then Inl Invalid
         else if length buffer < 4 + len then Inl BufferTooShort
         else tlv_set_loop (drop (4 + len) buffer) (total_length + 4 + len))
      else if buffer \<noteq> [] then Inl BufferTooShort
      else Inr total_length)"

declare tlv_set_loop.simps [simp del]

definition tlv_set_deserialize :: "bytes \<Rightarrow> wire_error + tlv_set" where
  "tlv_set_deserialize buffer =
     bindR (tlv_set_loop buffer 0) (\<lambda>total_length. index_slice 0 total_length buffer)"

text \<open>One call of the iterator: the item and the rest, \<open>None\<close> at the end. The items of a set.\<close>

definition tlvs_next :: "bytes \<Rightarrow> (wire_error + tlv \<times> bytes) option" where
  "tlvs_next buffer =
     (if length buffer \<le> 4 then None
      else Some (case tlv_deserialize buffer of
          Inl _ \<Rightarrow> Inl WirePanic
        | Inr t \<Rightarrow> if length buffer < tlv_wire_size t then Inl WirePanic
                   else Inr (t, drop (tlv_wire_size t) buffer)))"

function tlvs :: "tlv_set \<Rightarrow> wire_error + tlv list" where
  "tlvs buffer =
     (case tlvs_next buffer of
        None \<Rightarrow> Inr []
      | Some (Inl e) \<Rightarrow> Inl e
      | Some (Inr (t, rest)) \<Rightarrow> bindR (tlvs rest) (\<lambda>ts. Inr (t # ts)))"
  by pat_completeness auto
termination
  by (relation "measure length")
     (auto simp: tlvs_next_def tlv_wire_size_def split: if_splits sum.splits)

declare tlvs.simps [simp del]

definition announce_propagate_tlvs :: "tlv_set \<Rightarrow> wire_error + tlv list" where
  "announce_propagate_tlvs s = bindR (tlvs s) (\<lambda>ts. Inr (filter (\<lambda>t. announce_propagate (tlv_ty t)) ts))"

section \<open>Reading back\<close>

lemma tlv_type_gap:
  fixes v :: u16
  assumes "\<not> (v = 0 \<or> (0x000a \<le> v \<and> v \<le> 0x1fff) \<or> (0x2030 \<le> v \<and> v \<le> 0x3fff) \<or>
         (0x4002 \<le> v \<and> v \<le> 0x7eff) \<or> (0x800a \<le> v \<and> v \<le> 0xf001) \<or> (0xf003 \<le> v \<and> v \<le> 0xfeff) \<or>
         (0xff02 \<le> v \<and> v \<le> 0xffef) \<or> 0xfff0 \<le> v)"
    and "\<not> (0x2000 \<le> v \<and> v \<le> 0x2003)"
    and "\<not> ((0x2004 \<le> v \<and> v \<le> 0x202f) \<or> (0x7f00 \<le> v \<and> v \<le> 0x7fff))"
    and "v \<noteq> 1" "v \<noteq> 2" "v \<noteq> 3" "v \<noteq> 4" "v \<noteq> 5" "v \<noteq> 6" "v \<noteq> 7" "v \<noteq> 8" "v \<noteq> 9" "v \<noteq> 0x4000" "v \<noteq> 0x4001"
      "v \<noteq> 0x8000" "v \<noteq> 0x8001" "v \<noteq> 0x8002" "v \<noteq> 0x8003" "v \<noteq> 0x8004" "v \<noteq> 0x8005" "v \<noteq> 0x8006" "v \<noteq> 0x8007"
      "v \<noteq> 0x8008" "v \<noteq> 0x8009" "v \<noteq> 0xf002" "v \<noteq> 0xff00"
  shows "v = 0xff01"
  using assms by (simp add: word_le_nat_alt word_unat_eq_iff) presburger

lemma tlv_type_roundtrip: "tlv_type_to_primitive (tlv_type_from_primitive v) = v"
  using tlv_type_gap [of v] by (auto simp: tlv_type_from_primitive_def)

lemma tlv_type_from_primitive_wf [simp]: "tlv_type_wf (tlv_type_from_primitive v)"
  by (simp add: tlv_type_wf_def tlv_type_roundtrip)

definition tlv_bytes :: "tlv \<Rightarrow> bytes" where
  "tlv_bytes t =
     u16_to_be (tlv_type_to_primitive (tlv_ty t)) @ u16_to_be (of_nat (length (tlv_value t))) @ tlv_value t"

definition tlv_wf :: "tlv \<Rightarrow> bool" where
  "tlv_wf t \<longleftrightarrow> tlv_type_wf (tlv_ty t) \<and> length (tlv_value t) < 2 ^ 16"

lemma length_tlv_bytes [simp]: "length (tlv_bytes t) = tlv_wire_size t"
  by (simp add: tlv_bytes_def tlv_wire_size_def)

lemma add_4_eq_Suc': "n + 4 = Suc (Suc (Suc (Suc n)))"
  by simp

lemma tlv_lays: "length (tlv_value t) < 2 ^ 16 \<Longrightarrow> lays (tlv_serialize t) (tlv_bytes t)"
  by (simp add: lays_def tlv_serialize_def tlv_bytes_def splice_def)
     (simp add: add_4_eq_Suc')

lemma tlv_length_bytes:
  "length (tlv_value t) < 2 ^ 16 \<Longrightarrow> tlv_length (tlv_bytes t @ r) = length (tlv_value t)"
  by (simp add: tlv_length_def tlv_bytes_def slice_def unsigned_of_nat take_bit_nat_eq_self)

lemma tlv_read: "tlv_wf t \<Longrightarrow> tlv_deserialize (tlv_bytes t @ r) = Inr t"
  using tlv_length_bytes [of t r]
  by (simp add: tlv_wf_def tlv_type_wf_def tlv_deserialize_def Let_def tlv_wire_size_def)
     (simp add: tlv_bytes_def slice_def)

lemma tlvs_next_bytes:
  "tlv_wf t \<Longrightarrow> tlv_value t \<noteq> [] \<or> r \<noteq> [] \<Longrightarrow> tlvs_next (tlv_bytes t @ r) = Some (Inr (t, r))"
  by (auto simp: tlvs_next_def tlv_read tlv_wire_size_def)

lemma tlv_set_loop_bytes:
  assumes "tlv_wf t" "even (length (tlv_value t))" "tlv_value t \<noteq> [] \<or> r \<noteq> []"
  shows "tlv_set_loop (tlv_bytes t @ r) n = tlv_set_loop r (n + tlv_wire_size t)"
  using assms tlv_length_bytes [of t r]
  by (auto simp: tlv_set_loop.simps [of "tlv_bytes t @ r" n] tlv_wf_def tlv_wire_size_def Let_def ac_simps)

text \<open>The lists of TLVs that a set can carry: even lengths, and a last one that is not empty.\<close>

definition tlv_list_ok :: "tlv list \<Rightarrow> bool" where
  "tlv_list_ok ts \<longleftrightarrow> list_all (\<lambda>t. tlv_wf t \<and> even (length (tlv_value t))) ts \<and>
     (ts \<noteq> [] \<longrightarrow> tlv_value (last ts) \<noteq> [])"

lemma tlv_list_ok_Nil [simp]: "tlv_list_ok []"
  by (simp add: tlv_list_ok_def)

lemma tlv_list_ok_Cons:
  "tlv_list_ok (t # ts) \<longleftrightarrow> tlv_wf t \<and> even (length (tlv_value t)) \<and> tlv_list_ok ts \<and>
     (tlv_value t \<noteq> [] \<or> ts \<noteq> [])"
  by (auto simp: tlv_list_ok_def)

abbreviation tlv_set_of :: "tlv list \<Rightarrow> tlv_set" where
  "tlv_set_of ts \<equiv> concat (map tlv_bytes ts)"

lemma tlv_bytes_nonempty [simp]: "tlv_bytes t \<noteq> []"
  by (simp add: tlv_bytes_def eval_nat_numeral)

lemma tlv_set_of_empty [simp]: "tlv_set_of ts = [] \<longleftrightarrow> ts = []"
  by (cases ts) simp_all

lemma tlv_set_loop_of: "tlv_list_ok ts \<Longrightarrow> tlv_set_loop (tlv_set_of ts) n = Inr (n + length (tlv_set_of ts))"
proof (induction ts arbitrary: n)
  case Nil
  then show ?case by (simp add: tlv_set_loop.simps)
next
  case (Cons t ts)
  then show ?case using tlv_set_loop_bytes [of t "tlv_set_of ts" n] by (simp add: tlv_list_ok_Cons)
qed

lemma tlvs_of: "tlv_list_ok ts \<Longrightarrow> tlvs (tlv_set_of ts) = Inr ts"
proof (induction ts)
  case Nil
  then show ?case by (simp add: tlvs.simps tlvs_next_def)
next
  case (Cons t ts)
  then show ?case
    using tlvs_next_bytes [of t "tlv_set_of ts"] by (subst tlvs.simps) (simp add: tlv_list_ok_Cons)
qed

lemma tlv_front:
  assumes "4 \<le> length b" "4 + tlv_length b \<le> length b"
  shows "\<exists>t. tlv_wf t \<and> length (tlv_value t) = tlv_length b \<and> b = tlv_bytes t @ drop (4 + tlv_length b) b"
proof -
  let ?n = "tlv_length b"
  let ?t = "\<lparr>tlv_ty = tlv_type_from_primitive (from_be (slice 0 2 b)), tlv_value = slice 4 (4 + ?n) b\<rparr>"
  have n: "?n < 2 ^ 16" by (simp add: tlv_length_def unat_lt2p [where 'a = 16, simplified])
  have "length (slice 0 2 b) = 2" "length (slice 2 4 b) = 2" using assms by simp_all
  moreover have "of_nat ?n = (from_be (slice 2 4 b) :: u16)" by (simp add: tlv_length_def)
  ultimately have "tlv_bytes ?t = slice 0 2 b @ slice 2 4 b @ slice 4 (4 + ?n) b"
    using assms by (simp add: tlv_bytes_def tlv_type_roundtrip)
  also have "\<dots> = take (4 + ?n) b" 
    using take_add [of 2 2 b] take_add [of 4 ?n b] by (simp add: slice_def)
  finally have "b = tlv_bytes ?t @ drop (4 + ?n) b" by simp
  moreover have "tlv_wf ?t" using n assms by (simp add: tlv_wf_def)
  moreover have "length (tlv_value ?t) = ?n" using assms by simp
  ultimately show ?thesis by blast
qed

lemma tlv_set_loop_ok:
  "tlv_set_loop b n = Inr m \<Longrightarrow> \<exists>ts. tlv_list_ok ts \<and> b = tlv_set_of ts \<and> m = n + length b"
proof (induction b n rule: tlv_set_loop.induct)
  case (1 b n)
  show ?case
  proof (cases "length b > 4")
    case False
    then have "b = [] \<and> m = n" using 1(2) by (simp add: tlv_set_loop.simps [of b n] split: if_splits)
    then show ?thesis by (intro exI [of _ "[]"]) simp
  next
    case True
    let ?n = "tlv_length b"
    have ev: "even ?n" and le: "4 + ?n \<le> length b"
      and rest: "tlv_set_loop (drop (4 + ?n) b) (n + 4 + ?n) = Inr m"
      using 1(2) True by (simp_all add: tlv_set_loop.simps [of b n] Let_def split: if_splits)
    obtain ts where ts: "tlv_list_ok ts" "drop (4 + ?n) b = tlv_set_of ts"
      "m = n + length b"
      using 1(1) [OF True refl _ _ rest] ev le by (auto simp: not_less)
    obtain t where t: "tlv_wf t" "length (tlv_value t) = ?n" "b = tlv_bytes t @ drop (4 + ?n) b"
      using tlv_front [of b] True le by auto
    have "tlv_value t \<noteq> [] \<or> ts \<noteq> []" using True t ts(2) by (auto simp: tlv_wire_size_def)
    then have "tlv_list_ok (t # ts)" using t ts ev by (simp add: tlv_list_ok_Cons)
    moreover have "b = tlv_set_of (t # ts)" using t ts by simp
    ultimately show ?thesis using ts(3) by blast
  qed
qed

lemma tlv_set_deserialize_iff:
  "tlv_set_deserialize b = Inr s \<longleftrightarrow> s = b \<and> (\<exists>ts. tlv_list_ok ts \<and> b = tlv_set_of ts \<and> tlvs b = Inr ts)"
proof
  assume "tlv_set_deserialize b = Inr s"
  then obtain m where m: "tlv_set_loop b 0 = Inr m" "index_slice 0 m b = Inr s"
    by (auto simp: tlv_set_deserialize_def result_simps)
  obtain ts where "tlv_list_ok ts" "b = tlv_set_of ts" "m = length b" using tlv_set_loop_ok [OF m(1)] by auto
  with m show "s = b \<and> (\<exists>ts. tlv_list_ok ts \<and> b = tlv_set_of ts \<and> tlvs b = Inr ts)"
    by (auto simp: tlvs_of slice_def)
next
  assume "s = b \<and> (\<exists>ts. tlv_list_ok ts \<and> b = tlv_set_of ts \<and> tlvs b = Inr ts)"
  then show "tlv_set_deserialize b = Inr s"
    using tlv_set_loop_of [where n = 0] by (auto simp: tlv_set_deserialize_def slice_def)
qed

lemma tlv_set_loop_no_panic: "tlv_set_loop b n \<noteq> Inl WirePanic"
proof (induction b n rule: tlv_set_loop.induct)
  case (1 b n)
  then show ?case by (auto simp: tlv_set_loop.simps [of b n] Let_def)
qed

lemma tlv_set_no_panic: "tlv_set_deserialize b \<noteq> Inl WirePanic"
proof
  assume p: "tlv_set_deserialize b = Inl WirePanic"
  then obtain m where m: "tlv_set_loop b 0 = Inr m" "index_slice 0 m b = Inl WirePanic"
    by (auto simp: tlv_set_deserialize_def result_simps tlv_set_loop_no_panic)
  then have "m = length b" using tlv_set_loop_ok by fastforce
  with m show False by simp
qed

text \<open>
  C39: the validation of received extensions accepts exactly the encodings of lists of TLVs of even lengths
  whose last one is not empty, and the iterator over an accepted set returns exactly that list without
  panicking.
\<close>

theorem tlv_set_accepts_encodings:
  "tlv_set_deserialize b = Inr s \<longleftrightarrow> s = b \<and> (\<exists>ts. tlv_list_ok ts \<and> b = tlv_set_of ts \<and> tlvs b = Inr ts)"
  by (rule tlv_set_deserialize_iff)

section \<open>Building sets\<close>

primrec tlv_builder_adds :: "tlv list \<Rightarrow> tlv_builder \<Rightarrow> wire_error + tlv_builder" where
  "tlv_builder_adds [] b = Inr b"
| "tlv_builder_adds (t # ts) b = bindR (tlv_builder_add t b) (tlv_builder_adds ts)"

definition builder_holds :: "tlv_builder \<Rightarrow> nat \<Rightarrow> tlv list \<Rightarrow> bool" where
  "builder_holds b n ts \<longleftrightarrow> length (tb_buffer b) = n \<and> tb_used b = length (tlv_set_of ts) \<and> tb_used b \<le> n \<and>
     take (tb_used b) (tb_buffer b) = tlv_set_of ts"

lemma builder_holds_new [simp]: "builder_holds (tlv_builder_new buffer) (length buffer) []"
  by (simp add: builder_holds_def tlv_builder_new_def)

lemma tlv_builder_add_ok:
  assumes "tb_used b + tlv_wire_size t \<le> length (tb_buffer b)" "length (tlv_value t) < 2 ^ 16"
  shows "tlv_builder_add t b =
    Inr \<lparr>tb_buffer = splice (tb_used b) (tlv_bytes t) (tb_buffer b), tb_used = tb_used b + tlv_wire_size t\<rparr>"
  using assms laysD [OF tlv_lays, of t "drop (tb_used b) (tb_buffer b)"]
  by (simp add: tlv_builder_add_def put_slice_def get_range_def slice_def splice_def ac_simps)

lemma tlv_builder_add_holds:
  assumes "builder_holds b n ts" "length (tlv_value t) < 2 ^ 16" "length (tlv_set_of (ts @ [t])) \<le> n"
  shows "\<exists>b'. tlv_builder_add t b = Inr b' \<and> builder_holds b' n (ts @ [t])"
  using assms take_splice [of "tb_used b" "tlv_bytes t" "tb_buffer b"]
  by (auto simp: builder_holds_def tlv_builder_add_ok)

lemma tlv_builder_build_holds: "builder_holds b n ts \<Longrightarrow> tlv_builder_build b = Inr (tlv_set_of ts)"
  by (auto simp: builder_holds_def tlv_builder_build_def slice_def)

lemma tlv_builder_adds_holds:
  assumes "builder_holds b n us" "list_all (\<lambda>t. length (tlv_value t) < 2 ^ 16) ts"
    and "length (tlv_set_of (us @ ts)) \<le> n"
  shows "\<exists>b'. tlv_builder_adds ts b = Inr b' \<and> builder_holds b' n (us @ ts)"
  using assms
proof (induction ts arbitrary: b us)
  case Nil
  then show ?case by simp
next
  case (Cons t ts)
  then obtain b' where "tlv_builder_add t b = Inr b'" "builder_holds b' n (us @ [t])"
    using tlv_builder_add_holds [of b n us t] by auto
  with Cons.IH [of b' "us @ [t]"] Cons.prems show ?case by simp
qed

text \<open>
  A set that is built from TLVs of even lengths with a last one that is not empty is accepted by a
  receiver, which reads the TLVs in the order they were added; it is built whenever the buffer has room
  for it.
\<close>

lemma tlv_builder_reads_back:
  assumes "tlv_list_ok ts" and "length (tlv_set_of ts) \<le> length buffer"
  shows "\<exists>s. bindR (tlv_builder_adds ts (tlv_builder_new buffer)) tlv_builder_build = Inr s \<and>
    tlv_set_deserialize s = Inr s \<and> tlvs s = Inr ts"
proof -
  have "list_all (\<lambda>t. length (tlv_value t) < 2 ^ 16) ts"
    using assms(1) by (auto simp: tlv_list_ok_def tlv_wf_def list_all_iff)
  then obtain b where "tlv_builder_adds ts (tlv_builder_new buffer) = Inr b"
    "builder_holds b (length buffer) ts"
    using tlv_builder_adds_holds [OF builder_holds_new, of ts buffer] assms(2) by auto
  then show ?thesis
    using assms(1) by (auto simp: tlv_builder_build_holds tlvs_of tlv_set_deserialize_iff)
qed

text \<open>
  C40: an empty TLV at the end of a set is lost: the builder accepts it, the set it builds is refused as
  too short by a receiver, and the iterator over the set does not return it.
\<close>

theorem trailing_empty_tlv_is_lost:
  assumes "4 \<le> length buffer"
  shows "\<exists>s. bindR (tlv_builder_add \<lparr>tlv_ty = ty, tlv_value = []\<rparr> (tlv_builder_new buffer)) tlv_builder_build = Inr s \<and>
    tlv_set_deserialize s = Inl BufferTooShort \<and> tlvs s = Inr []"
proof -
  let ?t = "\<lparr>tlv_ty = ty, tlv_value = []\<rparr>"
  obtain b where "tlv_builder_add ?t (tlv_builder_new buffer) = Inr b"
    "builder_holds b (length buffer) [?t]"
    using tlv_builder_add_holds [OF builder_holds_new, of ?t buffer] assms by (auto simp: tlv_wire_size_def)
  then show ?thesis
    by (simp add: tlv_builder_build_holds tlv_set_deserialize_def tlv_set_loop.simps [of "tlv_bytes ?t"]
        tlvs.simps [of "tlv_bytes ?t"] tlvs_next_def tlv_wire_size_def)
qed

theorem trailing_empty_tlv_is_lost_witness:
  "4 \<le> length (replicate 4 0 :: bytes) \<and>
   (\<exists>s. bindR (tlv_builder_add \<lparr>tlv_ty = TlvPad, tlv_value = []\<rparr> (tlv_builder_new (replicate 4 0))) tlv_builder_build = Inr s \<and>
    tlv_set_deserialize s = Inl BufferTooShort \<and> tlvs s = Inr [])"
  using trailing_empty_tlv_is_lost [of "replicate 4 0" TlvPad] by simp

end
