(* ===== verification/Ptp_Message.thy ===== *)
theory Ptp_Message
  imports Ptp_Tlv
begin

text \<open>
  PTP messages (\<^verbatim>\<open>statime-wire/src/messages\<close>): the header, the ten bodies and the whole message with its
  extensions. A struct with a single field is that field. Signed fields (\<^verbatim>\<open>i8\<close>, \<^verbatim>\<open>i16\<close>) are kept as the
  words of their two's complement.
\<close>

section \<open>Message types and bodies\<close>

datatype message_type =
    TySync | TyDelayReq | TyPDelayReq | TyPDelayResp | TyFollowUp | TyDelayResp | TyPDelayRespFollowUp
  | TyAnnounce | TySignaling | TyManagement

fun message_type_to_u8 :: "message_type \<Rightarrow> byte" where
  "message_type_to_u8 TySync = 0x0"
| "message_type_to_u8 TyDelayReq = 0x1"
| "message_type_to_u8 TyPDelayReq = 0x2"
| "message_type_to_u8 TyPDelayResp = 0x3"
| "message_type_to_u8 TyFollowUp = 0x8"
| "message_type_to_u8 TyDelayResp = 0x9"
| "message_type_to_u8 TyPDelayRespFollowUp = 0xa"
| "message_type_to_u8 TyAnnounce = 0xb"
| "message_type_to_u8 TySignaling = 0xc"
| "message_type_to_u8 TyManagement = 0xd"

definition message_type_try_from :: "byte \<Rightarrow> wire_error + message_type" where
  "message_type_try_from v =
     (if v = 0x0 then Inr TySync else if v = 0x1 then Inr TyDelayReq else if v = 0x2 then Inr TyPDelayReq
      else if v = 0x3 then Inr TyPDelayResp else if v = 0x8 then Inr TyFollowUp
      else if v = 0x9 then Inr TyDelayResp else if v = 0xa then Inr TyPDelayRespFollowUp
      else if v = 0xb then Inr TyAnnounce else if v = 0xc then Inr TySignaling
      else if v = 0xd then Inr TyManagement else Inl Invalid)"

record announce_message =
  an_origin_timestamp :: ptp_timestamp
  an_current_utc_offset :: u16
  an_grandmaster_priority_1 :: byte
  an_grandmaster_clock_quality :: clock_quality
  an_grandmaster_priority_2 :: byte
  an_grandmaster_identity :: clock_identity
  an_steps_removed :: u16
  an_time_source :: time_source

record timed_response =
  tr_timestamp :: ptp_timestamp
  tr_requesting_port_identity :: port_identity

datatype management_action =
  ActionReserved | ActionGET | ActionSET | ActionRESPONSE | ActionCOMMAND | ActionACKNOWLEDGE

fun management_action_to_primitive :: "management_action \<Rightarrow> byte" where
  "management_action_to_primitive ActionGET = 0x0"
| "management_action_to_primitive ActionSET = 0x1"
| "management_action_to_primitive ActionRESPONSE = 0x2"
| "management_action_to_primitive ActionCOMMAND = 0x3"
| "management_action_to_primitive ActionACKNOWLEDGE = 0x4"
| "management_action_to_primitive ActionReserved = 0x5"

definition management_action_from_primitive :: "byte \<Rightarrow> management_action" where
  "management_action_from_primitive v =
     (if v = 0x0 then ActionGET else if v = 0x1 then ActionSET else if v = 0x2 then ActionRESPONSE
      else if v = 0x3 then ActionCOMMAND else if v = 0x4 then ActionACKNOWLEDGE else ActionReserved)"

record management_message =
  mg_target_port_identity :: port_identity
  mg_starting_boundary_hops :: byte
  mg_boundary_hops :: byte
  mg_action :: management_action

text \<open>The bodies; the three responses with a timestamp and a port identity share their record.\<close>

datatype message_body =
    Sync ptp_timestamp
  | DelayReq ptp_timestamp
  | PDelayReq ptp_timestamp
  | PDelayResp timed_response
  | FollowUp ptp_timestamp
  | DelayResp timed_response
  | PDelayRespFollowUp timed_response
  | Announce announce_message
  | Signaling port_identity
  | Management management_message

fun body_wire_size :: "message_body \<Rightarrow> nat" where
  "body_wire_size (Sync _) = 10"
| "body_wire_size (DelayReq _) = 10"
| "body_wire_size (PDelayReq _) = 20"
| "body_wire_size (PDelayResp _) = 20"
| "body_wire_size (FollowUp _) = 10"
| "body_wire_size (DelayResp _) = 20"
| "body_wire_size (PDelayRespFollowUp _) = 20"
| "body_wire_size (Announce _) = 30"
| "body_wire_size (Signaling _) = 10"
| "body_wire_size (Management _) = 14"

fun content_type :: "message_body \<Rightarrow> message_type" where
  "content_type (Sync _) = TySync"
| "content_type (DelayReq _) = TyDelayReq"
| "content_type (PDelayReq _) = TyPDelayReq"
| "content_type (PDelayResp _) = TyPDelayResp"
| "content_type (FollowUp _) = TyFollowUp"
| "content_type (DelayResp _) = TyDelayResp"
| "content_type (PDelayRespFollowUp _) = TyPDelayRespFollowUp"
| "content_type (Announce _) = TyAnnounce"
| "content_type (Signaling _) = TySignaling"
| "content_type (Management _) = TyManagement"

section \<open>Serialising the bodies\<close>

definition need :: "nat \<Rightarrow> serializer \<Rightarrow> serializer" where
  "need n f buffer = (if length buffer < n then Inl BufferTooShort else f buffer)"

definition origin_serialize :: "ptp_timestamp \<Rightarrow> serializer" where
  "origin_serialize t = put_slice BufferTooShort 0 10 (ptp_timestamp_serialize t)"

definition p_delay_req_serialize :: "ptp_timestamp \<Rightarrow> serializer" where
  "p_delay_req_serialize t =
     need 20 (in_turn [put_slice WirePanic 0 10 (ptp_timestamp_serialize t),
                       put_slice WirePanic 10 20 (\<lambda>s. Inr (replicate (length s) 0))])"

definition delay_resp_serialize :: "timed_response \<Rightarrow> serializer" where
  "delay_resp_serialize m =
     in_turn [put_slice BufferTooShort 0 10 (ptp_timestamp_serialize (tr_timestamp m)),
              put_slice BufferTooShort 10 20 (port_identity_serialize (tr_requesting_port_identity m))]"

definition p_delay_resp_serialize :: "timed_response \<Rightarrow> serializer" where
  "p_delay_resp_serialize m =
     need 20 (in_turn [put_slice WirePanic 0 10 (ptp_timestamp_serialize (tr_timestamp m)),
                       put_slice WirePanic 10 20 (port_identity_serialize (tr_requesting_port_identity m))])"

text \<open>The byte 12 of an announce message is not written.\<close>

definition announce_serialize :: "announce_message \<Rightarrow> serializer" where
  "announce_serialize m =
     need 30 (in_turn
       [put_slice WirePanic 0 10 (ptp_timestamp_serialize (an_origin_timestamp m)),
        put_slice WirePanic 10 12 (copy_from (u16_to_be (an_current_utc_offset m))),
        put_slice WirePanic 13 14 (copy_from [an_grandmaster_priority_1 m]),
        put_slice WirePanic 14 18 (clock_quality_serialize (an_grandmaster_clock_quality m)),
        put_slice WirePanic 18 19 (copy_from [an_grandmaster_priority_2 m]),
        put_slice WirePanic 19 27 (clock_identity_serialize (an_grandmaster_identity m)),
        put_slice WirePanic 27 29 (copy_from (u16_to_be (an_steps_removed m))),
        put_slice WirePanic 29 30 (copy_from [time_source_to_primitive (an_time_source m)])])"

definition signaling_serialize :: "port_identity \<Rightarrow> serializer" where
  "signaling_serialize p = need 10 (put_slice WirePanic 0 10 (port_identity_serialize p))"

text \<open>The byte 10 of a management message is not written.\<close>

definition management_serialize :: "management_message \<Rightarrow> serializer" where
  "management_serialize m =
     in_turn [put_slice BufferTooShort 0 10 (port_identity_serialize (mg_target_port_identity m)),
              put_slice BufferTooShort 11 12 (copy_from [mg_starting_boundary_hops m]),
              put_slice BufferTooShort 12 13 (copy_from [mg_boundary_hops m]),
              put_slice BufferTooShort 13 14 (copy_from [management_action_to_primitive (mg_action m)])]"

definition body_serialize :: "message_body \<Rightarrow> bytes \<Rightarrow> wire_error + nat \<times> bytes" where
  "body_serialize b buffer =
     bindR (case b of
         Sync t \<Rightarrow> origin_serialize t buffer
       | DelayReq t \<Rightarrow> origin_serialize t buffer
       | PDelayReq t \<Rightarrow> p_delay_req_serialize t buffer
       | PDelayResp m \<Rightarrow> p_delay_resp_serialize m buffer
       | FollowUp t \<Rightarrow> origin_serialize t buffer
       | DelayResp m \<Rightarrow> delay_resp_serialize m buffer
       | PDelayRespFollowUp m \<Rightarrow> p_delay_resp_serialize m buffer
       | Announce m \<Rightarrow> announce_serialize m buffer
       | Signaling p \<Rightarrow> signaling_serialize p buffer
       | Management m \<Rightarrow> management_serialize m buffer)
     (\<lambda>buffer. Inr (body_wire_size b, buffer))"

section \<open>Parsing the bodies\<close>

definition origin_deserialize :: "bytes \<Rightarrow> wire_error + ptp_timestamp" where
  "origin_deserialize buffer = bindR (get_slice 0 10 buffer) ptp_timestamp_deserialize"

definition p_delay_req_deserialize :: "bytes \<Rightarrow> wire_error + ptp_timestamp" where
  "p_delay_req_deserialize buffer = bindR (get_slice 0 20 buffer) ptp_timestamp_deserialize"

definition timed_response_at :: "bytes \<Rightarrow> wire_error + timed_response" where
  "timed_response_at buffer =
     bindR (bindR (index_slice 0 10 buffer) ptp_timestamp_deserialize) (\<lambda>t.
     bindR (bindR (index_slice 10 20 buffer) port_identity_deserialize) (\<lambda>p.
       Inr \<lparr>tr_timestamp = t, tr_requesting_port_identity = p\<rparr>))"

definition delay_resp_deserialize :: "bytes \<Rightarrow> wire_error + timed_response" where
  "delay_resp_deserialize buffer = bindR (get_slice 0 20 buffer) timed_response_at"

definition p_delay_resp_deserialize :: "bytes \<Rightarrow> wire_error + timed_response" where
  "p_delay_resp_deserialize buffer =
     (if length buffer < 20 then Inl BufferTooShort else timed_response_at buffer)"

definition announce_deserialize :: "bytes \<Rightarrow> wire_error + announce_message" where
  "announce_deserialize buffer =
     (if length buffer < 30 then Inl BufferTooShort
      else
        bindR (bindR (index_slice 0 10 buffer) ptp_timestamp_deserialize) (\<lambda>t.
        bindR (index_slice 10 12 buffer) (\<lambda>utc.
        bindR (index_byte 13 buffer) (\<lambda>p1.
        bindR (bindR (index_slice 14 18 buffer) clock_quality_deserialize) (\<lambda>q.
        bindR (index_byte 18 buffer) (\<lambda>p2.
        bindR (bindR (index_slice 19 27 buffer) clock_identity_deserialize) (\<lambda>c.
        bindR (index_slice 27 29 buffer) (\<lambda>steps.
        bindR (index_byte 29 buffer) (\<lambda>ts.
          Inr \<lparr>an_origin_timestamp = t, an_current_utc_offset = from_be utc,
               an_grandmaster_priority_1 = p1, an_grandmaster_clock_quality = q,
               an_grandmaster_priority_2 = p2, an_grandmaster_identity = c,
               an_steps_removed = from_be steps, an_time_source = time_source_from_primitive ts\<rparr>)))))))))"

definition signaling_deserialize :: "bytes \<Rightarrow> wire_error + port_identity" where
  "signaling_deserialize buffer = bindR (get_slice 0 10 buffer) port_identity_deserialize"

definition management_deserialize :: "bytes \<Rightarrow> wire_error + management_message" where
  "management_deserialize buffer =
     (if length buffer < 14 then Inl BufferTooShort
      else
        bindR (bindR (index_slice 0 10 buffer) port_identity_deserialize) (\<lambda>p.
        bindR (index_byte 11 buffer) (\<lambda>s.
        bindR (index_byte 12 buffer) (\<lambda>h.
        bindR (index_byte 13 buffer) (\<lambda>a.
          Inr \<lparr>mg_target_port_identity = p, mg_starting_boundary_hops = s, mg_boundary_hops = h,
               mg_action = management_action_from_primitive a\<rparr>)))))"

fun body_deserialize :: "message_type \<Rightarrow> bytes \<Rightarrow> wire_error + message_body" where
  "body_deserialize TySync buffer = bindR (origin_deserialize buffer) (\<lambda>m. Inr (Sync m))"
| "body_deserialize TyDelayReq buffer = bindR (origin_deserialize buffer) (\<lambda>m. Inr (DelayReq m))"
| "body_deserialize TyPDelayReq buffer = bindR (p_delay_req_deserialize buffer) (\<lambda>m. Inr (PDelayReq m))"
| "body_deserialize TyPDelayResp buffer = bindR (p_delay_resp_deserialize buffer) (\<lambda>m. Inr (PDelayResp m))"
| "body_deserialize TyFollowUp buffer = bindR (origin_deserialize buffer) (\<lambda>m. Inr (FollowUp m))"
| "body_deserialize TyDelayResp buffer = bindR (delay_resp_deserialize buffer) (\<lambda>m. Inr (DelayResp m))"
| "body_deserialize TyPDelayRespFollowUp buffer =
     bindR (p_delay_resp_deserialize buffer) (\<lambda>m. Inr (PDelayRespFollowUp m))"
| "body_deserialize TyAnnounce buffer = bindR (announce_deserialize buffer) (\<lambda>m. Inr (Announce m))"
| "body_deserialize TySignaling buffer = bindR (signaling_deserialize buffer) (\<lambda>m. Inr (Signaling m))"
| "body_deserialize TyManagement buffer = bindR (management_deserialize buffer) (\<lambda>m. Inr (Management m))"

section \<open>Headers\<close>

record ptp_version =
  pv_major :: byte
  pv_minor :: byte

definition ptp_version_new :: "byte \<Rightarrow> byte \<Rightarrow> wire_error + ptp_version" where
  "ptp_version_new major minor =
     (if major \<ge> 0x10 \<or> minor \<ge> 0x10 then Inl Invalid else Inr \<lparr>pv_major = major, pv_minor = minor\<rparr>)"

definition version_as_byte :: "ptp_version \<Rightarrow> byte" where
  "version_as_byte v = push_bit 4 (pv_minor v) OR pv_major v"

definition version_from_byte :: "byte \<Rightarrow> ptp_version" where
  "version_from_byte b = \<lparr>pv_major = b AND 0x0f, pv_minor = drop_bit 4 b\<rparr>"

text \<open>The twelve bits of an \<^verbatim>\<open>SdoId\<close>.\<close>

type_synonym sdo_id = u16

definition sdo_id_try_from :: "u16 \<Rightarrow> wire_error + sdo_id" where
  "sdo_id_try_from v = (if v \<le> 0xfff then Inr v else Inl Invalid)"

definition sdo_high_byte :: "sdo_id \<Rightarrow> byte" where
  "sdo_high_byte s = ucast (drop_bit 8 s)"

definition sdo_low_byte :: "sdo_id \<Rightarrow> byte" where
  "sdo_low_byte s = ucast (s AND 0xFF)"

record ptp_header =
  ph_sdo_id :: sdo_id
  ph_version :: ptp_version
  ph_domain_number :: byte
  ph_alternate_master_flag :: bool
  ph_two_step_flag :: bool
  ph_unicast_flag :: bool
  ph_ptp_profile_specific_1 :: bool
  ph_ptp_profile_specific_2 :: bool
  ph_leap61 :: bool
  ph_leap59 :: bool
  ph_current_utc_offset_valid :: bool
  ph_ptp_timescale :: bool
  ph_time_tracable :: bool
  ph_frequency_tracable :: bool
  ph_synchronization_uncertain :: bool
  ph_correction_field :: time_interval
  ph_source_port_identity :: port_identity
  ph_sequence_id :: u16
  ph_log_message_interval :: byte

record deserialized_header =
  dh_header :: ptp_header
  dh_message_type :: message_type
  dh_message_length :: u16

definition ptp_header_new :: "byte \<Rightarrow> ptp_header" where
  "ptp_header_new minor_ptp_version =
     \<lparr>ph_sdo_id = 0, ph_version = \<lparr>pv_major = 2, pv_minor = minor_ptp_version\<rparr>, ph_domain_number = 0,
      ph_alternate_master_flag = False, ph_two_step_flag = False, ph_unicast_flag = False,
      ph_ptp_profile_specific_1 = False, ph_ptp_profile_specific_2 = False, ph_leap61 = False,
      ph_leap59 = False, ph_current_utc_offset_valid = False, ph_ptp_timescale = False,
      ph_time_tracable = False, ph_frequency_tracable = False, ph_synchronization_uncertain = False,
      ph_correction_field = 0, ph_source_port_identity = port_identity_default, ph_sequence_id = 0,
      ph_log_message_interval = 0\<rparr>"

definition flags_first :: "ptp_header \<Rightarrow> byte" where
  "flags_first h =
     of_bool (ph_alternate_master_flag h) OR push_bit 1 (of_bool (ph_two_step_flag h)) OR
     push_bit 2 (of_bool (ph_unicast_flag h)) OR push_bit 5 (of_bool (ph_ptp_profile_specific_1 h)) OR
     push_bit 6 (of_bool (ph_ptp_profile_specific_2 h))"

definition flags_second :: "ptp_header \<Rightarrow> byte" where
  "flags_second h =
     of_bool (ph_leap61 h) OR push_bit 1 (of_bool (ph_leap59 h)) OR
     push_bit 2 (of_bool (ph_current_utc_offset_valid h)) OR push_bit 3 (of_bool (ph_ptp_timescale h)) OR
     push_bit 4 (of_bool (ph_time_tracable h)) OR push_bit 5 (of_bool (ph_frequency_tracable h)) OR
     push_bit 6 (of_bool (ph_synchronization_uncertain h))"

definition serialize_header :: "ptp_header \<Rightarrow> message_type \<Rightarrow> nat \<Rightarrow> serializer" where
  "serialize_header h ty content_length buffer =
     (if content_length + 34 \<ge> 2 ^ 16 then Inl Invalid
      else in_turn
        [put_slice WirePanic 0 1 (copy_from [push_bit 4 (sdo_high_byte (ph_sdo_id h)) OR
           (message_type_to_u8 ty AND 0x0f)]),
         put_slice WirePanic 1 2 (copy_from [version_as_byte (ph_version h)]),
         put_slice WirePanic 2 4 (copy_from (u16_to_be (of_nat (content_length + 34)))),
         put_slice WirePanic 4 5 (copy_from [ph_domain_number h]),
         put_slice WirePanic 5 6 (copy_from [sdo_low_byte (ph_sdo_id h)]),
         put_slice WirePanic 6 7 (copy_from [flags_first h]),
         put_slice WirePanic 7 8 (copy_from [flags_second h]),
         put_slice WirePanic 8 16 (time_interval_serialize (ph_correction_field h)),
         put_slice WirePanic 16 20 (copy_from [0, 0, 0, 0]),
         put_slice WirePanic 20 30 (port_identity_serialize (ph_source_port_identity h)),
         put_slice WirePanic 30 32 (copy_from (u16_to_be (ph_sequence_id h))),
         put_slice WirePanic 32 33 (copy_from [0]),
         put_slice WirePanic 33 34 (copy_from [ph_log_message_interval h])] buffer)"

definition flag_set :: "byte \<Rightarrow> nat \<Rightarrow> bool" where
  "flag_set b k \<longleftrightarrow> b AND push_bit k 1 > 0"

definition deserialize_header :: "bytes \<Rightarrow> wire_error + deserialized_header" where
  "deserialize_header buffer =
     (if length buffer < 34 then Inl BufferTooShort
      else
        let version = version_from_byte (buffer ! 1);
            sdo = push_bit 4 (ucast (buffer ! 0 AND 0xf0)) OR ucast (buffer ! 5) in
        bindR (bindR (index_slice 8 16 buffer) time_interval_deserialize) (\<lambda>correction.
        bindR (bindR (index_slice 20 30 buffer) port_identity_deserialize) (\<lambda>port.
        bindR (index_slice 30 32 buffer) (\<lambda>seq.
        bindR (message_type_try_from (buffer ! 0 AND 0x0f)) (\<lambda>ty.
        bindR (index_slice 2 4 buffer) (\<lambda>len.
          Inr \<lparr>dh_header =
            \<lparr>ph_sdo_id = sdo, ph_version = version, ph_domain_number = buffer ! 4,
             ph_alternate_master_flag = flag_set (buffer ! 6) 0, ph_two_step_flag = flag_set (buffer ! 6) 1,
             ph_unicast_flag = flag_set (buffer ! 6) 2, ph_ptp_profile_specific_1 = flag_set (buffer ! 6) 5,
             ph_ptp_profile_specific_2 = flag_set (buffer ! 6) 6, ph_leap61 = flag_set (buffer ! 7) 0,
             ph_leap59 = flag_set (buffer ! 7) 1, ph_current_utc_offset_valid = flag_set (buffer ! 7) 2,
             ph_ptp_timescale = flag_set (buffer ! 7) 3, ph_time_tracable = flag_set (buffer ! 7) 4,
             ph_frequency_tracable = flag_set (buffer ! 7) 5,
             ph_synchronization_uncertain = flag_set (buffer ! 7) 6, ph_correction_field = correction,
             ph_source_port_identity = port, ph_sequence_id = from_be seq,
             ph_log_message_interval = buffer ! 33\<rparr>,
            dh_message_type = ty, dh_message_length = from_be len\<rparr>))))))"

section \<open>Messages\<close>

record ptp_message =
  pm_header :: ptp_header
  pm_body :: message_body
  pm_suffix :: tlv_set

definition is_compatible :: "bytes \<Rightarrow> bool" where
  "is_compatible buffer \<longleftrightarrow> length buffer \<ge> 2 \<and> buffer ! 1 AND 0xf = 2"

definition message_wire_size :: "ptp_message \<Rightarrow> nat" where
  "message_wire_size m = 34 + body_wire_size (pm_body m) + length (pm_suffix m)"

definition message_serialize :: "ptp_message \<Rightarrow> bytes \<Rightarrow> wire_error + nat \<times> bytes" where
  "message_serialize m buffer =
     (if length buffer < 34 then Inl BufferTooShort
      else let header = take 34 buffer; rest = drop 34 buffer; n = body_wire_size (pm_body m) in
        if length rest < n then Inl BufferTooShort
        else
          bindR (serialize_header (pm_header m) (content_type (pm_body m)) (n + length (pm_suffix m)) header) (\<lambda>header.
          bindR (body_serialize (pm_body m) (take n rest)) (\<lambda>(_, body).
          bindR (tlv_set_serialize (pm_suffix m) (drop n rest)) (\<lambda>tlv.
            Inr (message_wire_size m, header @ body @ tlv)))))"

definition message_deserialize :: "bytes \<Rightarrow> wire_error + ptp_message" where
  "message_deserialize buffer =
     bindR (deserialize_header buffer) (\<lambda>d.
       if dh_message_length d < 34 then Inl Invalid
       else
         bindR (get_slice 34 (unat (dh_message_length d)) buffer) (\<lambda>content_buffer.
         bindR (body_deserialize (dh_message_type d) content_buffer) (\<lambda>body.
         bindR (get_slice (body_wire_size body) (length content_buffer) content_buffer) (\<lambda>tlv_buffer.
         bindR (tlv_set_deserialize tlv_buffer) (\<lambda>suffix.
           Inr \<lparr>pm_header = dh_header d, pm_body = body, pm_suffix = suffix\<rparr>)))))"

section \<open>Reading back headers\<close>

lemmas put_slice_parts =
  put_slice_lays [OF ptp_timestamp_lays] put_slice_lays [OF time_interval_lays]
  put_slice_lays [OF clock_quality_lays] put_slice_lays [OF clock_identity_lays]
  put_slice_lays [OF port_identity_lays]

lemma flag_set_iff: "k < 8 \<Longrightarrow> flag_set b k \<longleftrightarrow> bit b k"
  by (simp add: flag_set_def word_gt_0 push_bit_eq_mult and_exp_eq_0_iff_not_bit)

lemma flags_first_read [simp]:
  "flag_set (flags_first h) 0 = ph_alternate_master_flag h" "flag_set (flags_first h) 1 = ph_two_step_flag h"
  "flag_set (flags_first h) (Suc 0) = ph_two_step_flag h"
  "flag_set (flags_first h) 2 = ph_unicast_flag h" "flag_set (flags_first h) 5 = ph_ptp_profile_specific_1 h"
  "flag_set (flags_first h) 6 = ph_ptp_profile_specific_2 h"
  by (simp_all add: flag_set_iff flags_first_def bit_simps)

lemma flags_second_read [simp]:
  "flag_set (flags_second h) 0 = ph_leap61 h" "flag_set (flags_second h) 1 = ph_leap59 h"
  "flag_set (flags_second h) (Suc 0) = ph_leap59 h"
  "flag_set (flags_second h) 2 = ph_current_utc_offset_valid h" "flag_set (flags_second h) 3 = ph_ptp_timescale h"
  "flag_set (flags_second h) 4 = ph_time_tracable h" "flag_set (flags_second h) 5 = ph_frequency_tracable h"
  "flag_set (flags_second h) 6 = ph_synchronization_uncertain h"
  by (simp_all add: flag_set_iff flags_second_def bit_simps)

lemma and_0xf0: "(x :: byte) AND 0xf0 = push_bit 4 (drop_bit 4 x)"
proof -
  have "(0xf0 :: byte) = push_bit 4 (mask 4)" by (simp add: mask_eq_exp_minus_1 push_bit_eq_mult)
  then have "x AND 0xf0 = x AND push_bit 4 (mask 4)" by (rule arg_cong)
  also have "\<dots> = push_bit 4 (drop_bit 4 x)" by (rule bit_word_eqI) (auto simp: bit_simps)
  finally show ?thesis .
qed

lemma and_0x0f: "(x :: byte) AND 0x0f = take_bit 4 x"
  by (simp add: take_bit_eq_mask mask_eq_exp_minus_1)

lemma less_take_bit_16: "(s :: u16) \<le> 0xfff \<longleftrightarrow> take_bit 12 s = s"
proof -
  have "s \<le> 0xfff \<longleftrightarrow> uint s < 2 ^ 12" by (auto simp: word_le_def)
  also have "\<dots> \<longleftrightarrow> take_bit 12 (uint s) = uint s" by (simp add: take_bit_int_eq_self_iff)
  also have "\<dots> \<longleftrightarrow> take_bit 12 s = s"
    by (simp only: unsigned_take_bit_eq [symmetric] word_uint_eq_iff)
  finally show ?thesis .
qed

lemma less_take_bit_8: "(b :: byte) < 0x10 \<longleftrightarrow> take_bit 4 b = b"
proof -
  have "b < 0x10 \<longleftrightarrow> uint b < 2 ^ 4" by (simp add: word_less_def)
  also have "\<dots> \<longleftrightarrow> take_bit 4 (uint b) = uint b" by (simp add: take_bit_int_eq_self_iff)
  also have "\<dots> \<longleftrightarrow> take_bit 4 b = b"
    by (simp only: unsigned_take_bit_eq [symmetric] word_uint_eq_iff)
  finally show ?thesis .
qed

lemma and_0xff: "(x :: u16) AND 0xff = take_bit 8 x"
  by (simp add: take_bit_eq_mask mask_eq_exp_minus_1)

text \<open>What the constructors of the parts of a header guarantee.\<close>

definition header_wf :: "ptp_header \<Rightarrow> bool" where
  "header_wf h \<longleftrightarrow> ph_sdo_id h \<le> 0xfff \<and> pv_major (ph_version h) < 0x10 \<and> pv_minor (ph_version h) < 0x10 \<and>
     port_identity_wf (ph_source_port_identity h)"

definition first_byte :: "ptp_header \<Rightarrow> message_type \<Rightarrow> byte" where
  "first_byte h ty = push_bit 4 (sdo_high_byte (ph_sdo_id h)) OR (message_type_to_u8 ty AND 0x0f)"

lemma sdo_read:
  "ph_sdo_id h \<le> 0xfff \<Longrightarrow>
    push_bit 4 (ucast (first_byte h ty AND 0xf0)) OR ucast (sdo_low_byte (ph_sdo_id h)) = ph_sdo_id h"
proof -
  assume "ph_sdo_id h \<le> 0xfff"
  then have "take_bit 12 (ph_sdo_id h) = ph_sdo_id h" by (simp add: less_take_bit_16)
  moreover have "push_bit 4 (ucast (first_byte h ty AND 0xf0)) OR ucast (sdo_low_byte (ph_sdo_id h)) =
      take_bit 12 (ph_sdo_id h)"
    by (rule bit_word_eqI)
       (auto simp: first_byte_def sdo_high_byte_def sdo_low_byte_def and_0xf0 and_0x0f and_0xff bit_simps)
  ultimately show ?thesis by simp
qed

lemma type_read: "message_type_try_from (first_byte h ty AND 0x0f) = Inr ty"
proof -
  have "first_byte h ty AND 0x0f = message_type_to_u8 ty AND 0x0f"
    by (rule bit_word_eqI) (auto simp: first_byte_def and_0x0f bit_simps)
  also have "\<dots> = message_type_to_u8 ty" by (cases ty) simp_all
  finally show ?thesis by (cases ty) (simp_all add: message_type_try_from_def)
qed

lemma version_read:
  "pv_major v < 0x10 \<Longrightarrow> pv_minor v < 0x10 \<Longrightarrow> version_from_byte (version_as_byte v) = v"
proof -
  assume v: "pv_major v < 0x10" "pv_minor v < 0x10"
  have "version_as_byte v AND 0x0f = take_bit 4 (pv_major v)"
    by (rule bit_word_eqI) (auto simp: version_as_byte_def and_0x0f bit_simps)
  moreover have "drop_bit 4 (version_as_byte v) = take_bit 4 (pv_minor v) OR drop_bit 4 (pv_major v)"
    by (rule bit_word_eqI) (auto simp: version_as_byte_def bit_simps ac_simps)
  moreover have "drop_bit 4 (take_bit 4 (pv_major v)) = 0" by (simp add: drop_bit_take_bit)
  ultimately show ?thesis using v by (simp add: version_from_byte_def less_take_bit_8)
qed

definition header_bytes :: "ptp_header \<Rightarrow> message_type \<Rightarrow> nat \<Rightarrow> bytes" where
  "header_bytes h ty n =
     [first_byte h ty, version_as_byte (ph_version h)] @ u16_to_be (of_nat (n + 34)) @
     [ph_domain_number h, sdo_low_byte (ph_sdo_id h), flags_first h, flags_second h] @
     u64_to_be (ph_correction_field h) @ [0, 0, 0, 0] @ port_identity_bytes (ph_source_port_identity h) @
     u16_to_be (ph_sequence_id h) @ [0, ph_log_message_interval h]"

lemma length_header_bytes [simp]: "header_wf h \<Longrightarrow> length (header_bytes h ty n) = 34"
  by (simp add: header_bytes_def header_wf_def)

lemma serialize_header_ok:
  assumes "header_wf h" "length buffer = 34" "n + 34 < 2 ^ 16"
  shows "serialize_header h ty n buffer = Inr (header_bytes h ty n)"
  using assms
  by (simp add: serialize_header_def header_bytes_def header_wf_def first_byte_def put_slice_parts
     splice_def)

lemma deserialize_header_ok:
  assumes "header_wf h"
  shows "deserialize_header (header_bytes h ty n @ r) =
    Inr \<lparr>dh_header = h, dh_message_type = ty, dh_message_length = of_nat (n + 34)\<rparr>"
proof -
  let ?b = "header_bytes h ty n @ r"
  have len: "34 \<le> length ?b" using assms by simp
  have bytes: "?b ! 0 = first_byte h ty" "?b ! Suc 0 = version_as_byte (ph_version h)" "?b ! 4 = ph_domain_number h"
    "?b ! 5 = sdo_low_byte (ph_sdo_id h)" "?b ! 6 = flags_first h" "?b ! 7 = flags_second h"
    "?b ! 33 = ph_log_message_interval h"
    using assms by (simp_all add: header_bytes_def header_wf_def nth_append)
  have slices: "slice 2 4 ?b = u16_to_be (of_nat (n + 34))" "slice 8 16 ?b = u64_to_be (ph_correction_field h)"
    "slice 20 30 ?b = port_identity_bytes (ph_source_port_identity h)"
    "slice 30 32 ?b = u16_to_be (ph_sequence_id h)"
    using assms by (simp_all add: header_bytes_def header_wf_def slice_def)
  show ?thesis
    using assms len
    by (simp add: deserialize_header_def bytes slices sdo_read type_read version_read header_wf_def
        time_interval_read [where r = "[]", simplified] port_identity_read [where r = "[]", simplified])
qed

section \<open>Reading back bodies\<close>

lemmas parts_read =
  ptp_timestamp_bytes_read [where r = "[]", simplified] port_identity_read [where r = "[]", simplified]
  time_interval_read [where r = "[]", simplified] clock_quality_read [where r = "[]", simplified]
  clock_identity_read [where r = "[]", simplified]

fun body_wf :: "message_body \<Rightarrow> bool" where
  "body_wf (Sync t) \<longleftrightarrow> ptp_timestamp_wf t"
| "body_wf (DelayReq t) \<longleftrightarrow> ptp_timestamp_wf t"
| "body_wf (PDelayReq t) \<longleftrightarrow> ptp_timestamp_wf t"
| "body_wf (PDelayResp m) \<longleftrightarrow> ptp_timestamp_wf (tr_timestamp m) \<and> port_identity_wf (tr_requesting_port_identity m)"
| "body_wf (FollowUp t) \<longleftrightarrow> ptp_timestamp_wf t"
| "body_wf (DelayResp m) \<longleftrightarrow> ptp_timestamp_wf (tr_timestamp m) \<and> port_identity_wf (tr_requesting_port_identity m)"
| "body_wf (PDelayRespFollowUp m) \<longleftrightarrow>
     ptp_timestamp_wf (tr_timestamp m) \<and> port_identity_wf (tr_requesting_port_identity m)"
| "body_wf (Announce m) \<longleftrightarrow> ptp_timestamp_wf (an_origin_timestamp m) \<and>
     clock_quality_wf (an_grandmaster_clock_quality m) \<and> clock_identity_wf (an_grandmaster_identity m) \<and>
     time_source_wf (an_time_source m)"
| "body_wf (Signaling p) \<longleftrightarrow> port_identity_wf p"
| "body_wf (Management m) \<longleftrightarrow> port_identity_wf (mg_target_port_identity m)"

text \<open>The bytes of a body that is written into the slice \<open>s\<close>.\<close>

definition timed_response_bytes :: "timed_response \<Rightarrow> bytes" where
  "timed_response_bytes m = ptp_timestamp_bytes (tr_timestamp m) @ port_identity_bytes (tr_requesting_port_identity m)"

fun body_bytes :: "message_body \<Rightarrow> bytes \<Rightarrow> bytes" where
  "body_bytes (Sync t) s = ptp_timestamp_bytes t"
| "body_bytes (DelayReq t) s = ptp_timestamp_bytes t"
| "body_bytes (PDelayReq t) s = ptp_timestamp_bytes t @ replicate 10 0"
| "body_bytes (PDelayResp m) s = timed_response_bytes m"
| "body_bytes (FollowUp t) s = ptp_timestamp_bytes t"
| "body_bytes (DelayResp m) s = timed_response_bytes m"
| "body_bytes (PDelayRespFollowUp m) s = timed_response_bytes m"
| "body_bytes (Announce m) s =
     ptp_timestamp_bytes (an_origin_timestamp m) @ u16_to_be (an_current_utc_offset m) @
     take 1 (drop 12 s) @ [an_grandmaster_priority_1 m] @ clock_quality_bytes (an_grandmaster_clock_quality m) @
     [an_grandmaster_priority_2 m] @ an_grandmaster_identity m @ u16_to_be (an_steps_removed m) @
     [time_source_to_primitive (an_time_source m)]"
| "body_bytes (Signaling p) s = port_identity_bytes p"
| "body_bytes (Management m) s =
     port_identity_bytes (mg_target_port_identity m) @ take 1 (drop 10 s) @
     [mg_starting_boundary_hops m, mg_boundary_hops m, management_action_to_primitive (mg_action m)]"

lemma management_action_read [simp]:
  "management_action_from_primitive (management_action_to_primitive a) = a"
  by (cases a) (simp_all add: management_action_from_primitive_def)

lemma length_body_bytes:
  "body_wf b \<Longrightarrow> length s = body_wire_size b \<Longrightarrow> length (body_bytes b s) = body_wire_size b"
  by (cases b) (simp_all add: timed_response_bytes_def)

lemma put_slice_zeros:
  "a \<le> b \<Longrightarrow> b \<le> length buf \<Longrightarrow>
    put_slice e a b (\<lambda>s. Inr (replicate (length s) 0)) buf = Inr (splice a (replicate (b - a) 0) buf)"
  by (simp add: put_slice_def get_range_def)

lemma announce_serialize_ok:
  assumes "body_wf (Announce m)" "length s = 30"
  shows "announce_serialize m s = Inr (body_bytes (Announce m) s)"
  using assms by (simp add: announce_serialize_def need_def put_slice_parts splice_def)

lemma management_serialize_ok:
  assumes "body_wf (Management m)" "length s = 14"
  shows "management_serialize m s = Inr (body_bytes (Management m) s)"
  using assms by (simp add: management_serialize_def put_slice_parts splice_def)

lemma body_serialize_ok:
  assumes "body_wf b" "length s = body_wire_size b"
  shows "body_serialize b s = Inr (body_wire_size b, body_bytes b s)"
  using assms announce_serialize_ok management_serialize_ok
  by (cases b)
     (simp_all add: body_serialize_def origin_serialize_def p_delay_req_serialize_def delay_resp_serialize_def
       p_delay_resp_serialize_def signaling_serialize_def timed_response_bytes_def need_def put_slice_parts
       put_slice_zeros splice_def)

lemma timed_response_read:
  assumes "ptp_timestamp_wf (tr_timestamp m)" "port_identity_wf (tr_requesting_port_identity m)"
  shows "timed_response_at (timed_response_bytes m @ r) = Inr m"
  using assms
  by (simp add: timed_response_at_def timed_response_bytes_def slice_def
      parts_read)

lemma length_timed_response_bytes [simp]:
  "port_identity_wf (tr_requesting_port_identity m) \<Longrightarrow> length (timed_response_bytes m) = 20"
  by (simp add: timed_response_bytes_def)

lemma announce_read:
  assumes "body_wf (Announce m)" "length s = 30"
  shows "announce_deserialize (body_bytes (Announce m) s @ r) = Inr m"
proof -
  let ?b = "body_bytes (Announce m) s @ r"
  have slices: "slice 0 10 ?b = ptp_timestamp_bytes (an_origin_timestamp m)"
    "slice 10 12 ?b = u16_to_be (an_current_utc_offset m)"
    "slice 14 18 ?b = clock_quality_bytes (an_grandmaster_clock_quality m)"
    "slice 19 27 ?b = an_grandmaster_identity m" "slice 27 29 ?b = u16_to_be (an_steps_removed m)"
    using assms by (simp_all add: slice_def)
  have bytes: "?b ! 13 = an_grandmaster_priority_1 m" "?b ! 18 = an_grandmaster_priority_2 m"
    "?b ! 29 = time_source_to_primitive (an_time_source m)"
    using assms by (simp_all add: nth_append)
  have "30 \<le> length ?b" using assms length_body_bytes [of "Announce m" s] by simp
  then show ?thesis
    using assms
    by (simp add: announce_deserialize_def slices bytes time_source_wf_def parts_read del: body_bytes.simps)
qed

lemma management_read:
  assumes "body_wf (Management m)" "length s = 14"
  shows "management_deserialize (body_bytes (Management m) s @ r) = Inr m"
  using assms by (simp add: management_deserialize_def slice_def nth_append parts_read)

lemma body_read:
  assumes "body_wf b" "length s = body_wire_size b"
  shows "body_deserialize (content_type b) (body_bytes b s @ r) = Inr b"
  using assms announce_read management_read
  by (cases b)
     (simp_all add: origin_deserialize_def p_delay_req_deserialize_def delay_resp_deserialize_def
       p_delay_resp_deserialize_def signaling_deserialize_def slice_def timed_response_read
       timed_response_read [where r = "[]", simplified]
       ptp_timestamp_bytes_read parts_read)

section \<open>Reading back messages\<close>

definition message_wf :: "ptp_message \<Rightarrow> bool" where
  "message_wf m \<longleftrightarrow> header_wf (pm_header m) \<and> body_wf (pm_body m) \<and>
     tlv_set_deserialize (pm_suffix m) = Inr (pm_suffix m) \<and> message_wire_size m < 2 ^ 16"

text \<open>The bytes of a message that is written into the front of a buffer.\<close>

definition ptp_message_bytes :: "ptp_message \<Rightarrow> bytes \<Rightarrow> bytes" where
  "ptp_message_bytes m buffer =
     header_bytes (pm_header m) (content_type (pm_body m)) (body_wire_size (pm_body m) + length (pm_suffix m)) @
     body_bytes (pm_body m) (take (body_wire_size (pm_body m)) (drop 34 buffer)) @ pm_suffix m"

lemma length_ptp_message_bytes:
  "message_wf m \<Longrightarrow> message_wire_size m \<le> length buffer \<Longrightarrow> length (ptp_message_bytes m buffer) = message_wire_size m"
  by (simp add: ptp_message_bytes_def message_wf_def message_wire_size_def length_body_bytes)

lemma message_serialize_ok:
  assumes "message_wf m" "message_wire_size m \<le> length buffer"
  shows "message_serialize m buffer =
    Inr (message_wire_size m, ptp_message_bytes m buffer @ drop (message_wire_size m) buffer)"
proof -
  let ?n = "body_wire_size (pm_body m)" and ?k = "length (pm_suffix m)"
  have "serialize_header (pm_header m) (content_type (pm_body m)) (?n + ?k) (take 34 buffer) =
      Inr (header_bytes (pm_header m) (content_type (pm_body m)) (?n + ?k))"
    using assms by (intro serialize_header_ok) (simp_all add: message_wf_def message_wire_size_def)
  moreover have "body_serialize (pm_body m) (take ?n (drop 34 buffer)) =
      Inr (?n, body_bytes (pm_body m) (take ?n (drop 34 buffer)))"
    using assms by (intro body_serialize_ok) (simp_all add: message_wf_def message_wire_size_def)
  moreover have "tlv_set_serialize (pm_suffix m) (drop ?n (drop 34 buffer)) =
      Inr (pm_suffix m @ drop (message_wire_size m) buffer)"
    using assms by (simp add: tlv_set_serialize_def message_wire_size_def splice_def ac_simps)
  ultimately show ?thesis
    using assms(2) by (simp add: message_serialize_def ptp_message_bytes_def message_wire_size_def Let_def)
qed

lemma message_read:
  assumes "message_wf m" "message_wire_size m \<le> length buffer"
  shows "message_deserialize (ptp_message_bytes m buffer @ r) = Inr m"
proof -
  let ?n = "body_wire_size (pm_body m)" and ?k = "length (pm_suffix m)"
  let ?s = "take ?n (drop 34 buffer)"
  let ?b = "body_bytes (pm_body m) ?s @ pm_suffix m"
  have wf: "header_wf (pm_header m)" "body_wf (pm_body m)"
    "tlv_set_deserialize (pm_suffix m) = Inr (pm_suffix m)" "34 + ?n + ?k < 2 ^ 16" "length ?s = ?n"
    using assms by (simp_all add: message_wf_def message_wire_size_def)
  have len: "unat (of_nat (?n + ?k + 34) :: u16) = 34 + ?n + ?k"
    using wf(4) by (simp only: unsigned_of_nat) (simp add: take_bit_nat_eq_self)
  have ge: "\<not> (of_nat (?n + ?k + 34) :: u16) < 34"
    using len by (simp only: word_less_nat_alt) simp
  have "ptp_message_bytes m buffer @ r =
      header_bytes (pm_header m) (content_type (pm_body m)) (?n + ?k) @ ?b @ r"
    by (simp add: ptp_message_bytes_def)
  moreover have "get_slice 34 (34 + ?n + ?k)
      (header_bytes (pm_header m) (content_type (pm_body m)) (?n + ?k) @ ?b @ r) = Inr ?b"
    using wf length_body_bytes [OF wf(2,5)] by (simp add: slice_def)
  moreover have "body_deserialize (content_type (pm_body m)) ?b = Inr (pm_body m)"
    by (rule body_read [OF wf(2,5)])
  moreover have "get_slice ?n (length ?b) ?b = Inr (pm_suffix m)"
    using length_body_bytes [OF wf(2,5)] by (simp add: slice_def)
  ultimately show ?thesis
    using wf(3) ge len
    by (simp add: message_deserialize_def deserialize_header_ok [OF wf(1)] del: of_nat_add)
qed

section \<open>What the parser accepts\<close>

lemma version_from_byte_wf:
  "pv_major (version_from_byte b) < 0x10" "pv_minor (version_from_byte b) < 0x10"
proof -
  show "pv_major (version_from_byte b) < 0x10" by (simp add: version_from_byte_def and_0x0f less_take_bit_8)
  have "take_bit 4 (drop_bit 4 b) = drop_bit 4 b" by (rule bit_word_eqI) (auto simp: bit_simps dest: bit_imp_le_length)
  then show "pv_minor (version_from_byte b) < 0x10" by (simp add: version_from_byte_def less_take_bit_8)
qed

lemma sdo_parsed_wf: "push_bit 4 (ucast ((a :: byte) AND 0xf0)) OR ucast (b :: byte) \<le> (0xfff :: u16)"
proof -
  let ?s = "push_bit 4 (ucast (a AND 0xf0)) OR ucast b :: u16"
  have "take_bit 12 ?s = ?s" by (rule bit_word_eqI) (auto simp: bit_simps and_0xf0 dest: bit_imp_le_length)
  then show ?thesis by (simp only: less_take_bit_16)
qed

lemma deserialize_header_wf: "deserialize_header b = Inr d \<Longrightarrow> header_wf (dh_header d) \<and> 34 \<le> length b"
  by (auto simp: deserialize_header_def header_wf_def Let_def result_simps sdo_parsed_wf version_from_byte_wf
      dest: port_identity_deserialize_wf split: if_splits)

lemma message_type_no_panic: "message_type_try_from v \<noteq> Inl WirePanic"
  by (simp add: message_type_try_from_def)

lemmas no_panics =
  ptp_timestamp_no_panic port_identity_no_panic clock_identity_no_panic clock_quality_no_panic
  time_interval_no_panic get_slice_no_panic message_type_no_panic

lemma deserialize_header_no_panic: "deserialize_header b \<noteq> Inl WirePanic"
  by (auto simp: deserialize_header_def Let_def result_simps no_panics split: if_splits)

lemmas body_deserialize_defs =
  origin_deserialize_def p_delay_req_deserialize_def delay_resp_deserialize_def p_delay_resp_deserialize_def
  signaling_deserialize_def announce_deserialize_def management_deserialize_def timed_response_at_def

lemma get_slice_InrD: "get_slice a b buf = Inr s \<Longrightarrow> a \<le> b \<and> b \<le> length buf \<and> s = slice a b buf"
  by (auto simp: get_slice_def result_simps get_range_def split: if_splits)

lemma body_deserialize_no_panic: "body_deserialize ty b \<noteq> Inl WirePanic"
  by (cases ty) (auto simp: body_deserialize_defs result_simps no_panics split: if_splits dest: get_slice_InrD)

lemma body_deserialize_wf:
  "body_deserialize ty b = Inr body \<Longrightarrow> body_wf body \<and> body_wire_size body \<le> length b \<and> content_type body = ty"
  by (cases ty)
     (auto simp: body_deserialize_defs result_simps time_source_from_primitive_wf split: if_splits
       dest: get_slice_InrD ptp_timestamp_deserialize_wf port_identity_deserialize_wf
         clock_quality_deserialize_wf clock_identity_deserialize_wf)

lemma message_deserialize_no_panic: "message_deserialize b \<noteq> Inl WirePanic"
  by (auto simp: message_deserialize_def result_simps deserialize_header_no_panic body_deserialize_no_panic
      tlv_set_no_panic get_slice_no_panic split: if_splits)

lemma message_deserialize_wf:
  assumes "message_deserialize b = Inr m"
  shows "message_wf m \<and> message_wire_size m \<le> length b"
proof -
  from assms obtain d c body t where d: "deserialize_header b = Inr d" "\<not> dh_message_length d < 34"
    and c: "get_slice 34 (unat (dh_message_length d)) b = Inr c"
    and body: "body_deserialize (dh_message_type d) c = Inr body"
    and t: "get_slice (body_wire_size body) (length c) c = Inr t"
    and m: "\<exists>s. tlv_set_deserialize t = Inr s \<and> m = \<lparr>pm_header = dh_header d, pm_body = body, pm_suffix = s\<rparr>"
    by (auto simp: message_deserialize_def result_simps split: if_splits)
  have len: "unat (dh_message_length d) \<le> length b" "34 \<le> unat (dh_message_length d)"
    "length c = unat (dh_message_length d) - 34" "length t = length c - body_wire_size body"
    "body_wire_size body \<le> length c"
    using get_slice_InrD [OF c] get_slice_InrD [OF t] by simp_all
  have "pm_suffix m = t" "tlv_set_deserialize t = Inr t" "pm_body m = body" "pm_header m = dh_header d"
    using m by (auto simp: tlv_set_deserialize_iff)
  then have "header_wf (pm_header m)" "body_wf (pm_body m)" "tlv_set_deserialize (pm_suffix m) = Inr (pm_suffix m)"
    "message_wire_size m = unat (dh_message_length d)"
    using deserialize_header_wf [OF d(1)] body_deserialize_wf [OF body] len by (simp_all add: message_wire_size_def)
  then show ?thesis
    using len unat_lt2p [of "dh_message_length d"] by (simp add: message_wf_def)
qed

lemma parsed_suffix_tlvs:
  "tlv_set_deserialize s = Inr s \<Longrightarrow> \<exists>ts. tlvs s = Inr ts \<and> tlv_list_ok ts \<and> s = tlv_set_of ts"
  by (auto simp: tlv_set_deserialize_iff)

text \<open>
  C38: every well-formed message that fits the buffer is serialised, behind it the buffer is left alone, and
  parsing the buffer gives the message back whatever follows it.
\<close>

theorem ptp_message_roundtrip:
  assumes "message_wf m" and "message_wire_size m \<le> length buffer"
  shows "\<exists>out. length out = message_wire_size m \<and>
    message_serialize m buffer = Inr (message_wire_size m, out @ drop (message_wire_size m) buffer) \<and>
    (\<forall>r. message_deserialize (out @ r) = Inr m)"
  using assms message_serialize_ok message_read length_ptp_message_bytes by blast


definition example_sync :: ptp_message where
  "example_sync = \<lparr>pm_header = ptp_header_new 1, pm_body = Sync \<lparr>ptp_seconds = 5, ptp_nanos = 7\<rparr>,
     pm_suffix = tlv_set_of [\<lparr>tlv_ty = TlvPathTrace, tlv_value = [1, 2]\<rparr>]\<rparr>"

lemma example_sync_wf: "message_wf example_sync \<and> message_wire_size example_sync = 50"
proof -
  have "tlv_list_ok [\<lparr>tlv_ty = TlvPathTrace, tlv_value = [1, 2]\<rparr>]"
    by (simp add: tlv_list_ok_def tlv_wf_def tlv_type_wf_def tlv_type_from_primitive_def)
  then have "tlv_set_deserialize (pm_suffix example_sync) = Inr (pm_suffix example_sync)"
    using tlvs_of by (fastforce simp: example_sync_def tlv_set_deserialize_iff)
  then show ?thesis
    by (simp add: message_wf_def message_wire_size_def example_sync_def ptp_header_new_def header_wf_def
        port_identity_default_def clock_identity_default_def ptp_timestamp_wf_def tlv_wire_size_def)
qed

theorem ptp_message_roundtrip_witness:
  "message_wf example_sync \<and> message_wire_size example_sync \<le> length (replicate 50 0 :: bytes) \<and>
   (\<exists>out. length out = message_wire_size example_sync \<and>
    message_serialize example_sync (replicate 50 0) =
      Inr (message_wire_size example_sync, out @ drop (message_wire_size example_sync) (replicate 50 0)) \<and>
    (\<forall>r. message_deserialize (out @ r) = Inr example_sync))"
  using ptp_message_roundtrip [of example_sync "replicate 50 0"] example_sync_wf by simp


end
