(* ===== verification/Csptp_Messages.thy ===== *)
theory Csptp_Messages
  imports Ptp_Message Ntp_System
begin

text \<open>
  The messages of CSPTP (\<^verbatim>\<open>statime-csptp/src/messages.rs\<close> and \<^verbatim>\<open>messages/tlvs.rs\<close>): the three extensions, what
  a PTP message must be to count as a CSPTP message, and the request, the response and the follow-up
  that the two sides send. A \<^verbatim>\<open>CsptpMessage\<close> is the PTP message it wraps. The clock state that a response
  announces (\<^verbatim>\<open>CsptpState\<close> of \<^verbatim>\<open>statime-csptp/src/lib.rs\<close>) is here as well.
\<close>

definition CSPTP_MAX_MESSAGE_SIZE :: nat where
  "CSPTP_MAX_MESSAGE_SIZE = 512"

record csptp_state =
  cs_grandmaster_identity :: clock_identity
  cs_grandmaster_priority_1 :: byte
  cs_grandmaster_priority_2 :: byte
  cs_grandmaster_clock_quality :: clock_quality
  cs_steps_removed :: u16
  cs_ptp_timescale :: bool
  cs_time_traceable :: bool
  cs_frequency_traceable :: bool

section \<open>Extensions\<close>

record csptp_request_tlv =
  rq_csptp_status :: bool
  rq_alt_timescale :: bool

definition request_tlv_try_from :: "tlv \<Rightarrow> csptp_request_tlv option" where
  "request_tlv_try_from t =
     (if tlv_ty t = TlvCsptpRequest then
        (case tlv_value t of
           [] \<Rightarrow> None
         | flags # _ \<Rightarrow> Some \<lparr>rq_csptp_status = (flags AND 1 \<noteq> 0), rq_alt_timescale = (flags AND 2 \<noteq> 0)\<rparr>)
      else None)"

definition request_tlv :: "csptp_request_tlv \<Rightarrow> tlv" where
  "request_tlv r =
     \<lparr>tlv_ty = TlvCsptpRequest,
      tlv_value = [(if rq_csptp_status r then 1 else 0) OR (if rq_alt_timescale r then 2 else 0), 0, 0, 0]\<rparr>"

definition request_tlv_add_to :: "csptp_request_tlv \<Rightarrow> tlv_builder \<Rightarrow> wire_error + tlv_builder" where
  "request_tlv_add_to r b = tlv_builder_add (request_tlv r) b"

record csptp_response_tlv =
  rs_req_ingress_timestamp :: ptp_timestamp
  rs_req_correction_field :: time_interval

text \<open>\<^verbatim>\<open>Result::ok\<close> on a result that is used inside \<^verbatim>\<open>find_map\<close>; the parsers it is applied to do not panic.\<close>

definition ok :: "'e + 'a \<Rightarrow> 'a option" where
  "ok r = (case r of Inl _ \<Rightarrow> None | Inr x \<Rightarrow> Some x)"

lemma ok_eq_Some [simp]: "ok r = Some x \<longleftrightarrow> r = Inr x"
  by (simp add: ok_def split: sum.split)

lemma ok_Inr [simp]: "ok (Inr x) = Some x"
  by simp

definition response_tlv_try_from :: "tlv \<Rightarrow> csptp_response_tlv option" where
  "response_tlv_try_from t =
     (if tlv_ty t = TlvCsptpResponse then
        Option.bind (get_range 0 18 (tlv_value t)) (\<lambda>content.
        Option.bind (ok (ptp_timestamp_deserialize (slice 0 10 content))) (\<lambda>ts.
        Option.bind (ok (time_interval_deserialize (slice 10 18 content))) (\<lambda>c.
          Some \<lparr>rs_req_ingress_timestamp = ts, rs_req_correction_field = c\<rparr>)))
      else None)"

definition response_tlv_add_to :: "csptp_response_tlv \<Rightarrow> tlv_builder \<Rightarrow> wire_error + tlv_builder" where
  "response_tlv_add_to r b =
     bindR (in_turn
       [put_slice WirePanic 0 10 (ptp_timestamp_serialize (rs_req_ingress_timestamp r)),
        put_slice WirePanic 10 18 (time_interval_serialize (rs_req_correction_field r))] (replicate 18 0)) (\<lambda>content.
     tlv_builder_add \<lparr>tlv_ty = TlvCsptpResponse, tlv_value = content\<rparr> b)"

record csptp_status_tlv =
  st_grandmaster_priority1 :: byte
  st_grandmaster_clock_quality :: clock_quality
  st_grandmaster_priority2 :: byte
  st_steps_removed :: u16
  st_current_utc_offset :: u16
  st_grandmaster_identity :: clock_identity

definition status_tlv_try_from :: "tlv \<Rightarrow> csptp_status_tlv option" where
  "status_tlv_try_from t =
     (if tlv_ty t = TlvCsptpStatus then
        Option.bind (get_range 0 18 (tlv_value t)) (\<lambda>content.
        Option.bind (ok (clock_quality_deserialize (slice 1 5 content))) (\<lambda>q.
        Option.bind (ok (clock_identity_deserialize (slice 10 18 content))) (\<lambda>c.
          Some \<lparr>st_grandmaster_priority1 = content ! 0, st_grandmaster_clock_quality = q,
                st_grandmaster_priority2 = content ! 5, st_steps_removed = from_be (slice 6 8 content),
                st_current_utc_offset = from_be (slice 8 10 content), st_grandmaster_identity = c\<rparr>)))
      else None)"

definition status_tlv_add_to :: "csptp_status_tlv \<Rightarrow> tlv_builder \<Rightarrow> wire_error + tlv_builder" where
  "status_tlv_add_to s b =
     bindR (in_turn
       [put_slice WirePanic 0 1 (copy_from [st_grandmaster_priority1 s]),
        put_slice WirePanic 1 5 (clock_quality_serialize (st_grandmaster_clock_quality s)),
        put_slice WirePanic 5 6 (copy_from [st_grandmaster_priority2 s]),
        put_slice WirePanic 6 8 (copy_from (u16_to_be (st_steps_removed s))),
        put_slice WirePanic 8 10 (copy_from (u16_to_be (st_current_utc_offset s))),
        put_slice WirePanic 10 18 (clock_identity_serialize (st_grandmaster_identity s))] (replicate 18 0)) (\<lambda>content.
     tlv_builder_add \<lparr>tlv_ty = TlvCsptpStatus, tlv_value = content\<rparr> b)"

section \<open>Messages\<close>

definition csptp_header :: "byte \<Rightarrow> u16 \<Rightarrow> ptp_header" where
  "csptp_header domain_number sequence_id =
     \<lparr>ph_sdo_id = 0x300, ph_version = \<lparr>pv_major = 2, pv_minor = 1\<rparr>, ph_domain_number = domain_number,
      ph_alternate_master_flag = False, ph_two_step_flag = False, ph_unicast_flag = True,
      ph_ptp_profile_specific_1 = False, ph_ptp_profile_specific_2 = False, ph_leap61 = False,
      ph_leap59 = False, ph_current_utc_offset_valid = False, ph_ptp_timescale = False,
      ph_time_tracable = False, ph_frequency_tracable = False, ph_synchronization_uncertain = False,
      ph_correction_field = 0, ph_source_port_identity = \<lparr>pi_clock = replicate 8 0, pi_port = 0\<rparr>,
      ph_sequence_id = sequence_id, ph_log_message_interval = 0x7f\<rparr>"

fun is_sync :: "message_body \<Rightarrow> bool" where
  "is_sync (Sync _) \<longleftrightarrow> True"
| "is_sync _ \<longleftrightarrow> False"

definition csptp_deserialize :: "bytes \<Rightarrow> wire_error + ptp_message" where
  "csptp_deserialize buffer =
     bindR (message_deserialize buffer) (\<lambda>message.
       if ph_sdo_id (pm_header message) \<noteq> 0x300 \<or> pv_major (ph_version (pm_header message)) \<noteq> 2 then Inl Invalid
       else case pm_body message of
         Sync _ \<Rightarrow>
           bindR (tlvs (pm_suffix message)) (\<lambda>ts.
             let num_request_tlvs = length (filter (\<lambda>t. tlv_ty t = TlvCsptpRequest) ts);
                 num_valid_request_tlvs = length (List.map_filter request_tlv_try_from ts);
                 num_response_tlvs = length (filter (\<lambda>t. tlv_ty t = TlvCsptpResponse) ts);
                 num_valid_response_tlvs = length (List.map_filter response_tlv_try_from ts) in
             if num_request_tlvs + num_response_tlvs \<noteq> 1 \<or> num_request_tlvs \<noteq> num_valid_request_tlvs \<or>
                num_response_tlvs \<noteq> num_valid_response_tlvs
             then Inl Invalid else Inr message)
       | FollowUp _ \<Rightarrow> Inr message
       | _ \<Rightarrow> Inl Invalid)"

definition is_request :: "ptp_message \<Rightarrow> wire_error + bool" where
  "is_request m =
     (if is_sync (pm_body m)
      then bindR (tlvs (pm_suffix m)) (\<lambda>ts. Inr (\<exists>t\<in>set ts. tlv_ty t = TlvCsptpRequest)) else Inr False)"

definition is_response :: "ptp_message \<Rightarrow> wire_error + bool" where
  "is_response m =
     (if is_sync (pm_body m)
      then bindR (tlvs (pm_suffix m)) (\<lambda>ts. Inr (\<exists>t\<in>set ts. tlv_ty t = TlvCsptpResponse)) else Inr False)"

primrec find_map :: "('a \<Rightarrow> 'b option) \<Rightarrow> 'a list \<Rightarrow> 'b option" where
  "find_map f [] = None"
| "find_map f (x # xs) = (case f x of Some y \<Rightarrow> Some y | None \<Rightarrow> find_map f xs)"

definition new_request :: "bytes \<Rightarrow> byte \<Rightarrow> u16 \<Rightarrow> wire_error + ptp_message" where
  "new_request buffer domain_number sequence_id =
     bindR (request_tlv_add_to \<lparr>rq_csptp_status = True, rq_alt_timescale = False\<rparr> (tlv_builder_new buffer)) (\<lambda>b.
     bindR (tlv_builder_build b) (\<lambda>suffix.
       Inr \<lparr>pm_header = csptp_header domain_number sequence_id, pm_body = Sync ptp_timestamp_default,
            pm_suffix = suffix\<rparr>))"

definition status_of :: "csptp_state \<Rightarrow> csptp_status_tlv" where
  "status_of s =
     \<lparr>st_grandmaster_priority1 = cs_grandmaster_priority_1 s,
      st_grandmaster_clock_quality = cs_grandmaster_clock_quality s,
      st_grandmaster_priority2 = cs_grandmaster_priority_2 s, st_steps_removed = cs_steps_removed s,
      st_current_utc_offset = 0, st_grandmaster_identity = cs_grandmaster_identity s\<rparr>"

definition new_response ::
  "bytes \<Rightarrow> ptp_message \<Rightarrow> ptp_timestamp \<Rightarrow> ptp_timestamp option \<Rightarrow> time_snapshot \<Rightarrow> csptp_state \<Rightarrow>
   wire_error + ptp_message" where
  "new_response buffer request recv_timestamp send_timestamp snapshot state =
     (if \<not> is_sync (pm_body request) then Inl Invalid
      else
        bindR (tlvs (pm_suffix request)) (\<lambda>ts.
        bindR (ok_or Invalid (find_map request_tlv_try_from ts)) (\<lambda>rq.
        bindR (response_tlv_add_to \<lparr>rs_req_ingress_timestamp = recv_timestamp,
                 rs_req_correction_field = ph_correction_field (pm_header request)\<rparr> (tlv_builder_new buffer)) (\<lambda>b.
        bindR (if rq_csptp_status rq then status_tlv_add_to (status_of state) b else Inr b) (\<lambda>b.
        bindR (tlv_builder_build b) (\<lambda>suffix.
          Inr \<lparr>pm_header =
                (csptp_header (ph_domain_number (pm_header request)) (ph_sequence_id (pm_header request)))
                  \<lparr>ph_leap61 := ts_leap_indicator snapshot = Leap61,
                   ph_leap59 := ts_leap_indicator snapshot = Leap59,
                   ph_current_utc_offset_valid := False,
                   ph_ptp_timescale := cs_ptp_timescale state,
                   ph_time_tracable := cs_time_traceable state,
                   ph_frequency_tracable := cs_frequency_traceable state,
                   ph_two_step_flag := send_timestamp = None\<rparr>,
               pm_body = Sync (case send_timestamp of Some t \<Rightarrow> t | None \<Rightarrow> ptp_timestamp_default),
               pm_suffix = suffix\<rparr>))))))"

definition new_follow_up :: "ptp_message \<Rightarrow> ptp_timestamp \<Rightarrow> wire_error + ptp_message" where
  "new_follow_up response send_timestamp =
     bindR (is_response response) (\<lambda>r.
       if \<not> r \<or> \<not> ph_two_step_flag (pm_header response) then Inl Invalid
       else bindR (tlv_builder_build (tlv_builder_new [])) (\<lambda>suffix.
         Inr \<lparr>pm_header =
               (csptp_header (ph_domain_number (pm_header response)) (ph_sequence_id (pm_header response)))
                 \<lparr>ph_two_step_flag := True\<rparr>,
              pm_body = FollowUp send_timestamp, pm_suffix = suffix\<rparr>))"

section \<open>Extensions read back\<close>

definition response_tlv :: "csptp_response_tlv \<Rightarrow> tlv" where
  "response_tlv r =
     \<lparr>tlv_ty = TlvCsptpResponse,
      tlv_value = ptp_timestamp_bytes (rs_req_ingress_timestamp r) @ u64_to_be (rs_req_correction_field r)\<rparr>"

definition status_tlv :: "csptp_status_tlv \<Rightarrow> tlv" where
  "status_tlv s =
     \<lparr>tlv_ty = TlvCsptpStatus,
      tlv_value = [st_grandmaster_priority1 s] @ clock_quality_bytes (st_grandmaster_clock_quality s) @
        [st_grandmaster_priority2 s] @ u16_to_be (st_steps_removed s) @ u16_to_be (st_current_utc_offset s) @
        st_grandmaster_identity s\<rparr>"

definition csptp_state_wf :: "csptp_state \<Rightarrow> bool" where
  "csptp_state_wf s \<longleftrightarrow> clock_identity_wf (cs_grandmaster_identity s) \<and> clock_quality_wf (cs_grandmaster_clock_quality s)"

definition csptp_status_wf :: "csptp_status_tlv \<Rightarrow> bool" where
  "csptp_status_wf s \<longleftrightarrow> clock_identity_wf (st_grandmaster_identity s) \<and> clock_quality_wf (st_grandmaster_clock_quality s)"

lemma status_of_wf [simp]: "csptp_status_wf (status_of s) \<longleftrightarrow> csptp_state_wf s"
  by (simp add: csptp_status_wf_def csptp_state_wf_def status_of_def)

lemma response_tlv_add_to_eq: "response_tlv_add_to r b = tlv_builder_add (response_tlv r) b"
  by (simp add: response_tlv_add_to_def response_tlv_def put_slice_parts splice_def)

lemma status_tlv_add_to_eq: "csptp_status_wf s \<Longrightarrow> status_tlv_add_to s b = tlv_builder_add (status_tlv s) b"
  by (simp add: status_tlv_add_to_def status_tlv_def put_slice_parts splice_def csptp_status_wf_def)

lemma tlv_types [simp]:
  "tlv_ty (request_tlv r) = TlvCsptpRequest" "tlv_ty (response_tlv r') = TlvCsptpResponse"
  "tlv_ty (status_tlv s) = TlvCsptpStatus"
  by (simp_all add: request_tlv_def response_tlv_def status_tlv_def)

lemma tlv_sizes:
  "length (tlv_value (request_tlv r)) = 4" "length (tlv_value (response_tlv r')) = 18"
  "csptp_status_wf s \<Longrightarrow> length (tlv_value (status_tlv s)) = 18"
  by (simp_all add: request_tlv_def response_tlv_def status_tlv_def csptp_status_wf_def)

lemma csptp_types_wf [simp]:
  "tlv_type_wf TlvCsptpRequest" "tlv_type_wf TlvCsptpResponse" "tlv_type_wf TlvCsptpStatus"
  by (simp_all add: tlv_type_wf_def tlv_type_from_primitive_def)

lemma request_tlv_read [simp]: "request_tlv_try_from (request_tlv r) = Some r"
  by (cases "rq_csptp_status r"; cases "rq_alt_timescale r")
     (simp_all add: request_tlv_try_from_def request_tlv_def)

lemma response_tlv_read [simp]:
  "ptp_timestamp_wf (rs_req_ingress_timestamp r) \<Longrightarrow> response_tlv_try_from (response_tlv r) = Some r"
  by (simp add: response_tlv_try_from_def response_tlv_def get_range_def slice_def parts_read)

lemma status_tlv_read [simp]: "csptp_status_wf s \<Longrightarrow> status_tlv_try_from (status_tlv s) = Some s"
  by (simp add: status_tlv_try_from_def status_tlv_def get_range_def slice_def parts_read
      csptp_status_wf_def nth_append)

lemma try_from_other [simp]:
  "tlv_ty t \<noteq> TlvCsptpRequest \<Longrightarrow> request_tlv_try_from t = None"
  "tlv_ty t \<noteq> TlvCsptpResponse \<Longrightarrow> response_tlv_try_from t = None"
  "tlv_ty t \<noteq> TlvCsptpStatus \<Longrightarrow> status_tlv_try_from t = None"
  by (simp_all add: request_tlv_try_from_def response_tlv_try_from_def status_tlv_try_from_def)

lemma status_parsed_wf: "status_tlv_try_from t = Some s \<Longrightarrow> csptp_status_wf s"
  by (auto simp: status_tlv_try_from_def csptp_status_wf_def bind_eq_Some_conv
      dest: clock_quality_deserialize_wf clock_identity_deserialize_wf split: if_splits)

lemma response_parsed_wf: "response_tlv_try_from t = Some r \<Longrightarrow> ptp_timestamp_wf (rs_req_ingress_timestamp r)"
  by (auto simp: response_tlv_try_from_def bind_eq_Some_conv
      dest: ptp_timestamp_deserialize_wf split: if_splits)

section \<open>The three messages\<close>

definition request_message :: "byte \<Rightarrow> u16 \<Rightarrow> ptp_message" where
  "request_message d q =
     \<lparr>pm_header = csptp_header d q, pm_body = Sync ptp_timestamp_default,
      pm_suffix = tlv_set_of [request_tlv \<lparr>rq_csptp_status = True, rq_alt_timescale = False\<rparr>]\<rparr>"

definition response_tlvs :: "bool \<Rightarrow> csptp_response_tlv \<Rightarrow> csptp_state \<Rightarrow> tlv list" where
  "response_tlvs with_status r state =
     response_tlv r # (if with_status then [status_tlv (status_of state)] else [])"

definition response_message ::
  "byte \<Rightarrow> u16 \<Rightarrow> bool \<Rightarrow> csptp_response_tlv \<Rightarrow> time_snapshot \<Rightarrow> csptp_state \<Rightarrow> ptp_message" where
  "response_message d q with_status r snapshot state =
     \<lparr>pm_header =
        (csptp_header d q)
          \<lparr>ph_leap61 := ts_leap_indicator snapshot = Leap61, ph_leap59 := ts_leap_indicator snapshot = Leap59,
           ph_current_utc_offset_valid := False, ph_ptp_timescale := cs_ptp_timescale state,
           ph_time_tracable := cs_time_traceable state, ph_frequency_tracable := cs_frequency_traceable state,
           ph_two_step_flag := True\<rparr>,
      pm_body = Sync ptp_timestamp_default, pm_suffix = tlv_set_of (response_tlvs with_status r state)\<rparr>"

definition follow_up_message :: "byte \<Rightarrow> u16 \<Rightarrow> ptp_timestamp \<Rightarrow> ptp_message" where
  "follow_up_message d q t =
     \<lparr>pm_header = (csptp_header d q)\<lparr>ph_two_step_flag := True\<rparr>, pm_body = FollowUp t, pm_suffix = []\<rparr>"

lemma header_constants: "sdo_id_try_from 0x300 = Inr 0x300" "ptp_version_new 2 1 = Inr \<lparr>pv_major = 2, pv_minor = 1\<rparr>"
  by (simp_all add: sdo_id_try_from_def ptp_version_new_def word_le_nat_alt)

lemma csptp_header_wf [simp]: "header_wf (csptp_header d q)"
  by (simp add: header_wf_def csptp_header_def)

lemma timestamp_default_wf [simp]: "ptp_timestamp_wf ptp_timestamp_default"
  by (simp add: ptp_timestamp_wf_def ptp_timestamp_default_def)

lemma new_request_ok: "8 \<le> length buffer \<Longrightarrow> new_request buffer d q = Inr (request_message d q)"
  using tlv_builder_add_holds [OF builder_holds_new, of "request_tlv \<lparr>rq_csptp_status = True, rq_alt_timescale = False\<rparr>" buffer]
  by (auto simp: new_request_def request_tlv_add_to_def request_message_def tlv_wire_size_def tlv_sizes
      dest: tlv_builder_build_holds)

lemma request_tlvs_ok: "tlv_list_ok [request_tlv r]"
  by (simp add: tlv_list_ok_def tlv_wf_def request_tlv_def)

lemma response_tlvs_ok:
  assumes "csptp_state_wf state"
  shows "tlv_list_ok (response_tlvs w r state)"
proof -
  have r: "length (tlv_value (response_tlv r)) = 18" by (rule tlv_sizes)
  have s: "length (tlv_value (status_tlv (status_of state))) = 18" using assms by (intro tlv_sizes) simp
  have "tlv_value (response_tlv r) \<noteq> []" "tlv_value (status_tlv (status_of state)) \<noteq> []"
    using r s by fastforce+
  with r s show ?thesis by (simp add: tlv_list_ok_def tlv_wf_def response_tlvs_def)
qed

lemma response_tlvs_size: "csptp_state_wf state \<Longrightarrow> length (tlv_set_of (response_tlvs w r state)) \<le> 44"
  by (simp add: response_tlvs_def tlv_wire_size_def tlv_sizes)

lemma new_response_ok:
  assumes "is_sync (pm_body m)" "tlvs (pm_suffix m) = Inr ts" "find_map request_tlv_try_from ts = Some rq"
    and "csptp_state_wf state" "44 \<le> length buffer"
  shows "new_response buffer m recv None snapshot state =
    Inr (response_message (ph_domain_number (pm_header m)) (ph_sequence_id (pm_header m)) (rq_csptp_status rq)
      \<lparr>rs_req_ingress_timestamp = recv, rs_req_correction_field = ph_correction_field (pm_header m)\<rparr> snapshot state)"
proof -
  let ?r = "\<lparr>rs_req_ingress_timestamp = recv, rs_req_correction_field = ph_correction_field (pm_header m)\<rparr>"
  obtain b where b: "tlv_builder_add (response_tlv ?r) (tlv_builder_new buffer) = Inr b"
      "builder_holds b (length buffer) [response_tlv ?r]"
    using tlv_builder_add_holds [OF builder_holds_new, of "response_tlv ?r" buffer] assms(5)
    by (auto simp: tlv_wire_size_def tlv_sizes)
  obtain b' where b': "tlv_builder_add (status_tlv (status_of state)) b = Inr b'"
      "builder_holds b' (length buffer) [response_tlv ?r, status_tlv (status_of state)]"
    using tlv_builder_add_holds [OF b(2), of "status_tlv (status_of state)"] assms(4,5)
    by (auto simp: tlv_wire_size_def tlv_sizes)
  show ?thesis
    using assms(1-4) b(1) b'(1) tlv_builder_build_holds [OF b(2)] tlv_builder_build_holds [OF b'(2)]
    by (simp add: new_response_def response_tlv_add_to_eq status_tlv_add_to_eq response_message_def response_tlvs_def)
qed

lemma new_follow_up_ok:
  assumes "csptp_state_wf state"
  shows "new_follow_up (response_message d q w r snapshot state) t = Inr (follow_up_message d q t)"
  using tlvs_of [OF response_tlvs_ok [OF assms]] tlv_builder_build_holds [OF builder_holds_new, of "[]"]
  by (simp add: new_follow_up_def is_response_def response_message_def follow_up_message_def csptp_header_def)
     (simp add: response_tlvs_def)

lemma request_message_wf: "message_wf (request_message d q)" "message_wire_size (request_message d q) = 52"
  using tlvs_of [OF request_tlvs_ok] request_tlvs_ok
  by (auto simp: message_wf_def message_wire_size_def request_message_def tlv_set_deserialize_iff tlv_wire_size_def
      tlv_sizes)

lemma response_message_wf:
  assumes "csptp_state_wf state"
  shows "message_wf (response_message d q w r snapshot state)"
    "message_wire_size (response_message d q w r snapshot state) \<le> 88"
proof -
  have "tlv_set_deserialize (tlv_set_of (response_tlvs w r state)) = Inr (tlv_set_of (response_tlvs w r state))"
    using tlvs_of [OF response_tlvs_ok [OF assms]] response_tlvs_ok [OF assms] by (auto simp: tlv_set_deserialize_iff)
  moreover have "header_wf (pm_header (response_message d q w r snapshot state))"
    by (simp add: response_message_def header_wf_def csptp_header_def)
  ultimately show "message_wf (response_message d q w r snapshot state)"
      "message_wire_size (response_message d q w r snapshot state) \<le> 88"
    using response_tlvs_size [OF assms, of w r]
    by (simp_all add: message_wf_def message_wire_size_def response_message_def)
qed

lemma follow_up_message_wf:
  "ptp_timestamp_wf t \<Longrightarrow> message_wf (follow_up_message d q t)" "message_wire_size (follow_up_message d q t) = 44"
  by (simp_all add: message_wf_def message_wire_size_def follow_up_message_def header_wf_def csptp_header_def
      tlv_set_deserialize_def tlv_set_loop.simps slice_def)

text \<open>The three messages are CSPTP messages.\<close>

lemma csptp_request_read:
  "message_deserialize buffer = Inr (request_message d q) \<Longrightarrow> csptp_deserialize buffer = Inr (request_message d q)"
  using tlvs_of [OF request_tlvs_ok]
  by (simp add: csptp_deserialize_def request_message_def csptp_header_def map_filter_simps Let_def)

lemma csptp_response_read:
  assumes "csptp_state_wf state" "ptp_timestamp_wf (rs_req_ingress_timestamp r)"
    and "message_deserialize buffer = Inr (response_message d q w r snapshot state)"
  shows "csptp_deserialize buffer = Inr (response_message d q w r snapshot state)"
  using tlvs_of [OF response_tlvs_ok [OF assms(1)]] assms
  by (simp add: csptp_deserialize_def response_message_def csptp_header_def)
     (simp add: response_tlvs_def map_filter_simps Let_def)

lemma csptp_follow_up_read:
  "message_deserialize buffer = Inr (follow_up_message d q t) \<Longrightarrow> csptp_deserialize buffer = Inr (follow_up_message d q t)"
  by (simp add: csptp_deserialize_def follow_up_message_def csptp_header_def)

text \<open>What a CSPTP message is.\<close>

lemma csptp_deserialize_message:
  assumes "csptp_deserialize buffer = Inr m"
  shows "message_deserialize buffer = Inr m" "message_wf m"
    "(is_sync (pm_body m) \<and> (\<exists>ts. tlvs (pm_suffix m) = Inr ts)) \<or> (\<exists>t. pm_body m = FollowUp t)"
proof -
  show m: "message_deserialize buffer = Inr m"
    using assms by (auto simp: csptp_deserialize_def result_simps Let_def split: if_splits message_body.splits)
  then show "message_wf m" using message_deserialize_wf by blast
  show "(is_sync (pm_body m) \<and> (\<exists>ts. tlvs (pm_suffix m) = Inr ts)) \<or> (\<exists>t. pm_body m = FollowUp t)"
    using assms m by (auto simp: csptp_deserialize_def result_simps split: if_splits message_body.splits)
qed

lemma csptp_deserialize_no_panic: "csptp_deserialize buffer \<noteq> Inl WirePanic"
proof
  assume p: "csptp_deserialize buffer = Inl WirePanic"
  then obtain m where m: "message_deserialize buffer = Inr m" "tlvs (pm_suffix m) = Inl WirePanic"
    by (auto simp: csptp_deserialize_def result_simps message_deserialize_no_panic Let_def
        split: if_splits message_body.splits)
  with message_deserialize_wf [OF m(1)] show False
    using parsed_suffix_tlvs by (fastforce simp: message_wf_def)
qed

lemma find_map_Some_iff: "(\<exists>y. find_map f xs = Some y) \<longleftrightarrow> (\<exists>x\<in>set xs. f x \<noteq> None)"
  by (induction xs) (auto split: option.splits)

lemma find_map_SomeD: "find_map f xs = Some y \<Longrightarrow> \<exists>x\<in>set xs. f x = Some y"
  by (induction xs) (auto split: option.splits)

lemma map_filter_find_map: "List.map_filter f xs \<noteq> [] \<longleftrightarrow> (\<exists>y. find_map f xs = Some y)"
  by (induction xs) (auto simp: map_filter_simps split: option.splits)

lemma csptp_request_tlv:
  assumes "csptp_deserialize buffer = Inr m" "is_request m = Inr True"
  shows "is_sync (pm_body m) \<and> (\<exists>ts rq. tlvs (pm_suffix m) = Inr ts \<and> find_map request_tlv_try_from ts = Some rq)"
proof -
  obtain ts where ts: "is_sync (pm_body m)" "tlvs (pm_suffix m) = Inr ts" "\<exists>t\<in>set ts. tlv_ty t = TlvCsptpRequest"
    using assms(2) by (auto simp: is_request_def result_simps split: if_splits)
  have "length (filter (\<lambda>t. tlv_ty t = TlvCsptpRequest) ts) = length (List.map_filter request_tlv_try_from ts)"
    using assms(1) ts(1,2)
    by (auto simp: csptp_deserialize_def result_simps Let_def split: if_splits message_body.splits)
  moreover have "filter (\<lambda>t. tlv_ty t = TlvCsptpRequest) ts \<noteq> []" using ts(3) by (simp add: filter_empty_conv)
  ultimately have "List.map_filter request_tlv_try_from ts \<noteq> []" by fastforce
  with ts show ?thesis by (auto simp: map_filter_find_map)
qed

end
