(* ===== verification/Spec2Isabelle.thy ===== *)
theory Spec2Isabelle
  imports Ntp_Session Csptp_Messages
begin

text \<open>
  A verification development of ntpd-rs.
\<close>

text \<open>
  C1: from the key exchange to any number of polls, NTPv4 with NTS works. A client for NTPv4 exchanges keys with the
  server of a key set, and a source is made from the result. In each of the polls that follow, as long as the server is
  synchronised and lets the client through and the answer comes within the poll window, the source sends a
  request, the server gives it the time, and the source takes the answer: the controller gets exactly two measurements
  for each poll, with the times at which the request was sent and received and the answer was sent and received,
  and after every poll the source again holds eight cookies.
\<close>
theorem nts_session_keeps_time:
  fixes permit :: "'p option" and ctrl :: 'c
  assumes "aead_correct A" "aead_overhead A" "\<forall>i. length (nonces i) = 16" "exports tls" "server_inv srv"
    and "key_exchange_server_new versions name port tokens = Some ke_server" "NtpV4 \<in> set versions"
    and "pred_option (\<lambda>name. utf8_valid name \<and> length name \<le> 2000) name" "valid_name host"
    and "list_all (poll_ok A (srv_config srv) (srv_server_info srv)) polls"
  shows "\<exists>request response result s snaps' s' srv'.
    handle_connection A (Some tls) nonces ke_server (srv_keyset srv) permit request =
      Some \<lparr>sv_sent = response, sv_shutdown = True, sv_result = Inr None\<rparr> \<and>
    exchange_keys valid_name (Some tls) (key_exchange_client_new PV4) host [] response = (request, Inr result) \<and>
    source_new md5 addr config (ke_version result) (ctrl, []) (Some (ke_nts result)) sid = Some (s, [SetTimer 0]) \<and>
    poll_exchanges (logged C) polls (snaps, s, srv) = Some (snaps', s', srv') \<and> cookie_count s' = 8 \<and>
    map stamps (snd (src_controller s')) = concat (map poll_stamps polls)"
proof -
  let ?client = "key_exchange_client_new PV4"
  have ks: "keyset_ok (srv_keyset srv)" using assms(5) by (simp add: server_inv_def keyset_ok_def Let_def)
  have fits: "request_fits (KeyExchange (kc_algorithms ?client) (kc_protocols ?client) [])"
    by (simp add: key_exchange_client_new_def request_fits_def records_size_def MAX_MESSAGE_SIZE_def
        canonical_aead_def aead_from_u16_def)
  have "NTPv4 \<in> set (kx_protocols ke_server)"
    using assms(6,7) by (force simp: key_exchange_server_new_def List.map_filter_def)
  then have p: "find (\<lambda>v. v \<in> set (kx_protocols ke_server)) (kc_protocols ?client) = Some NTPv4"
    by (simp add: key_exchange_client_new_def)
  note run = key_exchange_run [where valid_name = valid_name and host = host and nonces = nonces and permit = permit,
      OF assms(1-4) ks assms(6,8) refl assms(9) fits p]
  then obtain request response result where ke:
    "handle_connection A (Some tls) nonces ke_server (srv_keyset srv) permit request =
      Some \<lparr>sv_sent = response, sv_shutdown = True, sv_result = Inr None\<rparr>"
    "exchange_keys valid_name (Some tls) ?client host [] response = (request, Inr result)" "ke_version result = PV4"
    and st: "stash_inv (nts_cookies (ke_nts result))" "length (stash_contents (nts_cookies (ke_nts result))) = 8"
    and wf: "cookie_wf \<lparr>dsc_algorithm = AeadAesSivCmac512, dsc_s2c = nts_s2c (ke_nts result), dsc_c2s = nts_c2s (ke_nts result)\<rparr>"
    and fresh: "\<forall>c \<in> set (stash_contents (nts_cookies (ke_nts result))). fresh_cookie A (srv_keyset srv)
        \<lparr>dsc_algorithm = AeadAesSivCmac512, dsc_s2c = nts_s2c (ke_nts result), dsc_c2s = nts_c2s (ke_nts result)\<rparr> c"
    by (auto simp del: length_stash_contents)
  have ne: "stash_contents (nts_cookies (ke_nts result)) \<noteq> []" using st(2) by (metis list.size(3) zero_neq_numeral)
  obtain s where s: "source_new md5 addr config PV4 (ctrl, [] :: measurement list) (Some (ke_nts result)) sid = Some (s, [SetTimer 0])"
      "in_session A (srv_keyset srv)
        \<lparr>dsc_algorithm = AeadAesSivCmac512, dsc_s2c = nts_s2c (ke_nts result), dsc_c2s = nts_c2s (ke_nts result)\<rparr> s"
      "cookie_count s = length (stash_contents (nts_cookies (ke_nts result)))" "src_controller s = (ctrl, [])"
    using source_new_in_session [OF st(1) ne refl wf fresh, of md5 addr config "(ctrl, [] :: measurement list)" sid] .
  obtain snaps' s' srv' where final: "poll_exchanges (logged C) polls (snaps, s, srv) = Some (snaps', s', srv')"
      "in_session A (srv_keyset srv)
        \<lparr>dsc_algorithm = AeadAesSivCmac512, dsc_s2c = nts_s2c (ke_nts result), dsc_c2s = nts_c2s (ke_nts result)\<rparr> s'"
      "8 \<le> cookie_count s'" "map stamps (snd (src_controller s')) = concat (map poll_stamps polls)"
    using session_polls [OF assms(1,2,5) s(2) assms(10), of C snaps] s(3,4) st(2) by auto
  have "cookie_count s' = 8" using final(2,3) cookie_count_le [of s'] by (auto simp: in_session_def)
  with ke s(1) final show ?thesis by fastforce
qed

theorem nts_session_keeps_time_witness:
  "\<exists>srv request response result s snaps' s' srv'.
    server_new example_config example_info example_ks = Some srv \<and>
    handle_connection example_aead (Some example_exporter) (\<lambda>_. replicate 16 0) example_ke_server example_ks (None :: unit option) request =
      Some \<lparr>sv_sent = response, sv_shutdown = True, sv_result = Inr None\<rparr> \<and>
    exchange_keys (\<lambda>_. True) (Some example_exporter) (key_exchange_client_new PV4) [0x61] [] response = (request, Inr result) \<and>
    source_new (\<lambda>_. []) example_addr example_source_config (ke_version result) ((), []) (Some (ke_nts result)) (ClockId 3) =
      Some (s, [SetTimer 0]) \<and>
    poll_exchanges (logged example_controller) [example_poll, example_poll] (Map.empty, s, srv) = Some (snaps', s', srv') \<and>
    cookie_count s' = 8 \<and> map stamps (snd (src_controller s')) = concat (map poll_stamps [example_poll, example_poll])"
proof -
  obtain srv where srv: "server_new example_config example_info example_ks = Some srv" "server_inv srv"
    "srv_config srv = example_config" "srv_keyset srv = example_ks" "srv_server_info srv = example_info" "srv_client_cache srv = []"
    using example_server by blast
  have "poll_ok example_aead example_config example_info example_poll"
    using example_env_wf example_in_range example_client_allowed(1) [OF srv(3,6)] srv(2,3,6)
    by (simp add: poll_ok_def example_poll_def example_env_facts example_source_env_def example_info_def MAX_STRATUM_def
        server_inv_def Let_def) (simp add: example_config_def)
  then have "list_all (poll_ok example_aead (srv_config srv) (srv_server_info srv)) [example_poll, example_poll]"
    by (simp add: srv)
  from nts_session_keeps_time [where nonces = "\<lambda>_. replicate 16 0" and valid_name = "\<lambda>_. True" and host = "[0x61]"
      and permit = "None :: unit option" and ctrl = "()" and ?md5.0 = "\<lambda>_. []" and addr = example_addr
      and config = example_source_config and sid = "ClockId 3" and C = example_controller and snaps = Map.empty,
      OF example_aead_ok _ example_exporter_exports srv(2) example_ke_server_new _ _ _ this]
  show ?thesis using srv(1) by (auto simp: srv(4) simp del: poll_exchanges.simps list.map)
qed

end
